(* ===== verification/Bispe_Prelude.thy ===== *)
theory Bispe_Prelude
  imports Main "HOL-Library.Word" "HOL-Library.Char_ord" "HOL-Library.Sublist"
begin

text \<open>
  Shared vocabulary of the development: machine integer types, the result type of C code
  that may leave the normal path, C strings, and generic lemmas on lists and results that
  every component theory uses.
\<close>

section \<open>Machine integers\<close>

type_synonym u8 = "8 word"
type_synonym u32 = "32 word"
type_synonym u64 = "64 word"

section \<open>Outcomes of C code\<close>

text \<open>
  A call either returns, or ends the process with \<open>exit(EXIT_FAILURE)\<close>, or runs into
  undefined behaviour (a NULL dereference, a read of the wrong union member), or, in the
  models that recurse on fuel, did not get enough fuel.
\<close>

datatype 'a outcome = Ret 'a | Exit_Failure | Segfault | No_Fuel

fun obind :: "'a outcome \<Rightarrow> ('a \<Rightarrow> 'b outcome) \<Rightarrow> 'b outcome" where
  "obind (Ret x) f = f x"
| "obind Exit_Failure f = Exit_Failure"
| "obind Segfault f = Segfault"
| "obind No_Fuel f = No_Fuel"

named_theorems outcome_simps

lemma obind_Ret_iff [outcome_simps]: "obind m f = Ret y \<longleftrightarrow> (\<exists>x. m = Ret x \<and> f x = Ret y)"
  by (cases m) auto

lemma obind_No_Fuel_iff [outcome_simps]:
  "obind m f = No_Fuel \<longleftrightarrow> m = No_Fuel \<or> (\<exists>x. m = Ret x \<and> f x = No_Fuel)"
  by (cases m) auto

lemma obind_Segfault_iff [outcome_simps]:
  "obind m f = Segfault \<longleftrightarrow> m = Segfault \<or> (\<exists>x. m = Ret x \<and> f x = Segfault)"
  by (cases m) auto

lemma obind_assoc: "obind (obind m f) g = obind m (\<lambda>x. obind (f x) g)"
  by (cases m) auto

lemma obind_cong [fundef_cong]:
  "m = m' \<Longrightarrow> (\<And>x. m' = Ret x \<Longrightarrow> f x = f' x) \<Longrightarrow> obind m f = obind m' f'"
  by (cases m') auto

section \<open>C strings\<close>

text \<open>The text of a buffer that C string functions see: everything before the first NUL.\<close>

definition c_string :: "string \<Rightarrow> string" where
  "c_string s = takeWhile (\<lambda>c. c \<noteq> CHR 0x00) s"

text \<open>\<open>str[i]\<close> on a string without NULs: the terminator is read just after its last char.\<close>

fun char_at :: "string \<Rightarrow> nat \<Rightarrow> char" where
  "char_at [] i = CHR 0x00"
| "char_at (c # cs) 0 = c"
| "char_at (c # cs) (Suc i) = char_at cs i"

lemma c_string_no_nul: "CHR 0x00 \<notin> set (c_string s)"
  by (auto simp: c_string_def dest: set_takeWhileD)

lemma c_string_id: "CHR 0x00 \<notin> set s \<Longrightarrow> c_string s = s"
  by (auto simp: c_string_def takeWhile_eq_all_conv)

section \<open>Lists\<close>

lemma append_eq_length_le: "ts = xs @ ys \<Longrightarrow> length ys \<le> length ts"
  by simp

lemma nth_list_update_cases:
  "i < length xs \<Longrightarrow> xs[i := v] ! j = (if j = i then v else xs ! j)"
  by (simp add: nth_list_update)

lemma dropWhile_length_le: "length (dropWhile P xs) \<le> length xs"
  by (induction xs) auto

end
