(* ===== verification/Cbc.thy ===== *)
theory Cbc
  imports Bispe_Prelude
begin

unbundle bit_operations_syntax

text \<open>
  The 128-bit lines the interpreter moves between registers and memory, and the crypto
  wrapper macros of backend/asm_state_macros.S: CBC reads and writes of a line, and the
  write that re-encrypts the rest of the chain. The block cipher (\<open>encblk\<close>, \<open>decblk\<close>
  under the round keys of the current cycle) is a parameter. A segment is the list of its
  lines in memory with the init vector in front, so line \<open>i\<close> of the segment is element
  \<open>i + 1\<close> of the list and its predecessor in the chain is element \<open>i\<close>.
\<close>

section \<open>Lines\<close>

datatype line = Line (dword0: u32) (dword1: u32) (dword2: u32) (dword3: u32)

definition line_xor :: "line \<Rightarrow> line \<Rightarrow> line" where
  "line_xor a b = Line (dword0 a XOR dword0 b) (dword1 a XOR dword1 b)
                       (dword2 a XOR dword2 b) (dword3 a XOR dword3 b)"

text \<open>\<open>extr_by_ofs\<close> and the compare cascade of \<open>ins_by_ofs\<close>; the offset is in dwords.\<close>

definition extr_by_ofs :: "line \<Rightarrow> nat \<Rightarrow> u32" where
  "extr_by_ofs src ofs =
     (if ofs = 0 then dword0 src else if ofs = 1 then dword1 src
      else if ofs = 2 then dword2 src else dword3 src)"

definition ins_by_ofs :: "u32 \<Rightarrow> line \<Rightarrow> nat \<Rightarrow> line" where
  "ins_by_ofs src dest ofs =
     (if ofs = 0 then Line src (dword1 dest) (dword2 dest) (dword3 dest)
      else if ofs = 1 then Line (dword0 dest) src (dword2 dest) (dword3 dest)
      else if ofs = 2 then Line (dword0 dest) (dword1 dest) src (dword3 dest)
      else Line (dword0 dest) (dword1 dest) (dword2 dest) src)"

lemma line_xor_cancel [simp]: "line_xor (line_xor a b) b = a"
  by (cases a; cases b) (simp add: line_xor_def xor.assoc)

lemma line_xor_cancel_left: "line_xor (line_xor a b) a = b"
  by (cases a; cases b) (simp add: line_xor_def xor.left_commute xor.assoc xor.commute)

lemma extr_ins [simp]:
  "i < 4 \<Longrightarrow> j < 4 \<Longrightarrow> extr_by_ofs (ins_by_ofs v l i) j = (if i = j then v else extr_by_ofs l j)"
  by (auto simp: extr_by_ofs_def ins_by_ofs_def)

lemma line_eqI: "(\<And>i. i < 4 \<Longrightarrow> extr_by_ofs a i = extr_by_ofs b i) \<Longrightarrow> a = b"
proof -
  assume h: "\<And>i. i < 4 \<Longrightarrow> extr_by_ofs a i = extr_by_ofs b i"
  from h [of 0] h [of 1] h [of 2] h [of 3] show ?thesis
    by (cases a; cases b) (simp add: extr_by_ofs_def)
qed

section \<open>CBC reads and writes\<close>

type_synonym block_fun = "line \<Rightarrow> line"

text \<open>\<open>decrypt_memory_cbc\<close>: the plain text of line \<open>i\<close>.\<close>

definition decrypt_memory_cbc :: "block_fun \<Rightarrow> line list \<Rightarrow> nat \<Rightarrow> line" where
  "decrypt_memory_cbc dec seg i = line_xor (dec (seg ! (i + 1))) (seg ! i)"

definition encrypt_reg_cbc :: "block_fun \<Rightarrow> line \<Rightarrow> nat \<Rightarrow> line list \<Rightarrow> line list" where
  "encrypt_reg_cbc enc src i seg = seg[i + 1 := enc (line_xor src (seg ! i))]"

text \<open>
  The loop of \<open>encrypt_reg_cbc_chain\<close>: \<open>n\<close> blocks after \<open>dest\<close> are left, \<open>new\<close> is
  the new cipher text of \<open>dest\<close>, not yet stored.
\<close>

fun chain_loop :: "block_fun \<Rightarrow> block_fun \<Rightarrow> nat \<Rightarrow> nat \<Rightarrow> line \<Rightarrow> line list \<Rightarrow> line list" where
  "chain_loop enc dec 0 dest new seg = seg[dest + 1 := new]"
| "chain_loop enc dec (Suc n) dest new seg =
     chain_loop enc dec n (dest + 1)
       (enc (line_xor (line_xor (dec (seg ! (dest + 2))) (seg ! (dest + 1))) new))
       (seg[dest + 1 := new])"

definition encrypt_reg_cbc_chain ::
  "block_fun \<Rightarrow> block_fun \<Rightarrow> line \<Rightarrow> nat \<Rightarrow> nat \<Rightarrow> line list \<Rightarrow> line list" where
  "encrypt_reg_cbc_chain enc dec src dest end_line seg =
     chain_loop enc dec (end_line - dest) dest (enc (line_xor src (seg ! dest))) seg"

section \<open>What the chain write preserves\<close>

lemma chain_loop_length [simp]: "length (chain_loop enc dec n dest new seg) = length seg"
  by (induction n arbitrary: dest new seg) auto

lemma encrypt_reg_cbc_chain_length [simp]:
  "length (encrypt_reg_cbc_chain enc dec src dest end_line seg) = length seg"
  by (simp add: encrypt_reg_cbc_chain_def)

lemma encrypt_reg_cbc_length [simp]: "length (encrypt_reg_cbc enc src i seg) = length seg"
  by (simp add: encrypt_reg_cbc_def)

lemma chain_loop_below: "i \<le> dest \<Longrightarrow> chain_loop enc dec n dest new seg ! i = seg ! i"
  by (induction n arbitrary: dest new seg) auto

lemma chain_loop_first:
  "dest + 1 < length seg \<Longrightarrow> chain_loop enc dec n dest new seg ! (dest + 1) = new"
  by (cases n) (simp_all add: chain_loop_below)

lemma chain_loop_above:
  "dest + n + 1 < i \<Longrightarrow> chain_loop enc dec n dest new seg ! i = seg ! i"
  by (induction n arbitrary: dest new seg) auto

lemma chain_loop_plain:
  assumes inv: "\<And>b. dec (enc b) = b"
  shows "dest < i \<Longrightarrow> i \<le> dest + n \<Longrightarrow> dest + n + 1 < length seg \<Longrightarrow>
    decrypt_memory_cbc dec (chain_loop enc dec n dest new seg) i = decrypt_memory_cbc dec seg i"
proof (induction n arbitrary: dest new seg)
  case (Suc n)
  let ?next = "enc (line_xor (line_xor (dec (seg ! (dest + 2))) (seg ! (dest + 1))) new)"
  let ?seg = "seg[dest + 1 := new]"
  show ?case
  proof (cases "i = dest + 1")
    case True
    have "chain_loop enc dec n (dest + 1) ?next ?seg ! (i + 1) = ?next"
      using Suc.prems True by (simp add: chain_loop_first [of "dest + 1", simplified])
    moreover have "chain_loop enc dec n (dest + 1) ?next ?seg ! i = new"
      using Suc.prems True by (simp add: chain_loop_below)
    ultimately show ?thesis
      using True by (simp add: decrypt_memory_cbc_def inv)
  next
    case False
    then have "decrypt_memory_cbc dec (chain_loop enc dec n (dest + 1) ?next ?seg) i
        = decrypt_memory_cbc dec ?seg i"
      using Suc.prems by (intro Suc.IH) simp_all
    also have "\<dots> = decrypt_memory_cbc dec seg i"
      using Suc.prems False by (simp add: decrypt_memory_cbc_def)
    finally show ?thesis by simp
  qed
qed simp

lemma chain_below_plain:
  "i < dest \<Longrightarrow> decrypt_memory_cbc dec (encrypt_reg_cbc_chain enc dec src dest end_line seg) i
     = decrypt_memory_cbc dec seg i"
  by (simp add: decrypt_memory_cbc_def encrypt_reg_cbc_chain_def chain_loop_below)

lemma chain_dest_plain:
  assumes "\<And>b. dec (enc b) = b" and "dest + 1 < length seg"
  shows "decrypt_memory_cbc dec (encrypt_reg_cbc_chain enc dec src dest end_line seg) dest = src"
  using assms chain_loop_first [OF assms(2)]
  by (simp add: decrypt_memory_cbc_def encrypt_reg_cbc_chain_def chain_loop_below)

lemma chain_above_plain:
  assumes "\<And>b. dec (enc b) = b" and "dest < i" "i \<le> end_line" "end_line + 1 < length seg"
  shows "decrypt_memory_cbc dec (encrypt_reg_cbc_chain enc dec src dest end_line seg) i
    = decrypt_memory_cbc dec seg i"
  unfolding encrypt_reg_cbc_chain_def
  by (rule chain_loop_plain) (use assms in auto)

lemma cbc_write_dest_plain:
  assumes "\<And>b. dec (enc b) = b" and "i + 1 < length seg"
  shows "decrypt_memory_cbc dec (encrypt_reg_cbc enc src i seg) i = src"
  using assms by (simp add: decrypt_memory_cbc_def encrypt_reg_cbc_def)

lemma cbc_write_below_plain:
  "j < i \<Longrightarrow> decrypt_memory_cbc dec (encrypt_reg_cbc enc src i seg) j = decrypt_memory_cbc dec seg j"
  by (simp add: decrypt_memory_cbc_def encrypt_reg_cbc_def)

end
