(* ===== verification/Instructions.thy ===== *)
theory Instructions
  imports Bispe_Prelude
begin

text \<open>
  compiler/include/instructions.h: the instruction types and the table that gives their
  mnemonic, whether an argument word follows, and the opcode word; and
  backend/include/bispe_defines.h: the opcodes the interpreter's tests and its jump table use.
\<close>

datatype instr_type =
    INSTR_NOP | INSTR_FINISH
  | INSTR_PUSH | INSTR_PRINT | INSTR_LOAD | INSTR_STORE
  | INSTR_ADD | INSTR_SUB | INSTR_MUL | INSTR_DIV | INSTR_MOD
  | INSTR_JMP | INSTR_JEQ | INSTR_JNE | INSTR_JL | INSTR_JLE | INSTR_JG | INSTR_JGE
  | INSTR_CALL | INSTR_RET | INSTR_PROLOG | INSTR_EPILOG | INSTR_ARGLOAD

text \<open>The position of an enumerator, which is the index into \<open>instr_info[]\<close>.\<close>

fun instr_index :: "instr_type \<Rightarrow> nat" where
  "instr_index INSTR_NOP = 0"
| "instr_index INSTR_FINISH = 1"
| "instr_index INSTR_PUSH = 2"
| "instr_index INSTR_PRINT = 3"
| "instr_index INSTR_LOAD = 4"
| "instr_index INSTR_STORE = 5"
| "instr_index INSTR_ADD = 6"
| "instr_index INSTR_SUB = 7"
| "instr_index INSTR_MUL = 8"
| "instr_index INSTR_DIV = 9"
| "instr_index INSTR_MOD = 10"
| "instr_index INSTR_JMP = 11"
| "instr_index INSTR_JEQ = 12"
| "instr_index INSTR_JNE = 13"
| "instr_index INSTR_JL = 14"
| "instr_index INSTR_JLE = 15"
| "instr_index INSTR_JG = 16"
| "instr_index INSTR_JGE = 17"
| "instr_index INSTR_CALL = 18"
| "instr_index INSTR_RET = 19"
| "instr_index INSTR_PROLOG = 20"
| "instr_index INSTR_EPILOG = 21"
| "instr_index INSTR_ARGLOAD = 22"

record instr_info =
  ii_name :: string
  ii_has_arg :: bool
  ii_opcode :: u32

abbreviation info :: "string \<Rightarrow> bool \<Rightarrow> u32 \<Rightarrow> instr_info" where
  "info n a c \<equiv> \<lparr>ii_name = n, ii_has_arg = a, ii_opcode = c\<rparr>"

definition instr_info_table :: "instr_info list" where
  "instr_info_table =
    [info ''nop'' False 0x0,
     info ''finish'' False 0x01,
     info ''push'' True 0x02,
     info ''print'' False 0x03,
     info ''load'' True 0x04,
     info ''store'' True 0x05,
     info ''add'' False 0x06,
     info ''sub'' False 0x07,
     info ''mul'' False 0x08,
     info ''div'' False 0x09,
     info ''mod'' False 0x0A,
     info ''jmp'' True 0x0B,
     info ''jeq'' True 0x0C,
     info ''jne'' True 0x0D,
     info ''jl'' True 0x0E,
     info ''jle'' True 0x0F,
     info ''jge'' True 0x10,
     info ''jg'' True 0x11,
     info ''call'' True 0x12,
     info ''ret'' False 0x13,
     info ''prolog'' True 0x14,
     info ''epilog'' True 0x15,
     info ''argload'' True 0x16]"

definition info_of :: "instr_type \<Rightarrow> instr_info" where
  "info_of i = instr_info_table ! instr_index i"

abbreviation has_arg :: "instr_type \<Rightarrow> bool" where
  "has_arg i \<equiv> ii_has_arg (info_of i)"

abbreviation opcode :: "instr_type \<Rightarrow> u32" where
  "opcode i \<equiv> ii_opcode (info_of i)"

text \<open>The \<open>#define INSTR_...\<close> opcodes of the backend.\<close>

fun backend_opcode :: "instr_type \<Rightarrow> u32" where
  "backend_opcode INSTR_NOP = 0x00"
| "backend_opcode INSTR_FINISH = 0x01"
| "backend_opcode INSTR_PUSH = 0x02"
| "backend_opcode INSTR_PRINT = 0x03"
| "backend_opcode INSTR_LOAD = 0x04"
| "backend_opcode INSTR_STORE = 0x05"
| "backend_opcode INSTR_ADD = 0x06"
| "backend_opcode INSTR_SUB = 0x07"
| "backend_opcode INSTR_MUL = 0x08"
| "backend_opcode INSTR_DIV = 0x09"
| "backend_opcode INSTR_MOD = 0x0A"
| "backend_opcode INSTR_JMP = 0x0B"
| "backend_opcode INSTR_JEQ = 0x0C"
| "backend_opcode INSTR_JNE = 0x0D"
| "backend_opcode INSTR_JL = 0x0E"
| "backend_opcode INSTR_JLE = 0x0F"
| "backend_opcode INSTR_JG = 0x10"
| "backend_opcode INSTR_JGE = 0x11"
| "backend_opcode INSTR_CALL = 0x12"
| "backend_opcode INSTR_RET = 0x13"
| "backend_opcode INSTR_PROLOG = 0x14"
| "backend_opcode INSTR_EPILOG = 0x15"
| "backend_opcode INSTR_ARGLOAD = 0x16"

lemma opcode_index: "opcode i = of_nat (instr_index i)"
  by (cases i) (simp_all add: info_of_def instr_info_table_def)

lemma instr_index_inject: "instr_index i = instr_index j \<longleftrightarrow> i = j"
  by (cases i; cases j) simp_all

lemma instr_index_less: "instr_index i < 23"
  by (cases i) simp_all

lemma opcode_inject: "opcode i = opcode j \<longleftrightarrow> i = j"
proof
  assume "opcode i = opcode j"
  then have "(of_nat (instr_index i) :: u32) = of_nat (instr_index j)" by (simp add: opcode_index)
  then have "instr_index i = instr_index j"
    using instr_index_less [of i] instr_index_less [of j] by (simp add: word_of_nat_eq_iff take_bit_nat_eq_self)
  then show "i = j" by (simp add: instr_index_inject)
qed simp

end
