(* ===== verification/Machine.thy ===== *)
theory Machine
  imports Cbc Instructions
begin

text \<open>
  The interpreter core of backend/asm_state_macros.S, asm_instructions.S, asm_error.S and
  bispe_cycle_asm.S in its ENCRYPTION build, one definition per macro, handler and entry
  point, and the cycle loop \<open>start_interpreter\<close> of bispe_interpreter.c.

  A pointer into a segment is the number of dwords from the segment's base; the base
  addresses are 16-byte aligned kernel addresses, so \<open>align_ptr\<close> is division by 4 and
  \<open>ofs_from_ptr\<close> the remainder, and no address sum wraps. \<open>cur_call_line\<close>, always aligned,
  is a line number. A memory access outside a segment is \<open>Fault\<close>.
\<close>

section \<open>State\<close>

text \<open>
  The globals \<open>bispe_..._seg_size\<close> (bytes), the program arguments, and the block cipher
  under the key that \<open>bispe_gen_rkeys\<close> expands before every cycle.
\<close>

record asm_env =
  encblk :: "line \<Rightarrow> line"
  decblk :: "line \<Rightarrow> line"
  code_seg_size :: nat
  stack_seg_size :: nat
  call_seg_size :: nat
  print_seg_size :: nat
  argv :: "u32 list"
  instr_per_cycle :: nat

text \<open>The segments, the variables of \<open>.data\<close>, and the registers.\<close>

record machine =
  code_seg :: "line list"
  stack_seg :: "line list"
  call_seg :: "line list"
  print_seg :: "u32 list"
  instr_ptr :: int
  stack_ptr :: int
  call_ptr :: int
  print_ptr :: int
  halt_flag :: bool
  error_code :: u8
  cur_instr_ptr :: int
  cur_stack_ptr :: int
  cur_call_ptr :: int
  cur_call_line :: int
  rinstr_line :: line
  rstack_line :: line
  rcall_line :: line
  instr_cnt :: nat

text \<open>
  How a stretch of code ends: it runs on, jumps to \<open>bispe_cycle_outro\<close>, jumps to an error
  label, or touches memory outside its segment.
\<close>

datatype 'a asm = Go 'a | Outro machine | Error u8 machine | Fault

fun abind :: "'a asm \<Rightarrow> ('a \<Rightarrow> 'b asm) \<Rightarrow> 'b asm" where
  "abind (Go x) f = f x"
| "abind (Outro s) f = Outro s"
| "abind (Error c s) f = Error c s"
| "abind Fault f = Fault"

abbreviation "ERR_INV_OPCODE \<equiv> (0x1 :: u8)"
abbreviation "ERR_JMP_BOUNDS \<equiv> (0x2 :: u8)"
abbreviation "ERR_STACK_OVERFLOW \<equiv> (0x3 :: u8)"
abbreviation "ERR_STACK_UNDERFLOW \<equiv> (0x4 :: u8)"
abbreviation "ERR_CALL_OVERFLOW \<equiv> (0x5 :: u8)"
abbreviation "ERR_CALL_UNDERFLOW \<equiv> (0x6 :: u8)"
abbreviation "ERR_DIV_ZERO \<equiv> (0x7 :: u8)"
abbreviation "ERR_ARG_RANGE \<equiv> (0x8 :: u8)"

section \<open>Macros on pointers and segments\<close>

definition align_ptr :: "int \<Rightarrow> int" where
  "align_ptr p = p div 4"

definition ofs_from_ptr :: "int \<Rightarrow> nat" where
  "ofs_from_ptr p = nat (p mod 4)"

definition in_seg :: "line list \<Rightarrow> int \<Rightarrow> bool" where
  "in_seg seg i \<longleftrightarrow> 0 \<le> i \<and> i + 1 < int (length seg)"

definition read_line :: "asm_env \<Rightarrow> line list \<Rightarrow> int \<Rightarrow> line asm" where
  "read_line e seg i =
     (if in_seg seg i then Go (decrypt_memory_cbc (decblk e) seg (nat i)) else Fault)"

definition write_line :: "asm_env \<Rightarrow> line \<Rightarrow> int \<Rightarrow> line list \<Rightarrow> line list asm" where
  "write_line e src i seg =
     (if in_seg seg i then Go (encrypt_reg_cbc (encblk e) src (nat i) seg) else Fault)"

definition write_chain :: "asm_env \<Rightarrow> line \<Rightarrow> int \<Rightarrow> int \<Rightarrow> line list \<Rightarrow> line list asm" where
  "write_chain e src i end_line seg =
     (if in_seg seg i \<and> i \<le> end_line \<and> in_seg seg end_line
      then Go (encrypt_reg_cbc_chain (encblk e) (decblk e) src (nat i) (nat end_line) seg)
      else Fault)"

section \<open>Instruction line\<close>

definition extr_next_instr :: "machine \<Rightarrow> u32" where
  "extr_next_instr s = extr_by_ofs (rinstr_line s) (ofs_from_ptr (cur_instr_ptr s))"

definition fetch_instr_line :: "asm_env \<Rightarrow> machine \<Rightarrow> machine asm" where
  "fetch_instr_line e s =
     abind (read_line e (code_seg s) (align_ptr (cur_instr_ptr s))) (\<lambda>l. Go (s\<lparr>rinstr_line := l\<rparr>))"

definition inc_instr_ptr :: "asm_env \<Rightarrow> machine \<Rightarrow> machine asm" where
  "inc_instr_ptr e s =
     (let ofs = ofs_from_ptr (cur_instr_ptr s);
          s1 = s\<lparr>cur_instr_ptr := cur_instr_ptr s + 1\<rparr>
      in if ofs \<noteq> 3 then Go s1 else fetch_instr_line e s1)"

section \<open>Stack line\<close>

definition ins_stack :: "u32 \<Rightarrow> machine \<Rightarrow> machine" where
  "ins_stack v s = s\<lparr>rstack_line := ins_by_ofs v (rstack_line s) (ofs_from_ptr (cur_stack_ptr s))\<rparr>"

definition extr_stack :: "machine \<Rightarrow> u32" where
  "extr_stack s = extr_by_ofs (rstack_line s) (ofs_from_ptr (cur_stack_ptr s))"

definition fetch_stack_line :: "asm_env \<Rightarrow> machine \<Rightarrow> machine asm" where
  "fetch_stack_line e s =
     abind (read_line e (stack_seg s) (align_ptr (cur_stack_ptr s))) (\<lambda>l. Go (s\<lparr>rstack_line := l\<rparr>))"

definition save_stack_line :: "asm_env \<Rightarrow> machine \<Rightarrow> machine asm" where
  "save_stack_line e s =
     abind (write_line e (rstack_line s) (align_ptr (cur_stack_ptr s)) (stack_seg s))
       (\<lambda>seg. Go (s\<lparr>stack_seg := seg\<rparr>))"

definition inc_stack_ptr :: "asm_env \<Rightarrow> machine \<Rightarrow> machine asm" where
  "inc_stack_ptr e s =
     (let line_no = align_ptr (cur_stack_ptr s);
          ofs = ofs_from_ptr (cur_stack_ptr s);
          s1 = s\<lparr>cur_stack_ptr := cur_stack_ptr s + 1\<rparr>
      in if ofs \<noteq> 3 then Go s1
         else abind (write_line e (rstack_line s1) line_no (stack_seg s1)) (\<lambda>seg.
           let s2 = s1\<lparr>stack_seg := seg\<rparr>
           in if int (stack_seg_size e) \<le> 4 * cur_stack_ptr s2 then Error ERR_STACK_OVERFLOW s2
              else Go s2))"

definition dec_stack_ptr :: "asm_env \<Rightarrow> machine \<Rightarrow> machine asm" where
  "dec_stack_ptr e s =
     (let ofs = ofs_from_ptr (cur_stack_ptr s);
          s1 = s\<lparr>cur_stack_ptr := cur_stack_ptr s - 1\<rparr>
      in if ofs \<noteq> 0 then Go s1
         else if cur_stack_ptr s1 < 0 then Error ERR_STACK_UNDERFLOW s1
         else fetch_stack_line e s1)"

section \<open>Call line\<close>

definition fetch_call_line :: "asm_env \<Rightarrow> int \<Rightarrow> machine \<Rightarrow> machine asm" where
  "fetch_call_line e target_line s =
     (if cur_call_line s = target_line then Go s
      else if target_line < 0 then Error ERR_CALL_UNDERFLOW s
      else abind (write_chain e (rcall_line s) (cur_call_line s) (align_ptr (cur_call_ptr s)) (call_seg s)) (\<lambda>seg.
           abind (read_line e seg target_line) (\<lambda>l.
             Go (s\<lparr>call_seg := seg, rcall_line := l, cur_call_line := target_line\<rparr>))))"

text \<open>The displacement is in dwords; the handlers' \<open>shl $2\<close> on the 32-bit register comes first.\<close>

definition displacement :: "u32 \<Rightarrow> int" where
  "displacement imm = uint (push_bit 2 imm) div 4"

definition fetch_call_element :: "asm_env \<Rightarrow> int \<Rightarrow> machine \<Rightarrow> (u32 \<times> machine) asm" where
  "fetch_call_element e disp s =
     (let target = cur_call_ptr s - disp
      in abind (fetch_call_line e (align_ptr target) s) (\<lambda>s1.
           Go (extr_by_ofs (rcall_line s1) (ofs_from_ptr target), s1)))"

definition save_call_element :: "asm_env \<Rightarrow> int \<Rightarrow> u32 \<Rightarrow> machine \<Rightarrow> machine asm" where
  "save_call_element e disp src s =
     (let target = cur_call_ptr s - disp
      in abind (fetch_call_line e (align_ptr target) s) (\<lambda>s1.
           Go (s1\<lparr>rcall_line := ins_by_ofs src (rcall_line s1) (ofs_from_ptr target)\<rparr>)))"

definition save_call_line :: "asm_env \<Rightarrow> machine \<Rightarrow> machine asm" where
  "save_call_line e s =
     abind (write_chain e (rcall_line s) (cur_call_line s) (align_ptr (cur_call_ptr s)) (call_seg s))
       (\<lambda>seg. Go (s\<lparr>call_seg := seg\<rparr>))"

definition force_call_line_fetch :: "asm_env \<Rightarrow> int \<Rightarrow> machine \<Rightarrow> machine asm" where
  "force_call_line_fetch e target_line s =
     (if target_line < 0 then Error ERR_CALL_UNDERFLOW s
      else abind (read_line e (call_seg s) target_line) (\<lambda>l.
             Go (s\<lparr>rcall_line := l, cur_call_line := target_line\<rparr>)))"

definition inc_call_ptr :: "asm_env \<Rightarrow> int \<Rightarrow> machine \<Rightarrow> machine asm" where
  "inc_call_ptr e amount s =
     (let s1 = s\<lparr>cur_call_ptr := cur_call_ptr s + amount\<rparr>
      in if int (call_seg_size e) \<le> 4 * cur_call_ptr s1 then Error ERR_CALL_OVERFLOW s1 else Go s1)"

definition dec_call_ptr :: "asm_env \<Rightarrow> int \<Rightarrow> machine \<Rightarrow> machine asm" where
  "dec_call_ptr e amount s =
     (let old = cur_call_ptr s;
          s1 = s\<lparr>cur_call_ptr := cur_call_ptr s - amount\<rparr>
      in if cur_call_ptr s1 < 0 then Error ERR_CALL_UNDERFLOW s1
         else if 4 * cur_call_line s1 \<le> cur_call_ptr s1 then Go s1
         else abind (write_chain e (rcall_line s1) (cur_call_line s1) (align_ptr old) (call_seg s1)) (\<lambda>seg.
              abind (read_line e seg (align_ptr (cur_call_ptr s1))) (\<lambda>l.
                Go (s1\<lparr>call_seg := seg, cur_call_line := align_ptr (cur_call_ptr s1), rcall_line := l\<rparr>))))"

section \<open>Instruction macros\<close>

definition inc_and_check_cycle_cnt :: "asm_env \<Rightarrow> machine \<Rightarrow> machine asm" where
  "inc_and_check_cycle_cnt e s =
     (let s1 = s\<lparr>instr_cnt := instr_cnt s + 1\<rparr>
      in if instr_cnt s1 = instr_per_cycle e then Outro s1 else Go s1)"

definition calc_jmp_target :: "asm_env \<Rightarrow> u32 \<Rightarrow> machine \<Rightarrow> int asm" where
  "calc_jmp_target e target s =
     (if int (code_seg_size e) \<le> 4 * uint target then Error ERR_JMP_BOUNDS s else Go (uint target))"

definition goto_next_instr :: "asm_env \<Rightarrow> machine \<Rightarrow> machine asm" where
  "goto_next_instr e s = abind (inc_instr_ptr e s) (inc_and_check_cycle_cnt e)"

text \<open>The jump proper, shared by the jumps, calls and returns.\<close>

definition jump_to :: "asm_env \<Rightarrow> int \<Rightarrow> machine \<Rightarrow> machine asm" where
  "jump_to e target s =
     abind (fetch_instr_line e (s\<lparr>cur_instr_ptr := target\<rparr>)) (inc_and_check_cycle_cnt e)"

section \<open>Interpreter instructions\<close>

definition instr_nop :: "asm_env \<Rightarrow> machine \<Rightarrow> machine asm" where
  "instr_nop e s = goto_next_instr e s"

definition instr_finish :: "asm_env \<Rightarrow> machine \<Rightarrow> machine asm" where
  "instr_finish e s = Outro (s\<lparr>halt_flag := True\<rparr>)"

definition instr_push :: "asm_env \<Rightarrow> machine \<Rightarrow> machine asm" where
  "instr_push e s =
     abind (inc_instr_ptr e s) (\<lambda>s1.
     let v = extr_next_instr s1
     in abind (inc_stack_ptr e s1) (\<lambda>s2. goto_next_instr e (ins_stack v s2)))"

definition instr_print :: "asm_env \<Rightarrow> machine \<Rightarrow> machine asm" where
  "instr_print e s =
     (let v = extr_stack s
      in abind (dec_stack_ptr e s) (\<lambda>s1.
         if 0 \<le> print_ptr s1 \<and> print_ptr s1 < int (length (print_seg s1)) then
           (let s2 = s1\<lparr>print_seg := (print_seg s1)[nat (print_ptr s1) := v], print_ptr := print_ptr s1 + 1\<rparr>;
                s3 = (if int (print_seg_size e) > 4 * print_ptr s2 then s2 else s2\<lparr>print_ptr := 0\<rparr>)
            in goto_next_instr e s3)
         else Fault))"

definition instr_load :: "asm_env \<Rightarrow> machine \<Rightarrow> machine asm" where
  "instr_load e s =
     abind (inc_instr_ptr e s) (\<lambda>s1.
     abind (fetch_call_element e (displacement (extr_next_instr s1)) s1) (\<lambda>(v, s2).
     abind (inc_stack_ptr e s2) (\<lambda>s3. goto_next_instr e (ins_stack v s3))))"

definition instr_store :: "asm_env \<Rightarrow> machine \<Rightarrow> machine asm" where
  "instr_store e s =
     abind (inc_instr_ptr e s) (\<lambda>s1.
     let disp = displacement (extr_next_instr s1); v = extr_stack s1
     in abind (dec_stack_ptr e s1) (\<lambda>s2.
        abind (save_call_element e disp v s2) (\<lambda>s3. goto_next_instr e s3)))"

text \<open>The common shape of the arithmetic handlers: \<open>f second top\<close> replaces the two.\<close>

definition instr_arith :: "(u32 \<Rightarrow> u32 \<Rightarrow> u32) \<Rightarrow> asm_env \<Rightarrow> machine \<Rightarrow> machine asm" where
  "instr_arith f e s =
     (let top = extr_stack s
      in abind (dec_stack_ptr e s) (\<lambda>s1.
         let second = extr_stack s1
         in goto_next_instr e (ins_stack (f second top) s1)))"

definition instr_add :: "asm_env \<Rightarrow> machine \<Rightarrow> machine asm" where
  "instr_add = instr_arith (\<lambda>second top. second + top)"

definition instr_sub :: "asm_env \<Rightarrow> machine \<Rightarrow> machine asm" where
  "instr_sub = instr_arith (\<lambda>second top. second - top)"

definition instr_mul :: "asm_env \<Rightarrow> machine \<Rightarrow> machine asm" where
  "instr_mul = instr_arith (\<lambda>second top. second * top)"

definition instr_divmod :: "(u32 \<Rightarrow> u32 \<Rightarrow> u32) \<Rightarrow> asm_env \<Rightarrow> machine \<Rightarrow> machine asm" where
  "instr_divmod f e s =
     (let top = extr_stack s
      in abind (dec_stack_ptr e s) (\<lambda>s1.
         if top = 0 then Error ERR_DIV_ZERO s1
         else let second = extr_stack s1
              in goto_next_instr e (ins_stack (f second top) s1)))"

definition instr_div :: "asm_env \<Rightarrow> machine \<Rightarrow> machine asm" where
  "instr_div = instr_divmod (\<lambda>second top. second div top)"

definition instr_mod :: "asm_env \<Rightarrow> machine \<Rightarrow> machine asm" where
  "instr_mod = instr_divmod (\<lambda>second top. second mod top)"

definition instr_jmp :: "asm_env \<Rightarrow> machine \<Rightarrow> machine asm" where
  "instr_jmp e s =
     abind (inc_instr_ptr e s) (\<lambda>s1.
     abind (calc_jmp_target e (extr_next_instr s1) s1) (\<lambda>target. jump_to e target s1))"

text \<open>The conditional jumps; \<open>c second top\<close> is the signed compare of the jump.\<close>

definition instr_jcc :: "(u32 \<Rightarrow> u32 \<Rightarrow> bool) \<Rightarrow> asm_env \<Rightarrow> machine \<Rightarrow> machine asm" where
  "instr_jcc c e s =
     (let top = extr_stack s
      in abind (dec_stack_ptr e s) (\<lambda>s1.
         let second = extr_stack s1
         in abind (dec_stack_ptr e s1) (\<lambda>s2.
            if c second top then instr_jmp e s2
            else abind (inc_instr_ptr e s2) (goto_next_instr e))))"

definition instr_jeq :: "asm_env \<Rightarrow> machine \<Rightarrow> machine asm" where
  "instr_jeq = instr_jcc (\<lambda>second top. second = top)"

definition instr_jne :: "asm_env \<Rightarrow> machine \<Rightarrow> machine asm" where
  "instr_jne = instr_jcc (\<lambda>second top. second \<noteq> top)"

definition instr_jl :: "asm_env \<Rightarrow> machine \<Rightarrow> machine asm" where
  "instr_jl = instr_jcc (\<lambda>second top. sint second < sint top)"

definition instr_jle :: "asm_env \<Rightarrow> machine \<Rightarrow> machine asm" where
  "instr_jle = instr_jcc (\<lambda>second top. sint second \<le> sint top)"

definition instr_jg :: "asm_env \<Rightarrow> machine \<Rightarrow> machine asm" where
  "instr_jg = instr_jcc (\<lambda>second top. sint second > sint top)"

definition instr_jge :: "asm_env \<Rightarrow> machine \<Rightarrow> machine asm" where
  "instr_jge = instr_jcc (\<lambda>second top. sint second \<ge> sint top)"

definition instr_call :: "asm_env \<Rightarrow> machine \<Rightarrow> machine asm" where
  "instr_call e s =
     abind (inc_instr_ptr e s) (\<lambda>s1.
     abind (calc_jmp_target e (extr_next_instr s1) s1) (\<lambda>target.
     let ret_addr = of_int (cur_instr_ptr s1 + 1)
     in abind (inc_call_ptr e 1 s1) (\<lambda>s2.
        abind (save_call_element e 0 ret_addr s2) (jump_to e target))))"

definition instr_ret :: "asm_env \<Rightarrow> machine \<Rightarrow> machine asm" where
  "instr_ret e s =
     abind (fetch_call_element e 0 s) (\<lambda>(addr, s1).
     abind (calc_jmp_target e addr s1) (\<lambda>target.
     abind (dec_call_ptr e 1 s1) (jump_to e target)))"

definition instr_prolog :: "asm_env \<Rightarrow> machine \<Rightarrow> machine asm" where
  "instr_prolog e s =
     abind (inc_instr_ptr e s) (\<lambda>s1.
     abind (inc_call_ptr e (displacement (extr_next_instr s1)) s1) (goto_next_instr e))"

definition instr_epilog :: "asm_env \<Rightarrow> machine \<Rightarrow> machine asm" where
  "instr_epilog e s =
     abind (inc_instr_ptr e s) (\<lambda>s1.
     abind (dec_call_ptr e (displacement (extr_next_instr s1)) s1) (goto_next_instr e))"

definition instr_argload :: "asm_env \<Rightarrow> machine \<Rightarrow> machine asm" where
  "instr_argload e s =
     abind (inc_instr_ptr e s) (\<lambda>s1.
     let pos = extr_next_instr s1
     in if int (length (argv e)) \<le> uint pos then Error ERR_ARG_RANGE s1
        else abind (save_call_element e (displacement pos) (argv e ! unat pos) s1) (goto_next_instr e))"

section \<open>The cycle\<close>

definition instr_table :: "(asm_env \<Rightarrow> machine \<Rightarrow> machine asm) list" where
  "instr_table =
    [instr_nop, instr_finish,
     instr_push, instr_print, instr_load, instr_store,
     instr_add, instr_sub, instr_mul, instr_div, instr_mod,
     instr_jmp, instr_jeq, instr_jne, instr_jl, instr_jle, instr_jg, instr_jge,
     instr_call, instr_ret, instr_prolog, instr_epilog,
     instr_argload]"

definition maximum_opcode :: u32 where
  "maximum_opcode = 0x16"

text \<open>From one dispatch to the next.\<close>

definition jmp_through_table :: "asm_env \<Rightarrow> machine \<Rightarrow> machine asm" where
  "jmp_through_table e s =
     (let opc = extr_next_instr s
      in if opc > maximum_opcode then Error ERR_INV_OPCODE s else (instr_table ! unat opc) e s)"

definition cycle_prologue :: "asm_env \<Rightarrow> machine \<Rightarrow> machine asm" where
  "cycle_prologue e s =
     (let s0 = s\<lparr>instr_cnt := 0, cur_instr_ptr := instr_ptr s, cur_stack_ptr := stack_ptr s,
                 cur_call_ptr := call_ptr s\<rparr>
      in abind (fetch_instr_line e s0) (\<lambda>s1.
         abind (fetch_stack_line e s1) (\<lambda>s2.
           force_call_line_fetch e (align_ptr (cur_call_ptr s2)) s2)))"

definition bispe_cycle_outro :: "asm_env \<Rightarrow> machine \<Rightarrow> machine asm" where
  "bispe_cycle_outro e s =
     abind (save_stack_line e s) (\<lambda>s1.
     abind (save_call_line e s1) (\<lambda>s2.
       Go (s2\<lparr>instr_ptr := cur_instr_ptr s2, stack_ptr := cur_stack_ptr s2, call_ptr := cur_call_ptr s2\<rparr>)))"

definition set_error :: "u8 \<Rightarrow> machine \<Rightarrow> machine" where
  "set_error code s = s\<lparr>error_code := code, halt_flag := True\<rparr>"

text \<open>How the cycle returns to C: an error path saves nothing.\<close>

definition finish_cycle :: "asm_env \<Rightarrow> machine asm \<Rightarrow> machine outcome" where
  "finish_cycle e r =
     (case r of
        Go s \<Rightarrow> No_Fuel
      | Error c s \<Rightarrow> Ret (set_error c s)
      | Fault \<Rightarrow> Segfault
      | Outro s \<Rightarrow>
          (case bispe_cycle_outro e s of Go s1 \<Rightarrow> Ret s1 | _ \<Rightarrow> Segfault))"

text \<open>At most \<open>n\<close> instructions.\<close>

fun run_instrs :: "asm_env \<Rightarrow> nat \<Rightarrow> machine \<Rightarrow> machine asm" where
  "run_instrs e 0 s = Go s"
| "run_instrs e (Suc n) s = abind (jmp_through_table e s) (run_instrs e n)"

definition bispe_cycle_entry :: "asm_env \<Rightarrow> machine \<Rightarrow> machine outcome" where
  "bispe_cycle_entry e s =
     finish_cycle e (abind (cycle_prologue e s) (run_instrs e (instr_per_cycle e)))"

section \<open>start_interpreter\<close>

definition bispe_reset_flags :: "machine \<Rightarrow> machine" where
  "bispe_reset_flags s = s\<lparr>halt_flag := False, error_code := 0\<rparr>"

definition reset_pointers :: "machine \<Rightarrow> machine" where
  "reset_pointers s = s\<lparr>instr_ptr := 0, stack_ptr := 0, call_ptr := 0, print_ptr := 0\<rparr>"

text \<open>
  The loop: \<open>stop k\<close> is what the k-th call of \<open>kthread_should_stop\<close> returns. The result is
  the number of the next such call and the state.
\<close>

fun cycle_loop :: "asm_env \<Rightarrow> bool \<Rightarrow> (nat \<Rightarrow> bool) \<Rightarrow> nat \<Rightarrow> nat \<Rightarrow> machine \<Rightarrow> (nat \<times> machine) outcome" where
  "cycle_loop e threaded stop k 0 s = No_Fuel"
| "cycle_loop e threaded stop k (Suc fuel) s =
     (if threaded \<and> stop k then Ret (k + 1, s)
      else obind (bispe_cycle_entry e s) (\<lambda>s1.
        if halt_flag s1 then Ret (k + 1, s1) else cycle_loop e threaded stop (k + 1) fuel s1))"

text \<open>\<open>fuel\<close> bounds the number of cycles. The int is the return value.\<close>

definition start_interpreter ::
  "asm_env \<Rightarrow> bool \<Rightarrow> (nat \<Rightarrow> bool) \<Rightarrow> nat \<Rightarrow> machine \<Rightarrow> (int \<times> machine) outcome" where
  "start_interpreter e threaded stop fuel s =
     obind (cycle_loop e threaded stop 0 fuel (bispe_reset_flags (reset_pointers s))) (\<lambda>(k, s1).
       Ret (if threaded \<and> stop k then -1 else if halt_flag s1 then uint (error_code s1) else 0, s1))"

text \<open>\<open>bispe_get_print_count\<close>: the number of dwords before the print pointer.\<close>

definition bispe_get_print_count :: "machine \<Rightarrow> int" where
  "bispe_get_print_count s = print_ptr s"

end
