(* ===== verification/Vm.thy ===== *)
theory Vm
  imports Machine
begin

text \<open>
  The abstract stack machine that the interpreter core promises: plain word lists instead of
  encrypted segments with cached lines, no cycles. The refinement is in Vm_Refinement.
  Every operand and call stack slot up to the top is an element of its list (slot 0 exists
  from the start). Memory that a stack grows over without writing it is an argument,
  \<open>junk\<close>: the code leaves its content open.
\<close>

section \<open>State\<close>

record vm_env =
  ve_code :: "u32 list"
  ve_stack_cap :: nat
  ve_call_cap :: nat
  ve_args :: "u32 list"

record vm =
  vm_pc :: nat
  vm_stack :: "u32 list"
  vm_call :: "u32 list"
  vm_print :: "u32 list"
  vm_print_pos :: nat

text \<open>\<open>Wild\<close>: the program counter has run past the code segment.\<close>

datatype 'a vres = Running 'a | Halted vm | Trap u8 vm | Wild

fun vbind :: "'a vres \<Rightarrow> ('a \<Rightarrow> 'b vres) \<Rightarrow> 'b vres" where
  "vbind (Running x) f = f x"
| "vbind (Halted a) f = Halted a"
| "vbind (Trap c a) f = Trap c a"
| "vbind Wild f = Wild"

section \<open>Operations\<close>

definition vm_word :: "vm_env \<Rightarrow> vm \<Rightarrow> u32" where
  "vm_word ve a = ve_code ve ! vm_pc a"

definition vm_next :: "vm_env \<Rightarrow> vm \<Rightarrow> vm vres" where
  "vm_next ve a =
     (if vm_pc a + 1 < length (ve_code ve) then Running (a\<lparr>vm_pc := vm_pc a + 1\<rparr>) else Wild)"

definition vm_push :: "vm_env \<Rightarrow> u32 \<Rightarrow> vm \<Rightarrow> vm vres" where
  "vm_push ve v a =
     (if length (vm_stack a) < ve_stack_cap ve then Running (a\<lparr>vm_stack := vm_stack a @ [v]\<rparr>)
      else Trap ERR_STACK_OVERFLOW a)"

definition vm_top :: "vm \<Rightarrow> u32" where
  "vm_top a = last (vm_stack a)"

definition vm_pop :: "vm \<Rightarrow> vm vres" where
  "vm_pop a =
     (if length (vm_stack a) \<le> 1 then Trap ERR_STACK_UNDERFLOW a
      else Running (a\<lparr>vm_stack := butlast (vm_stack a)\<rparr>))"

definition vm_set_top :: "u32 \<Rightarrow> vm \<Rightarrow> vm" where
  "vm_set_top v a = a\<lparr>vm_stack := butlast (vm_stack a) @ [v]\<rparr>"

text \<open>The slot \<open>disp\<close> below the top of the call stack.\<close>

definition vm_slot :: "int \<Rightarrow> vm \<Rightarrow> nat vres" where
  "vm_slot disp a =
     (if int (length (vm_call a)) \<le> disp then Trap ERR_CALL_UNDERFLOW a
      else Running (length (vm_call a) - 1 - nat disp))"

definition vm_load :: "int \<Rightarrow> vm \<Rightarrow> u32 vres" where
  "vm_load disp a = vbind (vm_slot disp a) (\<lambda>i. Running (vm_call a ! i))"

definition vm_store :: "int \<Rightarrow> u32 \<Rightarrow> vm \<Rightarrow> vm vres" where
  "vm_store disp v a = vbind (vm_slot disp a) (\<lambda>i. Running (a\<lparr>vm_call := (vm_call a)[i := v]\<rparr>))"

definition vm_grow :: "(nat \<Rightarrow> u32) \<Rightarrow> vm_env \<Rightarrow> int \<Rightarrow> vm \<Rightarrow> vm vres" where
  "vm_grow junk ve n a =
     (if int (ve_call_cap ve) < int (length (vm_call a)) + n then Trap ERR_CALL_OVERFLOW a
      else Running (a\<lparr>vm_call := vm_call a @ map junk [0..<nat n]\<rparr>))"

definition vm_shrink :: "int \<Rightarrow> vm \<Rightarrow> vm vres" where
  "vm_shrink n a =
     (if int (length (vm_call a)) \<le> n then Trap ERR_CALL_UNDERFLOW a
      else Running (a\<lparr>vm_call := take (length (vm_call a) - nat n) (vm_call a)\<rparr>))"

text \<open>The print buffer wraps to its start when it is full.\<close>

definition vm_output :: "u32 \<Rightarrow> vm \<Rightarrow> vm" where
  "vm_output v a =
     a\<lparr>vm_print := (vm_print a)[vm_print_pos a := v],
       vm_print_pos := (if vm_print_pos a + 1 < length (vm_print a) then vm_print_pos a + 1 else 0)\<rparr>"

definition vm_target :: "vm_env \<Rightarrow> u32 \<Rightarrow> vm \<Rightarrow> nat vres" where
  "vm_target ve t a =
     (if int (length (ve_code ve)) \<le> uint t then Trap ERR_JMP_BOUNDS a else Running (nat (uint t)))"

definition vm_jump :: "vm_env \<Rightarrow> u32 \<Rightarrow> vm \<Rightarrow> vm vres" where
  "vm_jump ve t a = vbind (vm_target ve t a) (\<lambda>p. Running (a\<lparr>vm_pc := p\<rparr>))"

section \<open>Instructions\<close>

definition vm_arith :: "(u32 \<Rightarrow> u32 \<Rightarrow> u32) \<Rightarrow> vm_env \<Rightarrow> vm \<Rightarrow> vm vres" where
  "vm_arith f ve a =
     vbind (vm_pop a) (\<lambda>a1. vm_next ve (vm_set_top (f (vm_top a1) (vm_top a)) a1))"

definition vm_divmod :: "(u32 \<Rightarrow> u32 \<Rightarrow> u32) \<Rightarrow> vm_env \<Rightarrow> vm \<Rightarrow> vm vres" where
  "vm_divmod f ve a =
     vbind (vm_pop a) (\<lambda>a1.
       if vm_top a = 0 then Trap ERR_DIV_ZERO a1
       else vm_next ve (vm_set_top (f (vm_top a1) (vm_top a)) a1))"

definition vm_jmp :: "vm_env \<Rightarrow> vm \<Rightarrow> vm vres" where
  "vm_jmp ve a = vbind (vm_next ve a) (\<lambda>a1. vm_jump ve (vm_word ve a1) a1)"

definition vm_jcc :: "(u32 \<Rightarrow> u32 \<Rightarrow> bool) \<Rightarrow> vm_env \<Rightarrow> vm \<Rightarrow> vm vres" where
  "vm_jcc c ve a =
     vbind (vm_pop a) (\<lambda>a1. vbind (vm_pop a1) (\<lambda>a2.
       if c (vm_top a1) (vm_top a) then vm_jmp ve a2
       else vbind (vm_next ve a2) (vm_next ve)))"

text \<open>An instruction whose immediate word is passed to \<open>f\<close>, with the program counter on it.\<close>

definition vm_imm :: "vm_env \<Rightarrow> (u32 \<Rightarrow> vm \<Rightarrow> 'a vres) \<Rightarrow> vm \<Rightarrow> 'a vres" where
  "vm_imm ve f a = vbind (vm_next ve a) (\<lambda>a1. f (vm_word ve a1) a1)"

fun vm_exec :: "(nat \<Rightarrow> u32) \<Rightarrow> vm_env \<Rightarrow> instr_type \<Rightarrow> vm \<Rightarrow> vm vres" where
  "vm_exec junk ve INSTR_NOP a = vm_next ve a"
| "vm_exec junk ve INSTR_FINISH a = Halted a"
| "vm_exec junk ve INSTR_PUSH a =
     vm_imm ve (\<lambda>v a1. vbind (vm_push ve v a1) (vm_next ve)) a"
| "vm_exec junk ve INSTR_PRINT a =
     vbind (vm_pop a) (\<lambda>a1. vm_next ve (vm_output (vm_top a) a1))"
| "vm_exec junk ve INSTR_LOAD a =
     vm_imm ve (\<lambda>d a1. vbind (vm_load (displacement d) a1) (\<lambda>v. vbind (vm_push ve v a1) (vm_next ve))) a"
| "vm_exec junk ve INSTR_STORE a =
     vm_imm ve (\<lambda>d a1. vbind (vm_pop a1) (\<lambda>a2.
       vbind (vm_store (displacement d) (vm_top a1) a2) (vm_next ve))) a"
| "vm_exec junk ve INSTR_ADD a = vm_arith (\<lambda>x y. x + y) ve a"
| "vm_exec junk ve INSTR_SUB a = vm_arith (\<lambda>x y. x - y) ve a"
| "vm_exec junk ve INSTR_MUL a = vm_arith (\<lambda>x y. x * y) ve a"
| "vm_exec junk ve INSTR_DIV a = vm_divmod (\<lambda>x y. x div y) ve a"
| "vm_exec junk ve INSTR_MOD a = vm_divmod (\<lambda>x y. x mod y) ve a"
| "vm_exec junk ve INSTR_JMP a = vm_jmp ve a"
| "vm_exec junk ve INSTR_JEQ a = vm_jcc (\<lambda>x y. x = y) ve a"
| "vm_exec junk ve INSTR_JNE a = vm_jcc (\<lambda>x y. x \<noteq> y) ve a"
| "vm_exec junk ve INSTR_JL a = vm_jcc (\<lambda>x y. sint x < sint y) ve a"
| "vm_exec junk ve INSTR_JLE a = vm_jcc (\<lambda>x y. sint x \<le> sint y) ve a"
| "vm_exec junk ve INSTR_JG a = vm_jcc (\<lambda>x y. sint x > sint y) ve a"
| "vm_exec junk ve INSTR_JGE a = vm_jcc (\<lambda>x y. sint x \<ge> sint y) ve a"
| "vm_exec junk ve INSTR_CALL a =
     vm_imm ve (\<lambda>t a1. vbind (vm_target ve t a1) (\<lambda>p.
       vbind (vm_grow junk ve 1 a1) (\<lambda>a2.
       vbind (vm_store 0 (of_nat (vm_pc a1 + 1)) a2) (\<lambda>a3. Running (a3\<lparr>vm_pc := p\<rparr>))))) a"
| "vm_exec junk ve INSTR_RET a =
     vbind (vm_load 0 a) (\<lambda>t. vbind (vm_target ve t a) (\<lambda>p.
       vbind (vm_shrink 1 a) (\<lambda>a1. Running (a1\<lparr>vm_pc := p\<rparr>))))"
| "vm_exec junk ve INSTR_PROLOG a =
     vm_imm ve (\<lambda>n a1. vbind (vm_grow junk ve (displacement n) a1) (vm_next ve)) a"
| "vm_exec junk ve INSTR_EPILOG a =
     vm_imm ve (\<lambda>n a1. vbind (vm_shrink (displacement n) a1) (vm_next ve)) a"
| "vm_exec junk ve INSTR_ARGLOAD a =
     vm_imm ve (\<lambda>i a1.
       if int (length (ve_args ve)) \<le> uint i then Trap ERR_ARG_RANGE a1
       else vbind (vm_store (displacement i) (ve_args ve ! unat i) a1) (vm_next ve)) a"

text \<open>The instruction of an opcode word.\<close>

definition all_instrs :: "instr_type list" where
  "all_instrs =
    [INSTR_NOP, INSTR_FINISH, INSTR_PUSH, INSTR_PRINT, INSTR_LOAD, INSTR_STORE,
     INSTR_ADD, INSTR_SUB, INSTR_MUL, INSTR_DIV, INSTR_MOD,
     INSTR_JMP, INSTR_JEQ, INSTR_JNE, INSTR_JL, INSTR_JLE, INSTR_JG, INSTR_JGE,
     INSTR_CALL, INSTR_RET, INSTR_PROLOG, INSTR_EPILOG, INSTR_ARGLOAD]"

definition decode :: "u32 \<Rightarrow> instr_type option" where
  "decode w = (if w > maximum_opcode then None else Some (all_instrs ! unat w))"

definition vm_step :: "(nat \<Rightarrow> u32) \<Rightarrow> vm_env \<Rightarrow> vm \<Rightarrow> vm vres" where
  "vm_step junk ve a =
     (case decode (vm_word ve a) of
        None \<Rightarrow> Trap ERR_INV_OPCODE a
      | Some i \<Rightarrow> vm_exec junk ve i a)"

text \<open>At most \<open>n\<close> steps; \<open>junk k\<close> is what the k-th step finds above the call stack.\<close>

fun vm_run :: "(nat \<Rightarrow> nat \<Rightarrow> u32) \<Rightarrow> vm_env \<Rightarrow> nat \<Rightarrow> vm \<Rightarrow> vm vres" where
  "vm_run junk ve 0 a = Running a"
| "vm_run junk ve (Suc n) a = vbind (vm_step (junk 0) ve a) (vm_run (\<lambda>k. junk (k + 1)) ve n)"

section \<open>Decoding\<close>

lemma all_instrs_index: "all_instrs ! instr_index i = i"
  by (cases i) (simp_all add: all_instrs_def)

lemma decode_opcode: "decode (opcode i) = Some i"
proof -
  have "unat (opcode i) = instr_index i"
    unfolding opcode_index using instr_index_less [of i]
    by (simp add: unat_of_nat take_bit_nat_eq_self)
  moreover have "opcode i \<le> maximum_opcode"
    by (cases i) (simp_all add: info_of_def instr_info_table_def maximum_opcode_def)
  ultimately show ?thesis by (simp add: decode_def all_instrs_index leD)
qed

end
