(* ===== verification/Lexer.thy ===== *)
theory Lexer
  imports Bispe_Prelude
begin

text \<open>
  compiler/lexer.c and compiler/include/lexer.h: the tokens, the two scanners for int
  literals and identifiers, the keyword table and \<open>tokenize_string\<close>. A position in the
  string is the suffix that starts there; \<open>malloc\<close> and \<open>strndup\<close> succeed.
  The second half gives the token invariant, maximal munch, the round trip through the
  concrete syntax of a token list, and the independence of white space and comments.
\<close>

section \<open>Tokens\<close>

datatype token_type =
    TOK_EOF | TOK_IDENTIFIER | TOK_INTLITERAL
  | TOK_VOID | TOK_INT | TOK_IF | TOK_ELSE | TOK_WHILE | TOK_FOR | TOK_DO | TOK_RETURN | TOK_PRINT
  | TOK_OPENPA | TOK_CLOSEPA | TOK_OPENBR | TOK_CLOSEBR | TOK_COMMA | TOK_SEMICL
  | TOK_EQ | TOK_EQEQ | TOK_NEQ | TOK_GT | TOK_LT | TOK_GE | TOK_LE
  | TOK_PLUS | TOK_MINUS | TOK_STAR | TOK_SLASH | TOK_PERCENT

text \<open>\<open>token_t\<close>; the \<open>next\<close> pointer is the list the tokens stand in, a NULL \<open>val\<close> is None.\<close>

record token =
  tok_type :: token_type
  tok_val :: "string option"

abbreviation mk_token :: "token_type \<Rightarrow> string option \<Rightarrow> token" where
  "mk_token t v \<equiv> \<lparr>tok_type = t, tok_val = v\<rparr>"

definition keyword_table :: "(string \<times> token_type) list" where
  "keyword_table =
    [(''void'', TOK_VOID), (''int'', TOK_INT), (''if'', TOK_IF), (''else'', TOK_ELSE),
     (''while'', TOK_WHILE), (''for'', TOK_FOR), (''do'', TOK_DO), (''return'', TOK_RETURN),
     (''print'', TOK_PRINT)]"

text \<open>The lexer's diagnostics, each with the offending character and the line.\<close>

datatype lex_error =
    Illegal_Char char nat
  | Illegal_Int_Char char nat
  | Illegal_Octal_Char char nat

section \<open>Character classes\<close>

definition is_letter :: "char \<Rightarrow> bool" where
  "is_letter ch \<longleftrightarrow> (CHR ''A'' \<le> ch \<and> ch \<le> CHR ''Z'') \<or> (CHR ''a'' \<le> ch \<and> ch \<le> CHR ''z'') \<or> ch = CHR ''_''"

definition is_digit :: "char \<Rightarrow> bool" where
  "is_digit ch \<longleftrightarrow> CHR ''0'' \<le> ch \<and> ch \<le> CHR ''9''"

definition is_hex_letter :: "char \<Rightarrow> bool" where
  "is_hex_letter ch \<longleftrightarrow> (CHR ''A'' \<le> ch \<and> ch \<le> CHR ''F'') \<or> (CHR ''a'' \<le> ch \<and> ch \<le> CHR ''f'')"

section \<open>Scanners\<close>

text \<open>
  The loop of \<open>scan_intliteral\<close> after its prefix: the digits it consumed and the rest.
\<close>

fun scan_int_loop :: "bool \<Rightarrow> bool \<Rightarrow> nat \<Rightarrow> string \<Rightarrow> lex_error + (string \<times> string)" where
  "scan_int_loop is_hex is_oct line [] = Inr ([], [])"
| "scan_int_loop is_hex is_oct line (ch # cs) =
    (if is_oct \<and> (ch = CHR ''8'' \<or> ch = CHR ''9'') then Inl (Illegal_Octal_Char ch line)
     else if is_digit ch \<or> (is_hex \<and> is_hex_letter ch) then
       (case scan_int_loop is_hex is_oct line cs of
          Inl e \<Rightarrow> Inl e
        | Inr (ds, rest) \<Rightarrow> Inr (ch # ds, rest))
     else if is_letter ch then Inl (Illegal_Int_Char ch line)
     else Inr ([], ch # cs))"

definition scan_intliteral :: "string \<Rightarrow> nat \<Rightarrow> lex_error + (string \<times> string)" where
  "scan_intliteral s line =
    (let is_hex = char_at s 0 = CHR ''0'' \<and> char_at s 1 = CHR ''x'';
         is_oct = char_at s 0 = CHR ''0'' \<and> char_at s 1 \<noteq> CHR ''x'' \<and> char_at s 1 \<noteq> CHR 0x00;
         n = (if is_hex then 2 else if is_oct then 1 else 0)
     in case scan_int_loop is_hex is_oct line (drop n s) of
          Inl e \<Rightarrow> Inl e
        | Inr (ds, rest) \<Rightarrow> Inr (take n s @ ds, rest))"

definition check_ident_type :: "string \<Rightarrow> token_type" where
  "check_ident_type v =
    (case map_of keyword_table v of None \<Rightarrow> TOK_IDENTIFIER | Some t \<Rightarrow> t)"

fun scan_ident :: "string \<Rightarrow> string \<times> string" where
  "scan_ident [] = ([], [])"
| "scan_ident (ch # cs) =
    (if is_letter ch \<or> is_digit ch
     then (let (v, rest) = scan_ident cs in (ch # v, rest))
     else ([], ch # cs))"

lemma scan_ident_length: "length (snd (scan_ident s)) \<le> length s"
  by (induction s) (auto simp: case_prod_beta)

lemma scan_int_loop_split: "scan_int_loop h oc line s = Inr (ds, rest) \<Longrightarrow> s = ds @ rest"
  by (induction s arbitrary: ds) (auto split: if_splits sum.splits)

lemma scan_intliteral_split: "scan_intliteral s line = Inr (v, rest) \<Longrightarrow> s = v @ rest"
  by (auto simp: scan_intliteral_def Let_def split: sum.splits if_splits
      dest!: scan_int_loop_split) (metis append_assoc append_take_drop_id)+

section \<open>The token loop\<close>

definition cons_token :: "token \<Rightarrow> lex_error + token list \<Rightarrow> lex_error + token list" where
  "cons_token t r = (case r of Inl e \<Rightarrow> Inl e | Inr ts \<Rightarrow> Inr (t # ts))"

text \<open>
  The single-character cases of the \<open>switch\<close>: brackets, separators and the numeric
  operators other than \<open>'/'\<close>.
\<close>

definition single_token :: "char \<Rightarrow> token_type option" where
  "single_token ch =
    (if ch = CHR ''('' then Some TOK_OPENPA
     else if ch = CHR '')'' then Some TOK_CLOSEPA
     else if ch = CHR ''{'' then Some TOK_OPENBR
     else if ch = CHR ''}'' then Some TOK_CLOSEBR
     else if ch = CHR '','' then Some TOK_COMMA
     else if ch = CHR '';'' then Some TOK_SEMICL
     else if ch = CHR ''+'' then Some TOK_PLUS
     else if ch = CHR ''-'' then Some TOK_MINUS
     else if ch = CHR ''*'' then Some TOK_STAR
     else if ch = CHR ''%'' then Some TOK_PERCENT
     else None)"

text \<open>The cases that look at the next character for \<open>'='\<close>: with it, without it.\<close>

definition eq_token :: "char \<Rightarrow> (token_type \<times> token_type option) option" where
  "eq_token ch =
    (if ch = CHR ''='' then Some (TOK_EQEQ, Some TOK_EQ)
     else if ch = CHR ''!'' then Some (TOK_NEQ, None)
     else if ch = CHR ''<'' then Some (TOK_LE, Some TOK_LT)
     else if ch = CHR ''>'' then Some (TOK_GE, Some TOK_GT)
     else None)"

function (sequential) lex_loop :: "string \<Rightarrow> nat \<Rightarrow> lex_error + token list" where
  "lex_loop [] line = Inr [mk_token TOK_EOF None]"
| "lex_loop (ch # cs) line =
    (if ch = CHR 0x0A then lex_loop cs (line + 1)
     else if ch = CHR '' '' \<or> ch = CHR 0x09 \<or> ch = CHR 0x0D then lex_loop cs line
     else if is_letter ch then
       (case scan_ident (ch # cs) of
          (v, rest) \<Rightarrow> cons_token (mk_token (check_ident_type v) (Some v)) (lex_loop rest line))
     else if is_digit ch then
       (case scan_intliteral (ch # cs) line of
          Inl e \<Rightarrow> Inl e
        | Inr (v, rest) \<Rightarrow> cons_token (mk_token TOK_INTLITERAL (Some v)) (lex_loop rest line))
     else
       (case single_token ch of
          Some t \<Rightarrow> cons_token (mk_token t None) (lex_loop cs line)
        | None \<Rightarrow>
          (case eq_token ch of
             Some (t_eq, t_alone) \<Rightarrow>
               (if char_at cs 0 = CHR ''='' then cons_token (mk_token t_eq None) (lex_loop (tl cs) line)
                else (case t_alone of
                        Some t \<Rightarrow> cons_token (mk_token t None) (lex_loop cs line)
                      | None \<Rightarrow> Inl (Illegal_Char ch line)))
           | None \<Rightarrow>
             (if ch = CHR ''/'' then
                (if char_at cs 0 = CHR ''/''
                 then lex_loop (dropWhile (\<lambda>c. c \<noteq> CHR 0x0A) cs) line
                 else cons_token (mk_token TOK_SLASH None) (lex_loop cs line))
              else Inl (Illegal_Char ch line)))))"
  by pat_completeness auto

lemma is_letter_not_digit: "is_letter ch \<Longrightarrow> \<not> is_digit ch"
  by (cases ch) (auto simp: is_letter_def is_digit_def)

lemma scan_ident_shrinks:
  assumes "is_letter ch" and "(v, rest) = scan_ident (ch # cs)"
  shows "length rest < Suc (length cs)"
proof -
  have "rest = snd (scan_ident cs)" using assms by (simp add: case_prod_beta)
  then show ?thesis using scan_ident_length [of cs] by simp
qed

lemma scan_intliteral_shrinks:
  assumes "is_digit ch" and s: "scan_intliteral (ch # cs) line = Inr (v, rest)"
  shows "length rest < Suc (length cs)"
proof -
  from s have "ch # cs = v @ rest" by (rule scan_intliteral_split)
  moreover have "v \<noteq> []"
    using s assms(1)
    by (auto simp: scan_intliteral_def Let_def split: sum.splits if_splits)
  ultimately show ?thesis by (cases v) auto
qed

lemma dropWhile_shrinks: "length (dropWhile P cs) < Suc (length cs)"
  using dropWhile_length_le [of P cs] by simp

termination lex_loop
  by (relation "measure (\<lambda>(s, line). length s)")
    (auto simp: dropWhile_shrinks dest: scan_ident_shrinks scan_intliteral_shrinks
      simp del: scan_ident.simps)

definition tokenize_string :: "string \<Rightarrow> lex_error + token list" where
  "tokenize_string str = lex_loop (c_string str) 1"

section \<open>What the scanners consume\<close>

abbreviation ident_char :: "char \<Rightarrow> bool" where
  "ident_char c \<equiv> is_letter c \<or> is_digit c"

lemma scan_ident_munch:
  "scan_ident s = (takeWhile ident_char s, dropWhile ident_char s)"
  by (induction s) auto

lemma is_letter_sep [simp]:
  "\<not> is_letter CHR 0x0A" "\<not> is_letter CHR '' ''" "\<not> is_letter CHR 0x09" "\<not> is_letter CHR 0x0D"
  "\<not> is_letter CHR 0x00"
  by (simp_all add: is_letter_def)

lemma is_digit_sep [simp]:
  "\<not> is_digit CHR 0x0A" "\<not> is_digit CHR '' ''" "\<not> is_digit CHR 0x09" "\<not> is_digit CHR 0x0D"
  "\<not> is_digit CHR 0x00"
  by (simp_all add: is_digit_def)

lemma is_digit_not_letter: "is_digit ch \<Longrightarrow> \<not> is_letter ch"
  using is_letter_not_digit by blast

lemma is_hex_letter_letter: "is_hex_letter ch \<Longrightarrow> is_letter ch"
  by (cases ch) (auto simp: is_letter_def is_hex_letter_def)

text \<open>The digits the loop accepts under its two flags.\<close>

definition int_char :: "bool \<Rightarrow> bool \<Rightarrow> char \<Rightarrow> bool" where
  "int_char is_hex is_oct ch \<longleftrightarrow>
     \<not> (is_oct \<and> (ch = CHR ''8'' \<or> ch = CHR ''9'')) \<and> (is_digit ch \<or> (is_hex \<and> is_hex_letter ch))"

lemma int_char_ident_char: "int_char h oc ch \<Longrightarrow> ident_char ch"
  by (auto simp: int_char_def dest: is_hex_letter_letter)

lemma is_digit_8_9 [simp]: "is_digit CHR ''8''" "is_digit CHR ''9''" "is_digit CHR ''0''"
  by (simp_all add: is_digit_def)

lemma scan_int_loop_Cons:
  "scan_int_loop h oc line (c # cs) =
     (if int_char h oc c then
        (case scan_int_loop h oc line cs of Inl e \<Rightarrow> Inl e | Inr (ds, rest) \<Rightarrow> Inr (c # ds, rest))
      else if ident_char c then
        Inl (if is_digit c then Illegal_Octal_Char c line else Illegal_Int_Char c line)
      else Inr ([], c # cs))"
  by (auto simp: int_char_def dest: is_hex_letter_letter is_digit_not_letter)

lemma scan_int_loop_munch:
  "scan_int_loop h oc line s =
     (let rest = dropWhile (int_char h oc) s in
      if rest \<noteq> [] \<and> ident_char (hd rest)
      then Inl (if is_digit (hd rest) then Illegal_Octal_Char (hd rest) line
                else Illegal_Int_Char (hd rest) line)
      else Inr (takeWhile (int_char h oc) s, rest))"
proof (induction s)
  case (Cons c s)
  then show ?case
    by (simp add: scan_int_loop_Cons Let_def del: scan_int_loop.simps)
qed simp

section \<open>Well-formed tokens and their spelling\<close>

definition ident_lexeme :: "string \<Rightarrow> bool" where
  "ident_lexeme v \<longleftrightarrow> v \<noteq> [] \<and> is_letter (hd v) \<and> list_all ident_char v"

text \<open>Hexadecimal (possibly with no digit after the prefix), octal, and decimal literals.\<close>

definition int_lexeme :: "string \<Rightarrow> bool" where
  "int_lexeme v \<longleftrightarrow>
     (v \<noteq> [] \<and> is_digit (hd v)) \<and>
     (if hd v = CHR ''0'' then
        (if char_at v 1 = CHR ''x'' then list_all (int_char True False) (drop 2 v)
         else list_all (int_char False True) (drop 1 v))
      else list_all (int_char False False) v)"

fun symbol_text :: "token_type \<Rightarrow> string option" where
  "symbol_text TOK_OPENPA = Some ''(''"
| "symbol_text TOK_CLOSEPA = Some '')''"
| "symbol_text TOK_OPENBR = Some ''{''"
| "symbol_text TOK_CLOSEBR = Some ''}''"
| "symbol_text TOK_COMMA = Some '',''"
| "symbol_text TOK_SEMICL = Some '';''"
| "symbol_text TOK_EQ = Some ''=''"
| "symbol_text TOK_EQEQ = Some ''==''"
| "symbol_text TOK_NEQ = Some ''!=''"
| "symbol_text TOK_GT = Some ''>''"
| "symbol_text TOK_LT = Some ''<''"
| "symbol_text TOK_GE = Some ''>=''"
| "symbol_text TOK_LE = Some ''<=''"
| "symbol_text TOK_PLUS = Some ''+''"
| "symbol_text TOK_MINUS = Some ''-''"
| "symbol_text TOK_STAR = Some ''*''"
| "symbol_text TOK_SLASH = Some ''/''"
| "symbol_text TOK_PERCENT = Some ''%''"
| "symbol_text _ = None"

text \<open>
  The tokens the lexer makes, the end marker apart: a symbol has no \<open>val\<close>, a word or a
  literal has its text.
\<close>

definition token_ok :: "token \<Rightarrow> bool" where
  "token_ok t \<longleftrightarrow>
     (case tok_val t of
        None \<Rightarrow> symbol_text (tok_type t) \<noteq> None
      | Some v \<Rightarrow>
          (ident_lexeme v \<and> tok_type t = check_ident_type v) \<or>
          (int_lexeme v \<and> tok_type t = TOK_INTLITERAL))"

definition token_text :: "token \<Rightarrow> string" where
  "token_text t =
     (case tok_val t of Some v \<Rightarrow> v | None \<Rightarrow> (case symbol_text (tok_type t) of Some s \<Rightarrow> s | None \<Rightarrow> []))"

definition unparse :: "token list \<Rightarrow> string" where
  "unparse ts = concat (map (\<lambda>t. token_text t @ '' '') ts)"

definition eof_token :: token where
  "eof_token = mk_token TOK_EOF None"

section \<open>The loop, token by token\<close>

lemma lex_loop_letter:
  assumes "is_letter ch"
  shows "lex_loop (ch # cs) line =
     (let v = takeWhile ident_char (ch # cs); rest = dropWhile ident_char (ch # cs)
      in cons_token (mk_token (check_ident_type v) (Some v)) (lex_loop rest line))"
proof -
  have "ch \<noteq> CHR 0x0A" "ch \<noteq> CHR '' ''" "ch \<noteq> CHR 0x09" "ch \<noteq> CHR 0x0D"
    using assms by auto
  then show ?thesis
    using assms by (simp add: scan_ident_munch Let_def del: scan_ident.simps)
qed

lemma lex_loop_digit:
  assumes "is_digit ch"
  shows "lex_loop (ch # cs) line =
     (case scan_intliteral (ch # cs) line of
        Inl e \<Rightarrow> Inl e
      | Inr (v, rest) \<Rightarrow> cons_token (mk_token TOK_INTLITERAL (Some v)) (lex_loop rest line))"
proof -
  have "ch \<noteq> CHR 0x0A" "ch \<noteq> CHR '' ''" "ch \<noteq> CHR 0x09" "ch \<noteq> CHR 0x0D"
    using assms by auto
  then show ?thesis
    using assms is_digit_not_letter [OF assms] by simp
qed

lemma lex_loop_ident:
  assumes "ident_lexeme v" and "s = [] \<or> \<not> ident_char (hd s)"
  shows "lex_loop (v @ s) line = cons_token (mk_token (check_ident_type v) (Some v)) (lex_loop s line)"
proof -
  obtain c cs where v: "v = c # cs" and c: "is_letter c" and all: "\<forall>x \<in> set v. ident_char x"
    using assms(1) by (cases v) (auto simp: ident_lexeme_def list_all_iff)
  have tw: "takeWhile ident_char (v @ s) = v" and dw: "dropWhile ident_char (v @ s) = s"
    using all assms(2) by (cases s; simp)+
  show ?thesis
    using lex_loop_letter [OF c, of "cs @ s" line] tw dw v by (simp add: Let_def)
qed

lemma scan_int_loop_all:
  assumes "list_all (int_char h oc) ds" and "s = [] \<or> \<not> ident_char (hd s)"
  shows "scan_int_loop h oc line (ds @ s) = Inr (ds, s)"
proof -
  have "\<forall>x \<in> set ds. int_char h oc x" using assms(1) by (simp add: list_all_iff)
  moreover have "s = [] \<or> \<not> int_char h oc (hd s)"
    using assms(2) int_char_ident_char by blast
  ultimately have "takeWhile (int_char h oc) (ds @ s) = ds" "dropWhile (int_char h oc) (ds @ s) = s"
    by (cases s; simp)+
  then show ?thesis using assms(2) by (simp add: scan_int_loop_munch)
qed

lemma int_char_False_True_x: "\<not> int_char False True CHR ''x''" "\<not> int_char h oc CHR 0x00"
  by (simp_all add: int_char_def is_digit_def is_hex_letter_def)

lemma is_letter_x [simp]: "is_letter CHR ''x''"
  by (simp add: is_letter_def)

lemma scan_intliteral_lexeme:
  assumes v: "int_lexeme v" and s: "s = [] \<or> \<not> ident_char (hd s)"
  shows "scan_intliteral (v @ s) line = Inr (v, s)"
proof -
  obtain c cs where c: "v = c # cs" using v by (cases v) (auto simp: int_lexeme_def)
  consider (dec) "c \<noteq> CHR ''0''" | (hex) ds where "c = CHR ''0''" "cs = CHR ''x'' # ds"
    | (zero) "c = CHR ''0''" "cs = []"
    | (oct) d ds where "c = CHR ''0''" "cs = d # ds" "d \<noteq> CHR ''x''"
    by (metis list.exhaust)
  then show ?thesis
  proof cases
    case dec
    then have "list_all (int_char False False) v" using v c by (simp add: int_lexeme_def)
    from scan_int_loop_all [OF this s] show ?thesis
      using dec c by (simp add: scan_intliteral_def Let_def del: scan_int_loop.simps)
  next
    case hex
    then have "list_all (int_char True False) ds" using v c by (simp add: int_lexeme_def)
    from scan_int_loop_all [OF this s] show ?thesis
      using hex c by (simp add: scan_intliteral_def Let_def del: scan_int_loop.simps)
  next
    case zero
    have "char_at s 0 \<noteq> CHR ''x''" using s by (cases s) (auto simp del: is_digit_8_9)
    moreover have "scan_int_loop False False line (CHR ''0'' # s) = Inr (CHR ''0'' # [], s)"
      using scan_int_loop_all [of False False "[CHR ''0'']" s] s by (simp add: int_char_def)
    moreover have "scan_int_loop False True line s = Inr ([], s)"
      using scan_int_loop_all [of False True "[]" s] s by simp
    ultimately show ?thesis
      using zero c by (simp add: scan_intliteral_def Let_def del: scan_int_loop.simps)
  next
    case oct
    then have ds: "list_all (int_char False True) (d # ds)" using v c by (simp add: int_lexeme_def)
    then have "d \<noteq> CHR 0x00" using int_char_False_True_x by auto
    then show ?thesis
      using oct c scan_int_loop_all [OF ds s]
      by (simp add: scan_intliteral_def Let_def del: scan_int_loop.simps)
  qed
qed

lemma lex_loop_int:
  assumes v: "int_lexeme v" and s: "s = [] \<or> \<not> ident_char (hd s)"
  shows "lex_loop (v @ s) line = cons_token (mk_token TOK_INTLITERAL (Some v)) (lex_loop s line)"
proof -
  obtain c cs where c: "v = c # cs" "is_digit c"
    using v by (cases v) (auto simp: int_lexeme_def)
  show ?thesis
    using lex_loop_digit [OF c(2), of "cs @ s" line] scan_intliteral_lexeme [OF v s] c(1) by simp
qed

lemma lex_loop_symbol:
  assumes "symbol_text t = Some w"
  shows "lex_loop (w @ CHR '' '' # s) line = cons_token (mk_token t None) (lex_loop s line)"
  using assms
  by (cases t) (auto simp: is_letter_def is_digit_def single_token_def eq_token_def)

lemma lex_loop_token:
  assumes "token_ok t"
  shows "lex_loop (token_text t @ CHR '' '' # s) line = cons_token t (lex_loop s line)"
proof (cases "tok_val t")
  case None
  then have t: "mk_token (tok_type t) None = t" by (cases t) simp
  obtain w where w: "symbol_text (tok_type t) = Some w"
    using assms None by (auto simp: token_ok_def)
  then show ?thesis
    using lex_loop_symbol [OF w, of s line] None unfolding t by (simp add: token_text_def)
next
  case (Some v)
  then have t: "mk_token (tok_type t) (Some v) = t" by (cases t) simp
  have sp: "lex_loop (CHR '' '' # s) line = lex_loop s line" by simp
  have sep: "CHR '' '' # s = [] \<or> \<not> ident_char (hd (CHR '' '' # s))" by simp
  consider "ident_lexeme v" "tok_type t = check_ident_type v"
    | "int_lexeme v" "tok_type t = TOK_INTLITERAL"
    using assms Some by (auto simp: token_ok_def)
  then show ?thesis
  proof cases
    case 1
    then show ?thesis
      using lex_loop_ident [OF 1(1) sep, of line] Some unfolding sp 1(2) [symmetric] t by (simp add: token_text_def)
  next
    case 2
    then show ?thesis
      using lex_loop_int [OF 2(1) sep, of line] Some unfolding sp 2(2) [symmetric] t by (simp add: token_text_def)
  qed
qed

lemma lex_loop_unparse: "list_all token_ok ts \<Longrightarrow> lex_loop (unparse ts) line = Inr (ts @ [eof_token])"
proof (induction ts)
  case (Cons t ts)
  then show ?case
    using lex_loop_token [of t "unparse ts" line] by (simp add: unparse_def cons_token_def)
qed (simp add: unparse_def eof_token_def)


lemma symbol_text_no_nul: "symbol_text t = Some w \<Longrightarrow> CHR 0x00 \<notin> set w"
  by (cases t) auto

lemma ident_char_no_nul: "list_all ident_char v \<Longrightarrow> CHR 0x00 \<notin> set v"
  by (auto simp: list_all_iff)

lemma int_lexeme_ident_chars: "int_lexeme v \<Longrightarrow> list_all ident_char v"
proof -
  assume v: "int_lexeme v"
  obtain c cs where c: "v = c # cs" "is_digit c" using v by (cases v) (auto simp: int_lexeme_def)
  have "list_all ident_char cs"
  proof (cases cs)
    case (Cons d ds)
    then show ?thesis
      using v c by (auto simp: int_lexeme_def list_all_iff split: if_splits dest: int_char_ident_char)
  qed simp
  then show ?thesis using c by simp
qed

lemma token_text_no_nul: "token_ok t \<Longrightarrow> CHR 0x00 \<notin> set (token_text t)"
  by (auto simp: token_ok_def token_text_def ident_lexeme_def symbol_text_no_nul
      dest: ident_char_no_nul int_lexeme_ident_chars split: option.splits)

lemma unparse_no_nul: "list_all token_ok ts \<Longrightarrow> CHR 0x00 \<notin> set (unparse ts)"
  by (auto simp: unparse_def list_all_iff token_text_no_nul)

section \<open>What the lexer returns\<close>

lemma list_all_takeWhile [simp]: "list_all P (takeWhile P xs)"
  by (induction xs) auto

lemma scan_intliteral_int_lexeme:
  assumes c: "is_digit c" and r: "scan_intliteral (c # cs) line = Inr (v, rest)"
  shows "int_lexeme v"
proof -
  consider (dec) "c \<noteq> CHR ''0''" | (hex) ds where "c = CHR ''0''" "cs = CHR ''x'' # ds"
    | (zero) "c = CHR ''0''" "char_at cs 0 = CHR 0x00"
    | (oct) "c = CHR ''0''" "char_at cs 0 \<noteq> CHR ''x''" "char_at cs 0 \<noteq> CHR 0x00"
    by (cases cs) auto
  then show ?thesis
  proof cases
    case dec
    then have v: "v = takeWhile (int_char False False) (c # cs)"
      using r by (auto simp: scan_intliteral_def scan_int_loop_munch Let_def
          simp del: scan_int_loop.simps takeWhile.simps dropWhile.simps split: if_splits)
    have "int_char False False c" using c by (simp add: int_char_def)
    then show ?thesis using v dec c by (simp add: int_lexeme_def)
  next
    case hex
    then show ?thesis
      using r c by (auto simp: scan_intliteral_def scan_int_loop_munch int_lexeme_def Let_def
          simp del: scan_int_loop.simps split: if_splits)
  next
    case zero
    then have "takeWhile (int_char False False) cs = []"
      by (cases cs) (auto simp: int_char_def)
    then show ?thesis
      using r c zero by (auto simp: scan_intliteral_def scan_int_loop_munch int_lexeme_def Let_def
          int_char_def simp del: scan_int_loop.simps split: if_splits)
  next
    case oct
    then have "v = CHR ''0'' # takeWhile (int_char False True) cs"
      using r by (auto simp: scan_intliteral_def scan_int_loop_munch Let_def
          simp del: scan_int_loop.simps split: if_splits)
    moreover have "char_at (takeWhile (int_char False True) cs) 0 \<noteq> CHR ''x''"
      using oct by (cases cs) auto
    ultimately show ?thesis
      by (auto simp: int_lexeme_def)
  qed
qed

lemma cons_token_Inr [simp]:
  "cons_token t r = Inr ts \<longleftrightarrow> (\<exists>ts'. r = Inr ts' \<and> ts = t # ts')"
  by (auto simp: cons_token_def split: sum.splits)

lemma cons_token_Inl [simp]: "cons_token t r = Inl e \<longleftrightarrow> r = Inl e"
  by (auto simp: cons_token_def split: sum.splits)

lemma single_token_ok: "single_token ch = Some t \<Longrightarrow> symbol_text t \<noteq> None"
  by (auto simp: single_token_def split: if_splits)

lemma eq_token_ok:
  "eq_token ch = Some (t, u) \<Longrightarrow> symbol_text t \<noteq> None"
  "eq_token ch = Some (t, Some u') \<Longrightarrow> symbol_text u' \<noteq> None"
  by (auto simp: eq_token_def split: if_splits)

definition lexed :: "token list \<Rightarrow> bool" where
  "lexed ts \<longleftrightarrow> (\<exists>us. ts = us @ [eof_token] \<and> list_all token_ok us)"

lemma lexed_eof: "lexed [eof_token]"
  by (simp add: lexed_def)

lemma lexed_Cons: "token_ok t \<Longrightarrow> lexed ts \<Longrightarrow> lexed (t # ts)"
  by (auto simp: lexed_def intro: exI [where x = "t # _"])

lemma lex_loop_other:
  assumes "ch \<noteq> CHR 0x0A" "\<not> (ch = CHR '' '' \<or> ch = CHR 0x09 \<or> ch = CHR 0x0D)"
    "\<not> is_letter ch" "\<not> is_digit ch"
  shows "lex_loop (ch # cs) line =
    (case single_token ch of
       Some t \<Rightarrow> cons_token (mk_token t None) (lex_loop cs line)
     | None \<Rightarrow>
       (case eq_token ch of
          Some (t, u) \<Rightarrow>
            (if char_at cs 0 = CHR ''='' then cons_token (mk_token t None) (lex_loop (tl cs) line)
             else (case u of Some t' \<Rightarrow> cons_token (mk_token t' None) (lex_loop cs line)
                   | None \<Rightarrow> Inl (Illegal_Char ch line)))
        | None \<Rightarrow>
          (if ch = CHR ''/'' then
             (if char_at cs 0 = CHR ''/'' then lex_loop (dropWhile (\<lambda>c. c \<noteq> CHR 0x0A) cs) line
              else cons_token (mk_token TOK_SLASH None) (lex_loop cs line))
           else Inl (Illegal_Char ch line))))"
  using assms by simp

text \<open>One round of the loop: it skips input, takes a well-formed token, or fails.\<close>

lemma lex_loop_step:
  assumes r: "lex_loop (ch # cs) line = Inr ts"
  obtains (skip) cs' line' where "length cs' \<le> length cs" "lex_loop cs' line' = Inr ts"
    | (take) t cs' ts' where "token_ok t" "length cs' \<le> length cs" "lex_loop cs' line = Inr ts'"
        "ts = t # ts'"
proof -
  consider (nl) "ch = CHR 0x0A" | (sep) "ch \<noteq> CHR 0x0A" "ch = CHR '' '' \<or> ch = CHR 0x09 \<or> ch = CHR 0x0D"
    | (letter) "is_letter ch" | (digit) "is_digit ch"
    | (other) "ch \<noteq> CHR 0x0A" "\<not> (ch = CHR '' '' \<or> ch = CHR 0x09 \<or> ch = CHR 0x0D)"
        "\<not> is_letter ch" "\<not> is_digit ch"
    by blast
  then show thesis
  proof cases
    case nl
    then show ?thesis using r by (intro skip [of cs "line + 1"]) simp_all
  next
    case sep
    then show ?thesis using r by (intro skip [of cs line]) simp_all
  next
    case letter
    let ?v = "takeWhile ident_char (ch # cs)" and ?r = "dropWhile ident_char (ch # cs)"
    obtain ts' where ts': "lex_loop ?r line = Inr ts'" "ts = mk_token (check_ident_type ?v) (Some ?v) # ts'"
      using r unfolding lex_loop_letter [OF letter] Let_def cons_token_Inr by blast
    have "ident_lexeme ?v"
      using letter by (auto simp: ident_lexeme_def list_all_iff dest: set_takeWhileD)
    then show ?thesis
      using ts' letter dropWhile_length_le [of ident_char cs]
      by (intro take [OF _ _ ts']) (simp_all add: token_ok_def)
  next
    case digit
    obtain v rest where v: "scan_intliteral (ch # cs) line = Inr (v, rest)"
      using r unfolding lex_loop_digit [OF digit] by (cases "scan_intliteral (ch # cs) line") auto
    obtain ts' where ts': "lex_loop rest line = Inr ts'" "ts = mk_token TOK_INTLITERAL (Some v) # ts'"
      using r unfolding lex_loop_digit [OF digit] v by auto
    show ?thesis
      using scan_intliteral_int_lexeme [OF digit v] scan_intliteral_shrinks [OF digit v]
      by (intro take [OF _ _ ts']) (simp_all add: token_ok_def)
  next
    case other
    note step = lex_loop_other [OF other, of cs line]
    consider (single) t where "single_token ch = Some t"
      | (eq) t u where "single_token ch = None" "eq_token ch = Some (t, u)"
      | (slash) "single_token ch = None" "eq_token ch = None" "ch = CHR ''/''"
      | (bad) "single_token ch = None" "eq_token ch = None" "ch \<noteq> CHR ''/''"
      by (cases "single_token ch"; cases "eq_token ch"; cases "ch = CHR ''/''") auto
    then show ?thesis
    proof cases
      case single
      then obtain ts' where "lex_loop cs line = Inr ts'" "ts = mk_token t None # ts'"
        using r unfolding step by auto
      then show ?thesis using single_token_ok [OF single] by (intro take) (auto simp: token_ok_def)
    next
      case eq
      show ?thesis
      proof (cases "char_at cs 0 = CHR ''=''")
        case True
        then obtain ts' where "lex_loop (tl cs) line = Inr ts'" "ts = mk_token t None # ts'"
          using r eq unfolding step by auto
        then show ?thesis using eq_token_ok(1) [OF eq(2)] by (intro take) (auto simp: token_ok_def)
      next
        case False
        then obtain ts' u' where "u = Some u'" "lex_loop cs line = Inr ts'" "ts = mk_token u' None # ts'"
          using r eq unfolding step by (auto split: option.splits)
        then show ?thesis using eq_token_ok(2) [of ch t u'] eq by (intro take) (auto simp: token_ok_def)
      qed
    next
      case slash
      show ?thesis
      proof (cases "char_at cs 0 = CHR ''/''")
        case True
        then have "lex_loop (dropWhile (\<lambda>c. c \<noteq> CHR 0x0A) cs) line = Inr ts"
          using r slash unfolding step by simp
        then show ?thesis by (rule skip [OF dropWhile_length_le])
      next
        case False
        then obtain ts' where "lex_loop cs line = Inr ts'" "ts = mk_token TOK_SLASH None # ts'"
          using r slash unfolding step by auto
        then show ?thesis by (intro take) (auto simp: token_ok_def)
      qed
    next
      case bad
      then show ?thesis using r unfolding step by simp
    qed
  qed
qed

lemma lex_loop_lexed: "lex_loop s line = Inr ts \<Longrightarrow> lexed ts"
proof (induction "length s" arbitrary: s line ts rule: less_induct)
  case less
  show ?case
  proof (cases s)
    case Nil
    then show ?thesis using less.prems lexed_eof by (simp add: eof_token_def)
  next
    case (Cons ch cs)
    have IH: "lexed ts'" if "length s' \<le> length cs" "lex_loop s' line' = Inr ts'" for s' line' ts'
      using less.hyps [OF _ that(2)] that(1) Cons by simp
    from less.prems Cons have "lex_loop (ch # cs) line = Inr ts" by simp
    then show ?thesis
      by (cases rule: lex_loop_step) (auto intro: lexed_Cons IH simp del: lex_loop.simps)
  qed
qed

section \<open>Where an error is reported\<close>

fun lex_error_char :: "lex_error \<Rightarrow> char" where
  "lex_error_char (Illegal_Char c l) = c"
| "lex_error_char (Illegal_Int_Char c l) = c"
| "lex_error_char (Illegal_Octal_Char c l) = c"

fun lex_error_line :: "lex_error \<Rightarrow> nat" where
  "lex_error_line (Illegal_Char c l) = l"
| "lex_error_line (Illegal_Int_Char c l) = l"
| "lex_error_line (Illegal_Octal_Char c l) = l"

abbreviation newlines :: "string \<Rightarrow> nat" where
  "newlines p \<equiv> count_list p (CHR 0x0A)"

definition error_at :: "lex_error \<Rightarrow> string \<Rightarrow> nat \<Rightarrow> bool" where
  "error_at e s line \<longleftrightarrow>
     (\<exists>p q. s = p @ lex_error_char e # q \<and> lex_error_line e = line + newlines p)"

lemma error_at_here: "lex_error_char e = c \<Longrightarrow> lex_error_line e = line \<Longrightarrow> error_at e (c # q) line"
  unfolding error_at_def by (rule exI [where x = "[]"]) simp

lemma error_at_prefix: "error_at e s (line + newlines p) \<Longrightarrow> error_at e (p @ s) line"
  unfolding error_at_def by (metis add.assoc append.assoc count_list_append)

lemma error_at_Cons: "error_at e s line \<Longrightarrow> c \<noteq> CHR 0x0A \<Longrightarrow> error_at e (c # s) line"
  using error_at_prefix [of e s line "[c]"] by simp

lemma newlines_takeWhile: "\<not> P (CHR 0x0A) \<Longrightarrow> newlines (takeWhile P s) = 0"
  by (induction s) auto

lemma error_at_dropWhile:
  "error_at e (dropWhile P s) line \<Longrightarrow> \<not> P (CHR 0x0A) \<Longrightarrow> error_at e s line"
  using error_at_prefix [of e "dropWhile P s" line "takeWhile P s"]
  by (simp add: newlines_takeWhile)

lemma int_char_newline [simp]: "\<not> int_char h oc (CHR 0x0A)"
  by (simp add: int_char_def is_hex_letter_def)

lemma scan_int_loop_error: "scan_int_loop h oc line s = Inl e \<Longrightarrow> error_at e s line"
proof -
  assume "scan_int_loop h oc line s = Inl e"
  then have "error_at e (dropWhile (int_char h oc) s) line"
    by (cases "dropWhile (int_char h oc) s")
      (auto simp: scan_int_loop_munch Let_def intro!: error_at_here split: if_splits)
  then show ?thesis by (rule error_at_dropWhile) simp
qed

lemma scan_intliteral_error: "is_digit c \<Longrightarrow> scan_intliteral (c # cs) line = Inl e \<Longrightarrow> error_at e (c # cs) line"
proof -
  assume c: "is_digit c" and r: "scan_intliteral (c # cs) line = Inl e"
  then have "c \<noteq> CHR 0x0A" by auto
  consider (hex) ds where "c = CHR ''0''" "cs = CHR ''x'' # ds"
    "scan_int_loop True False line ds = Inl e"
    | (oct) "scan_int_loop False True line cs = Inl e"
    | (dec) "scan_int_loop False False line (c # cs) = Inl e"
    using r by (cases cs) (auto simp: scan_intliteral_def Let_def
      simp del: scan_int_loop.simps split: sum.splits if_splits)
  then show ?thesis
    by cases (auto dest!: scan_int_loop_error intro!: error_at_Cons simp: \<open>c \<noteq> CHR 0x0A\<close>
      simp del: scan_int_loop.simps)
qed

lemma newlines_ident: "list_all ident_char v \<Longrightarrow> newlines v = 0"
  by (induction v) auto

lemma lex_loop_error_other:
  assumes other: "ch \<noteq> CHR 0x0A" "\<not> (ch = CHR '' '' \<or> ch = CHR 0x09 \<or> ch = CHR 0x0D)"
    "\<not> is_letter ch" "\<not> is_digit ch"
    and r: "lex_loop (ch # cs) line = Inl e"
    and IH: "\<And>s' line'. length s' \<le> length cs \<Longrightarrow> lex_loop s' line' = Inl e \<Longrightarrow> error_at e s' line'"
  shows "error_at e (ch # cs) line"
proof -
  note step = lex_loop_other [OF other, of cs line]
  have skip: "error_at e cs line" if "lex_loop (dropWhile (\<lambda>c. c \<noteq> CHR 0x0A) cs) line = Inl e"
    by (rule error_at_dropWhile [OF IH [OF dropWhile_length_le that]]) simp
  have tl: "error_at e cs line" if "lex_loop (tl cs) line = Inl e" "char_at cs 0 = CHR ''=''"
    using that IH [of "tl cs" line] by (cases cs) (auto intro: error_at_Cons simp del: lex_loop.simps)
  show ?thesis
  proof (cases "single_token ch")
    case None
    show ?thesis
    proof (cases "eq_token ch")
      case None
      then show ?thesis
        using r \<open>single_token ch = None\<close> other(1) IH [OF order_refl] skip unfolding step
        by (auto simp del: lex_loop.simps split: if_splits intro: error_at_here error_at_Cons)
    next
      case (Some p)
      then show ?thesis
        using r \<open>single_token ch = None\<close> other(1) IH [OF order_refl] tl unfolding step
        by (auto simp del: lex_loop.simps split: if_splits option.splits prod.splits
            intro: error_at_here error_at_Cons)
    qed
  next
    case (Some t)
    then show ?thesis
      using r other(1) IH [OF order_refl] unfolding step
      by (auto simp del: lex_loop.simps intro: error_at_Cons)
  qed
qed

lemma lex_loop_error: "lex_loop s line = Inl e \<Longrightarrow> error_at e s line"
proof (induction "length s" arbitrary: s line rule: less_induct)
  case less
  show ?case
  proof (cases s)
    case Nil
    then show ?thesis using less.prems by simp
  next
    case (Cons ch cs)
    have IH: "error_at e s' line'" if "length s' \<le> length cs" "lex_loop s' line' = Inl e" for s' line'
      using less.hyps [OF _ that(2)] that(1) Cons by simp
    have r: "lex_loop (ch # cs) line = Inl e" using less.prems Cons by simp
    consider (nl) "ch = CHR 0x0A" | (sep) "ch = CHR '' '' \<or> ch = CHR 0x09 \<or> ch = CHR 0x0D" "ch \<noteq> CHR 0x0A"
      | (letter) "is_letter ch" | (digit) "is_digit ch"
      | (other) "ch \<noteq> CHR 0x0A" "\<not> (ch = CHR '' '' \<or> ch = CHR 0x09 \<or> ch = CHR 0x0D)"
          "\<not> is_letter ch" "\<not> is_digit ch"
      by blast
    then have "error_at e (ch # cs) line"
    proof cases
      case nl
      then have "error_at e cs (line + 1)" using r IH by simp
      then show ?thesis using error_at_prefix [of e cs line "[ch]"] nl by simp
    next
      case sep
      then have "lex_loop cs line = Inl e" using r by auto
      then show ?thesis using sep(2) by (intro error_at_Cons IH) simp_all
    next
      case letter
      then have "lex_loop (dropWhile ident_char (ch # cs)) line = Inl e"
        using r unfolding lex_loop_letter [OF letter] by (simp add: Let_def)
      then have "error_at e (dropWhile ident_char (ch # cs)) line"
        using letter dropWhile_length_le [of ident_char cs] by (intro IH) simp_all
      then show ?thesis by (rule error_at_dropWhile) simp
    next
      case digit
      show ?thesis
      proof (cases "scan_intliteral (ch # cs) line")
        case (Inl e')
        then show ?thesis using r scan_intliteral_error [OF digit] unfolding lex_loop_digit [OF digit] by simp
      next
        case (Inr p)
        obtain v rest where p: "p = (v, rest)" by (cases p)
        note scan = Inr [unfolded p]
        have "error_at e rest line"
          using r scan scan_intliteral_shrinks [OF digit scan]
          unfolding lex_loop_digit [OF digit] by (intro IH) simp_all
        moreover have "newlines v = 0"
          using scan_intliteral_int_lexeme [OF digit scan] by (simp add: newlines_ident int_lexeme_ident_chars)
        ultimately show ?thesis
          using error_at_prefix [of e rest line v] scan_intliteral_split [OF scan] by simp
      qed
    next
      case other
      then show ?thesis using r IH by (rule lex_loop_error_other)
    qed
    then show ?thesis using Cons by simp
  qed
qed

lemma lex_loop_comment:
  "CHR 0x0A \<notin> set c \<Longrightarrow> lex_loop (''//'' @ c @ CHR 0x0A # s) line = lex_loop s (line + 1)"
proof -
  assume c: "CHR 0x0A \<notin> set c"
  have "dropWhile (\<lambda>x. x \<noteq> CHR 0x0A) (CHR ''/'' # c @ CHR 0x0A # s) = CHR 0x0A # s"
    using c by (induction c) auto
  then show ?thesis
    by (simp add: lex_loop_other is_letter_def is_digit_def single_token_def eq_token_def
        del: dropWhile.simps)
qed

section \<open>Properties\<close>

lemma tokenize_lexed_aux: "tokenize_string s = Inr ts \<Longrightarrow> lexed ts"
  unfolding tokenize_string_def by (rule lex_loop_lexed)

lemma tokenize_error_aux: "tokenize_string s = Inl e \<Longrightarrow> error_at e (c_string s) 1"
  unfolding tokenize_string_def by (rule lex_loop_error)

lemma tokenize_unparse_aux:
  assumes "list_all token_ok ts"
  shows "tokenize_string (unparse ts) = Inr (ts @ [eof_token])"
  using lex_loop_unparse [OF assms] c_string_id [OF unparse_no_nul [OF assms]]
  by (simp add: tokenize_string_def)

text \<open>C13 Every token list the lexer returns ends with exactly one end marker, and the tokens
  before it are well formed: symbols carry no text, words are classified by the keyword
  table, and literals are decimal, octal or hexadecimal digit strings.\<close>

theorem tokenize_lexed: "tokenize_string s = Inr ts \<Longrightarrow> lexed ts"
  by (rule tokenize_lexed_aux)

theorem tokenize_lexed_witness:
  "lexed [mk_token TOK_INT (Some ''int''), mk_token TOK_IDENTIFIER (Some ''a''),
          mk_token TOK_SEMICL None, mk_token TOK_EOF None]"
  by (rule tokenize_lexed [of "''int a; // x''"]) code_simp

text \<open>C12 Round trip: spelling well-formed tokens one after the other, separated by blanks,
  and tokenizing the text gives the tokens back, followed by the end marker. So the lexer
  takes the longest operator, keyword and literal at each position and loses nothing.\<close>

theorem tokenize_unparse:
  "list_all token_ok ts \<Longrightarrow> tokenize_string (unparse ts) = Inr (ts @ [eof_token])"
  by (rule tokenize_unparse_aux)

theorem tokenize_unparse_witness:
  "tokenize_string (unparse [mk_token TOK_RETURN (Some ''return''), mk_token TOK_INTLITERAL (Some ''0x1F''),
      mk_token TOK_LE None, mk_token TOK_SEMICL None])
   = Inr ([mk_token TOK_RETURN (Some ''return''), mk_token TOK_INTLITERAL (Some ''0x1F''),
      mk_token TOK_LE None, mk_token TOK_SEMICL None] @ [eof_token])"
  by (rule tokenize_unparse) code_simp

text \<open>C14 A lexer error names a character that occurs in the source text, and the line it
  reports is one more than the number of line feeds before that occurrence.\<close>

theorem tokenize_error: "tokenize_string s = Inl e \<Longrightarrow> error_at e (c_string s) 1"
  by (rule tokenize_error_aux)

theorem tokenize_error_witness:
  "error_at (Illegal_Octal_Char (CHR ''8'') 2) (c_string (''int a;'' @ [CHR 0x0A] @ ''a = 018;'')) 1"
  by (rule tokenize_error) code_simp

end
