(* ===== verification/Symbols.thy ===== *)
theory Symbols
  imports Lexer
begin

text \<open>
  compiler/symbols.c, compiler/include/symbols.h, compiler/include/types.h and the hashed
  container of compiler/include/sglib.h that symbols.c instantiates twice: a table of
  \<open>HASHTABLE_SIZE\<close> buckets, each a linked list that grows at its head.

  A pointer to a table entry is the entry's name: \<open>add_func\<close> and \<open>add_var\<close> refuse a name
  that is present and nothing removes an entry, so the name determines the entry. A write
  through such a pointer is \<open>sglib_hashed_update\<close>. \<open>malloc\<close> succeeds.
\<close>

section \<open>Types\<close>

datatype dtype = DTYPE_VOID | DTYPE_INT

record var_info =
  vi_name :: string
  vi_type :: dtype
  vi_pos :: nat

text \<open>
  \<open>fi_addr\<close> is None until the generator assigns it: \<open>add_func\<close> leaves the field of the
  fresh \<open>malloc\<close> block uninitialised.
\<close>

record func_info =
  fi_name :: string
  fi_ret_type :: dtype
  fi_prototyped :: bool
  fi_addr :: "nat option"
  fi_arg_count :: nat
  fi_var_count :: nat
  fi_max_call_size :: nat
  fi_var_table :: "var_info list list"

record symbols =
  func_table_init :: bool
  func_table :: "func_info list list"

section \<open>The hashed container\<close>

definition HASHTABLE_SIZE :: nat where
  "HASHTABLE_SIZE = 33"

text \<open>\<open>c = *str++\<close> reads a (signed) char into an int.\<close>

definition djb2_step :: "u64 \<Rightarrow> char \<Rightarrow> u64" where
  "djb2_step hash c = (push_bit 5 hash + hash) + signed (of_char c :: u8)"

definition djb2_hash :: "string \<Rightarrow> u64" where
  "djb2_hash str = foldl djb2_step 5381 str"

text \<open>\<open>var_info_hash\<close> and \<open>func_info_hash\<close> truncate to unsigned int.\<close>

definition info_hash :: "string \<Rightarrow> u32" where
  "info_hash name = ucast (djb2_hash name)"

definition hash_index :: "string \<Rightarrow> nat" where
  "hash_index name = unat (info_hash name mod of_nat HASHTABLE_SIZE)"

definition sglib_hashed_init :: "nat \<Rightarrow> 'a list list" where
  "sglib_hashed_init dim = replicate dim []"

definition sglib_hashed_add :: "('a \<Rightarrow> string) \<Rightarrow> 'a \<Rightarrow> 'a list list \<Rightarrow> 'a list list" where
  "sglib_hashed_add nm e table = (let i = hash_index (nm e) in table[i := e # table ! i])"

definition sglib_list_find_member :: "('a \<Rightarrow> string) \<Rightarrow> string \<Rightarrow> 'a list \<Rightarrow> 'a option" where
  "sglib_list_find_member nm name list = List.find (\<lambda>p. nm p = name) list"

definition sglib_hashed_find_member :: "('a \<Rightarrow> string) \<Rightarrow> string \<Rightarrow> 'a list list \<Rightarrow> 'a option" where
  "sglib_hashed_find_member nm name table = sglib_list_find_member nm name (table ! hash_index name)"

fun update_first :: "('a \<Rightarrow> bool) \<Rightarrow> ('a \<Rightarrow> 'a) \<Rightarrow> 'a list \<Rightarrow> 'a list" where
  "update_first P f [] = []"
| "update_first P f (x # xs) = (if P x then f x # xs else x # update_first P f xs)"

text \<open>A write through the pointer that \<open>find_member\<close> returned.\<close>

definition sglib_hashed_update ::
  "('a \<Rightarrow> string) \<Rightarrow> string \<Rightarrow> ('a \<Rightarrow> 'a) \<Rightarrow> 'a list list \<Rightarrow> 'a list list" where
  "sglib_hashed_update nm name f table =
     (let i = hash_index name in table[i := update_first (\<lambda>p. nm p = name) f (table ! i)])"

section \<open>Operations of symbols.c\<close>

definition initial_symbols :: symbols where
  "initial_symbols = \<lparr>func_table_init = False, func_table = replicate HASHTABLE_SIZE []\<rparr>"

definition new_func_info :: "string \<Rightarrow> dtype \<Rightarrow> func_info" where
  "new_func_info name ret_type =
     \<lparr>fi_name = name, fi_ret_type = ret_type, fi_prototyped = False, fi_addr = None,
      fi_arg_count = 0, fi_var_count = 0, fi_max_call_size = 0, fi_var_table = sglib_hashed_init HASHTABLE_SIZE\<rparr>"

definition new_var_info :: "string \<Rightarrow> dtype \<Rightarrow> var_info" where
  "new_var_info name ret_type = \<lparr>vi_name = name, vi_type = ret_type, vi_pos = 0\<rparr>"

text \<open>\<open>add_func\<close> returns the new entry, or NULL (None) for a duplicate.\<close>

definition add_func :: "string \<Rightarrow> dtype \<Rightarrow> symbols \<Rightarrow> func_info option \<times> symbols" where
  "add_func name ret_type s =
     (let s1 = (if func_table_init s then s
                else \<lparr>func_table_init = True, func_table = sglib_hashed_init HASHTABLE_SIZE\<rparr>)
      in if sglib_hashed_find_member fi_name name (func_table s1) \<noteq> None then (None, s1)
         else let new_func = new_func_info name ret_type
              in (Some new_func, s1\<lparr>func_table := sglib_hashed_add fi_name new_func (func_table s1)\<rparr>))"

text \<open>The entry whose \<open>var_table\<close> grows is passed and returned; a NULL \<open>func\<close> is refused.\<close>

definition add_var :: "string \<Rightarrow> dtype \<Rightarrow> func_info option \<Rightarrow> func_info option" where
  "add_var name ret_type func =
     (case func of
        None \<Rightarrow> None
      | Some f \<Rightarrow>
          (if sglib_hashed_find_member vi_name name (fi_var_table f) \<noteq> None then None
           else Some (f\<lparr>fi_var_table := sglib_hashed_add vi_name (new_var_info name ret_type) (fi_var_table f)\<rparr>)))"

definition get_func :: "string \<Rightarrow> symbols \<Rightarrow> func_info option" where
  "get_func name s = sglib_hashed_find_member fi_name name (func_table s)"

definition get_var :: "string \<Rightarrow> func_info \<Rightarrow> var_info option" where
  "get_var name func = sglib_hashed_find_member vi_name name (fi_var_table func)"

text \<open>Writes through a \<open>func_info\<close> or \<open>var_info\<close> pointer.\<close>

definition update_func :: "string \<Rightarrow> (func_info \<Rightarrow> func_info) \<Rightarrow> symbols \<Rightarrow> symbols" where
  "update_func name f s = s\<lparr>func_table := sglib_hashed_update fi_name name f (func_table s)\<rparr>"

definition set_var_pos :: "string \<Rightarrow> nat \<Rightarrow> func_info \<Rightarrow> func_info" where
  "set_var_pos name p func =
     func\<lparr>fi_var_table := sglib_hashed_update vi_name name (\<lambda>v. v\<lparr>vi_pos := p\<rparr>) (fi_var_table func)\<rparr>"

fun tok_type_to_dtype :: "token_type \<Rightarrow> dtype" where
  "tok_type_to_dtype TOK_VOID = DTYPE_VOID"
| "tok_type_to_dtype TOK_INT = DTYPE_INT"
| "tok_type_to_dtype _ = DTYPE_VOID"

section \<open>The interface: a table of named entries\<close>

text \<open>
  What the AST builder and the generator rely on: a lookup finds what was added under the
  name and nothing else changes, and a write through a pointer changes that entry only.
\<close>

locale name_table =
  fixes nm :: "'a \<Rightarrow> string"
    and empty :: "'t"
    and find :: "string \<Rightarrow> 't \<Rightarrow> 'a option"
    and add :: "'a \<Rightarrow> 't \<Rightarrow> 't"
    and update :: "string \<Rightarrow> ('a \<Rightarrow> 'a) \<Rightarrow> 't \<Rightarrow> 't"
    and inv :: "'t \<Rightarrow> bool"
  assumes inv_empty: "inv empty"
    and inv_add: "inv t \<Longrightarrow> inv (add e t)"
    and inv_update: "inv t \<Longrightarrow> inv (update n f t)"
    and find_empty: "find n empty = None"
    and find_add: "inv t \<Longrightarrow> find n (add e t) = (if n = nm e then Some e else find n t)"
    and find_update: "inv t \<Longrightarrow> (\<And>e. nm (f e) = nm e) \<Longrightarrow>
      find m (update n f t) = (if m = n then map_option f (find n t) else find m t)"
    and find_name: "find n t = Some e \<Longrightarrow> nm e = n"
begin

text \<open>The abstract value of a table is a finite map; the operations are map updates.\<close>

definition table_map :: "'t \<Rightarrow> string \<Rightarrow> 'a option" where
  "table_map t = (\<lambda>n. find n t)"

lemma table_map_empty: "table_map empty = Map.empty"
  by (simp add: table_map_def find_empty)

lemma table_map_add: "inv t \<Longrightarrow> table_map (add e t) = (table_map t)(nm e \<mapsto> e)"
  by (auto simp: table_map_def find_add)

lemma table_map_update:
  "inv t \<Longrightarrow> (\<And>e. nm (f e) = nm e) \<Longrightarrow> table_map (update n f t) = (table_map t)(n := map_option f (table_map t n))"
  by (auto simp: table_map_def find_update)

text \<open>Declaring a fresh name keeps every earlier declaration.\<close>

lemma add_fresh_keeps:
  "inv t \<Longrightarrow> find (nm e) t = None \<Longrightarrow> find n t = Some x \<Longrightarrow> find n (add e t) = Some x"
  by (auto simp: find_add)

lemma find_update_same:
  "inv t \<Longrightarrow> (\<And>e. nm (f e) = nm e) \<Longrightarrow> find n t = Some x \<Longrightarrow> find n (update n f t) = Some (f x)"
  by (simp add: find_update)

lemma dom_update: "inv t \<Longrightarrow> (\<And>e. nm (f e) = nm e) \<Longrightarrow> dom (table_map (update n f t)) = dom (table_map t)"
  by (auto simp: table_map_update dom_def)

end

text \<open>A table has all its buckets.\<close>

definition table_inv :: "'a list list \<Rightarrow> bool" where
  "table_inv table \<longleftrightarrow> length table = HASHTABLE_SIZE"

lemma hash_index_less [simp]: "hash_index n < HASHTABLE_SIZE"
  by (simp add: hash_index_def HASHTABLE_SIZE_def unat_mod)

lemma find_Some_name: "List.find (\<lambda>p. nm p = n) xs = Some e \<Longrightarrow> nm e = n"
  by (auto simp: find_Some_iff)

lemma find_update_first:
  "(\<And>e. nm (f e) = nm e) \<Longrightarrow> List.find (\<lambda>p. nm p = m) (update_first (\<lambda>p. nm p = n) f xs) =
     (if m = n then map_option f (List.find (\<lambda>p. nm p = n) xs) else List.find (\<lambda>p. nm p = m) xs)"
  by (induction xs) auto

lemma hashed_container:
  "name_table nm (sglib_hashed_init HASHTABLE_SIZE) (sglib_hashed_find_member nm) (sglib_hashed_add nm)
     (sglib_hashed_update nm) table_inv"
proof (unfold_locales, goal_cases)
  case (6 t f m n)
  then show ?case
    by (auto simp: sglib_hashed_update_def sglib_hashed_find_member_def sglib_list_find_member_def
        table_inv_def Let_def nth_list_update find_update_first)
next
  case (7 n t e)
  then show ?case
    by (auto simp: sglib_hashed_find_member_def sglib_list_find_member_def dest: find_Some_name)
qed (auto simp: table_inv_def sglib_hashed_init_def sglib_hashed_add_def sglib_hashed_update_def
    sglib_hashed_find_member_def sglib_list_find_member_def Let_def nth_list_update)

interpretation funcs: name_table fi_name "sglib_hashed_init HASHTABLE_SIZE" "sglib_hashed_find_member fi_name"
    "sglib_hashed_add fi_name" "sglib_hashed_update fi_name" table_inv
  by (rule hashed_container)

interpretation vars: name_table vi_name "sglib_hashed_init HASHTABLE_SIZE" "sglib_hashed_find_member vi_name"
    "sglib_hashed_add vi_name" "sglib_hashed_update vi_name" table_inv
  by (rule hashed_container)

section \<open>The operations as map updates\<close>

definition symbols_ok :: "symbols \<Rightarrow> bool" where
  "symbols_ok s \<longleftrightarrow>
     table_inv (func_table s) \<and> (\<not> func_table_init s \<longrightarrow> (\<forall>n. get_func n s = None)) \<and>
     (\<forall>n f. get_func n s = Some f \<longrightarrow> table_inv (fi_var_table f))"

lemma table_inv_init [simp]: "table_inv (sglib_hashed_init HASHTABLE_SIZE)"
  by (simp add: table_inv_def sglib_hashed_init_def)

lemma get_func_name: "get_func n s = Some f \<Longrightarrow> fi_name f = n"
  unfolding get_func_def by (rule funcs.find_name)

lemma get_var_name: "get_var n f = Some v \<Longrightarrow> vi_name v = n"
  unfolding get_var_def by (rule vars.find_name)

lemma initial_symbols_ok: "symbols_ok initial_symbols"
  by (simp add: symbols_ok_def initial_symbols_def table_inv_def get_func_def sglib_hashed_find_member_def
      sglib_list_find_member_def)

lemma get_func_uninit:
  "get_func n \<lparr>func_table_init = b, func_table = sglib_hashed_init HASHTABLE_SIZE\<rparr> = None"
  by (simp add: get_func_def funcs.find_empty)

lemma add_func_cases:
  assumes "symbols_ok s"
  shows "\<exists>s'. symbols_ok s' \<and> add_func name t s =
      (if get_func name s = None then Some (new_func_info name t) else None, s') \<and>
    (\<forall>n. get_func n s' = (if get_func name s = None \<and> n = name then Some (new_func_info name t) else get_func n s))"
proof -
  define s1 where "s1 = (if func_table_init s then s
    else \<lparr>func_table_init = True, func_table = sglib_hashed_init HASHTABLE_SIZE\<rparr>)"
  have same: "get_func n s1 = get_func n s" for n
    using assms get_func_uninit by (simp add: s1_def symbols_ok_def)
  have ok: "symbols_ok s1" and init: "func_table_init s1"
    using assms same by (auto simp: s1_def symbols_ok_def)
  have add: "add_func name t s = (if get_func name s1 = None
      then (Some (new_func_info name t), s1\<lparr>func_table := sglib_hashed_add fi_name (new_func_info name t) (func_table s1)\<rparr>)
      else (None, s1))"
    by (simp add: add_func_def get_func_def s1_def Let_def)
  let ?s' = "s1\<lparr>func_table := sglib_hashed_add fi_name (new_func_info name t) (func_table s1)\<rparr>"
  have get: "get_func n ?s' = (if n = name then Some (new_func_info name t) else get_func n s)" for n
    using ok same [of n] by (simp add: get_func_def funcs.find_add symbols_ok_def new_func_info_def)
  have "symbols_ok ?s'"
    using ok init get same unfolding symbols_ok_def
    by (auto simp: funcs.inv_add new_func_info_def split: if_splits)
  then show ?thesis
    using ok add get same by (cases "get_func name s") auto
qed

lemma get_func_update:
  assumes "symbols_ok s" and "\<And>f. fi_name (g f) = fi_name f"
  shows "get_func m (update_func n g s) = (if m = n then map_option g (get_func n s) else get_func m s)"
  using assms by (simp add: get_func_def update_func_def funcs.find_update symbols_ok_def)

lemma get_var_fields [simp]:
  "get_var n (f\<lparr>fi_var_count := c\<rparr>) = get_var n f"
  "get_var n (f\<lparr>fi_arg_count := c\<rparr>) = get_var n f"
  "get_var n (f\<lparr>fi_max_call_size := c\<rparr>) = get_var n f"
  "get_var n (f\<lparr>fi_prototyped := b\<rparr>) = get_var n f"
  by (simp_all add: get_var_def)

lemma add_var_cases:
  assumes "table_inv (fi_var_table f)"
  shows "add_var name t (Some f) = (if get_var name f = None
      then Some (f\<lparr>fi_var_table := sglib_hashed_add vi_name (new_var_info name t) (fi_var_table f)\<rparr>) else None)"
    and "get_var n (f\<lparr>fi_var_table := sglib_hashed_add vi_name (new_var_info name t) (fi_var_table f)\<rparr>)
      = (if n = name then Some (new_var_info name t) else get_var n f)"
    and "table_inv (sglib_hashed_add vi_name (new_var_info name t) (fi_var_table f))"
  using assms by (simp_all add: add_var_def get_var_def vars.find_add new_var_info_def vars.inv_add)

lemma get_var_set_pos:
  assumes "table_inv (fi_var_table f)"
  shows "get_var n (set_var_pos m p f) = (if n = m then map_option (\<lambda>v. v\<lparr>vi_pos := p\<rparr>) (get_var m f) else get_var n f)"
  using assms by (simp add: get_var_def set_var_pos_def vars.find_update)

lemma set_var_pos_inv: "table_inv (fi_var_table f) \<Longrightarrow> table_inv (fi_var_table (set_var_pos m p f))"
  by (simp add: set_var_pos_def vars.inv_update)

lemma set_var_pos_fields [simp]:
  "fi_name (set_var_pos m p f) = fi_name f" "fi_ret_type (set_var_pos m p f) = fi_ret_type f"
  "fi_arg_count (set_var_pos m p f) = fi_arg_count f" "fi_var_count (set_var_pos m p f) = fi_var_count f"
  "fi_max_call_size (set_var_pos m p f) = fi_max_call_size f"
  by (simp_all add: set_var_pos_def)

section \<open>Properties\<close>

text \<open>C15 The function table is a map from names: \<open>add_func\<close> refuses a name that is present
  and leaves the map as it is; otherwise it returns the fresh entry and the map is updated at
  that name only, whichever buckets the names hash to. It works on the table before its first
  use too, and keeps the table well-formed.\<close>

theorem add_func_map:
  assumes "symbols_ok s" and "add_func name t s = (r, s')"
  shows "symbols_ok s' \<and>
    (case get_func name s of
       Some f \<Rightarrow> r = None \<and> (\<forall>n. get_func n s' = get_func n s)
     | None \<Rightarrow> r = Some (new_func_info name t) \<and>
         (\<forall>n. get_func n s' = ((\<lambda>n. get_func n s)(name \<mapsto> new_func_info name t)) n))"
  using add_func_cases [OF assms(1), of name t] assms(2) by (auto split: option.split)

theorem add_func_map_witness:
  "\<forall>n. get_func n (snd (add_func ''main'' DTYPE_INT initial_symbols))
     = [''main'' \<mapsto> new_func_info ''main'' DTYPE_INT] n"
proof -
  have none: "get_func n initial_symbols = None" for n
    by (simp add: initial_symbols_def get_func_def sglib_hashed_find_member_def sglib_list_find_member_def)
  show ?thesis
    using add_func_map [OF initial_symbols_ok, of "''main''" DTYPE_INT]
    by (cases "add_func ''main'' DTYPE_INT initial_symbols") (auto simp: none)
qed

end
