(* ===== verification/Ast.thy ===== *)
theory Ast
  imports Symbols
begin

text \<open>
  compiler/ast.c and compiler/include/ast.h: the syntax tree, the leaf constructors, and
  \<open>create_node\<close> with the symbol table work it does when a function, a prototype or a call
  has been parsed. A NULL node is \<open>NULL_NODE\<close>. A read through NULL, of a union member
  that was not written, or past the children array is \<open>Segfault\<close>.
\<close>

section \<open>Nodes\<close>

datatype ast_type =
    AST_HEAD | AST_EMPTY | AST_INNER | AST_IDENTIFIER | AST_INTLITERAL | AST_TYPE | AST_TYPELEAF
  | AST_VAR_DEF | AST_VAR_ASSIGN | AST_PRINT | AST_RETURN | AST_EXPRESSION | AST_EXPRESSION1
  | AST_NUMOP | AST_NUMOP_LEAF | AST_BOOLOP | AST_BOOLOP_LEAF | AST_CONDITION | AST_STATEMENT
  | AST_SEQUENCE | AST_BRANCH | AST_FOR_LOOP_HEAD | AST_LOOP | AST_FCALL_ARGLIST | AST_FCALL
  | AST_RET_FCALL | AST_ARGDEF | AST_ARGDEFLIST | AST_FUNCTION | AST_FUNCTION_PROTO

text \<open>
  The union \<open>val\<close>, tagged with the member last written. A \<open>func_info\<close> pointer is a
  function name, a \<open>var_info\<close> pointer a function name and a variable name. A NULL
  \<open>str\<close> is None.
\<close>

datatype node_val =
    Val_None | Val_Str "string option" | Val_Type token_type | Val_Number u32
  | Val_Func string | Val_Var string string

datatype node = NULL_NODE | Node ast_type node_val node node node

fun node_left :: "node \<Rightarrow> node outcome" where
  "node_left NULL_NODE = Segfault"
| "node_left (Node t v l m r) = Ret l"

fun node_middle :: "node \<Rightarrow> node outcome" where
  "node_middle NULL_NODE = Segfault"
| "node_middle (Node t v l m r) = Ret m"

fun val_type :: "node \<Rightarrow> token_type outcome" where
  "val_type (Node t (Val_Type ty) l m r) = Ret ty"
| "val_type _ = Segfault"

fun val_str :: "node \<Rightarrow> string outcome" where
  "val_str (Node t (Val_Str (Some s)) l m r) = Ret s"
| "val_str _ = Segfault"

section \<open>Leaves\<close>

definition create_identifier :: "token \<Rightarrow> node outcome" where
  "create_identifier tok = Ret (Node AST_IDENTIFIER (Val_Str (tok_val tok)) NULL_NODE NULL_NODE NULL_NODE)"

text \<open>
  \<open>strtol(s, NULL, 0)\<close> of the C library on a 64-bit target: optional white space and sign,
  a base prefix, the longest run of digits; saturation sets ERANGE.
\<close>

definition is_c_space :: "char \<Rightarrow> bool" where
  "is_c_space c \<longleftrightarrow> c \<in> {CHR '' '', CHR 0x09, CHR 0x0A, CHR 0x0B, CHR 0x0C, CHR 0x0D}"

definition digit_value :: "char \<Rightarrow> int" where
  "digit_value c =
     (let n = of_char c in
      if is_digit c then n - 48
      else if CHR ''A'' \<le> c \<and> c \<le> CHR ''Z'' then n - 55
      else if CHR ''a'' \<le> c \<and> c \<le> CHR ''z'' then n - 87
      else 36)"

definition digits_value :: "int \<Rightarrow> string \<Rightarrow> int" where
  "digits_value base ds = foldl (\<lambda>n c. n * base + digit_value c) 0 ds"

record strtol_result =
  st_value :: int
  st_erange :: bool
  st_rest :: string

definition LONG_MAX :: int where "LONG_MAX = 2 ^ 63 - 1"
definition LONG_MIN :: int where "LONG_MIN = - (2 ^ 63)"
definition UINT32_MAX :: int where "UINT32_MAX = 2 ^ 32 - 1"
definition INT32_MIN :: int where "INT32_MIN = - (2 ^ 31)"

definition strtol_base :: "string \<Rightarrow> int \<times> string" where
  "strtol_base s =
     (if char_at s 0 = CHR ''0'' \<and> (char_at s 1 = CHR ''x'' \<or> char_at s 1 = CHR ''X'')
        \<and> digit_value (char_at s 2) < 16 then (16, drop 2 s)
      else if char_at s 0 = CHR ''0'' then (8, s)
      else (10, s))"

definition strtol :: "string \<Rightarrow> strtol_result" where
  "strtol s =
     (let s1 = dropWhile is_c_space s;
          neg = char_at s1 0 = CHR ''-'';
          s2 = (if neg \<or> char_at s1 0 = CHR ''+'' then tl s1 else s1);
          (base, s3) = strtol_base s2;
          ds = takeWhile (\<lambda>c. digit_value c < base) s3;
          n = digits_value base ds;
          v = (if neg then - n else n)
      in if ds = [] then \<lparr>st_value = 0, st_erange = False, st_rest = s\<rparr>
         else \<lparr>st_value = max LONG_MIN (min LONG_MAX v), st_erange = (v < LONG_MIN \<or> LONG_MAX < v),
               st_rest = drop (length ds) s3\<rparr>)"

definition create_intliteral :: "token \<Rightarrow> node outcome" where
  "create_intliteral tok =
     (case tok_val tok of
        None \<Rightarrow> Segfault
      | Some s \<Rightarrow>
          (let r = strtol s; number = st_value r
           in if st_erange r \<or> number > UINT32_MAX \<or> number < INT32_MIN then Exit_Failure
              else Ret (Node AST_INTLITERAL (Val_Number (of_int number)) NULL_NODE NULL_NODE NULL_NODE)))"

definition create_neg_intliteral :: "token \<Rightarrow> node outcome" where
  "create_neg_intliteral tok =
     obind (create_intliteral tok) (\<lambda>node.
       case node of
         Node t (Val_Number n) l m r \<Rightarrow> Ret (Node t (Val_Number ((- 1) * n)) l m r)
       | _ \<Rightarrow> Segfault)"

definition create_numop :: "token \<Rightarrow> node outcome" where
  "create_numop tok = Ret (Node AST_NUMOP_LEAF (Val_Type (tok_type tok)) NULL_NODE NULL_NODE NULL_NODE)"

definition create_boolop :: "token \<Rightarrow> node outcome" where
  "create_boolop tok = Ret (Node AST_BOOLOP_LEAF (Val_Type (tok_type tok)) NULL_NODE NULL_NODE NULL_NODE)"

definition create_type :: "token \<Rightarrow> node outcome" where
  "create_type tok = Ret (Node AST_TYPELEAF (Val_Type (tok_type tok)) NULL_NODE NULL_NODE NULL_NODE)"

definition create_empty :: node where
  "create_empty = Node AST_EMPTY Val_None NULL_NODE NULL_NODE NULL_NODE"

section \<open>Passes over a parsed function\<close>

text \<open>The function's return type is what this pass reads of \<open>func\<close>.\<close>

fun check_return_validity :: "func_info \<Rightarrow> node \<Rightarrow> bool" where
  "check_return_validity func NULL_NODE = True"
| "check_return_validity func (Node t v l m r) =
     (if t \<noteq> AST_RETURN then
        check_return_validity func l \<and> check_return_validity func m \<and> check_return_validity func r
      else if l \<noteq> NULL_NODE \<and> fi_ret_type func = DTYPE_VOID then False
      else if l = NULL_NODE \<and> fi_ret_type func \<noteq> DTYPE_VOID then False
      else True)"

text \<open>
  \<open>register_loc_vars\<close> returns its flag, the function entry it extends and the tree it
  rewrites in place.
\<close>

fun register_loc_vars :: "func_info \<Rightarrow> node \<Rightarrow> (bool \<times> func_info \<times> node) outcome" where
  "register_loc_vars func NULL_NODE = Ret (True, func, NULL_NODE)"
| "register_loc_vars func (Node t v l m r) =
    (if t = AST_VAR_DEF then
       obind (node_left l) (\<lambda>ll. obind (val_type ll) (\<lambda>ty. obind (val_str m) (\<lambda>name.
         case add_var name (tok_type_to_dtype ty) (Some func) of
           None \<Rightarrow> Ret (False, func, Node t v l m r)
         | Some func1 \<Rightarrow>
             (let func2 = set_var_pos name (fi_max_call_size func1 + fi_var_count func1) func1;
                  func3 = func2\<lparr>fi_var_count := fi_var_count func2 + 1\<rparr>
              in obind (register_loc_vars func3 r) (\<lambda>(ok, func4, r').
                   Ret (ok, func4, Node t (Val_Var (fi_name func) name) r' NULL_NODE NULL_NODE))))))
     else if t = AST_VAR_ASSIGN then
       obind (val_str l) (\<lambda>name.
         case get_var name func of
           None \<Rightarrow> Ret (False, func, Node t v l m r)
         | Some var \<Rightarrow>
             obind (register_loc_vars func m) (\<lambda>(ok, func1, m').
               Ret (ok, func1, Node t (Val_Var (fi_name func) name) m' NULL_NODE r)))
     else if t = AST_IDENTIFIER then
       obind (val_str (Node t v l m r)) (\<lambda>name.
         case get_var name func of
           None \<Rightarrow> Ret (False, func, Node t v l m r)
         | Some var \<Rightarrow> Ret (True, func, Node t (Val_Var (fi_name func) name) l m r))
     else
       obind (register_loc_vars func l) (\<lambda>(ok, func1, l').
         if \<not> ok then Ret (False, func1, Node t v l' m r)
         else obind (register_loc_vars func1 m) (\<lambda>(ok, func2, m').
           if \<not> ok then Ret (False, func2, Node t v l' m' r)
           else obind (register_loc_vars func2 r) (\<lambda>(ok, func3, r').
             Ret (ok, func3, Node t v l' m' r')))))"

fun calculate_arg_addresses :: "func_info \<Rightarrow> node \<Rightarrow> func_info outcome" where
  "calculate_arg_addresses func NULL_NODE = Ret func"
| "calculate_arg_addresses func (Node t v l m r) =
    (if t = AST_ARGDEF then
       obind (val_str m) (\<lambda>name.
         case get_var name func of
           None \<Rightarrow> Segfault
         | Some var \<Rightarrow>
             Ret (set_var_pos name (vi_pos var + fi_var_count func + fi_max_call_size func) func))
     else
       obind (calculate_arg_addresses func l) (\<lambda>func1. calculate_arg_addresses func1 m))"

fun register_args :: "func_info \<Rightarrow> node \<Rightarrow> (bool \<times> func_info) outcome" where
  "register_args func NULL_NODE = Ret (True, func)"
| "register_args func (Node t v l m r) =
    (if t = AST_ARGDEF then
       obind (node_left l) (\<lambda>ll. obind (val_type ll) (\<lambda>ty. obind (val_str m) (\<lambda>name.
         case add_var name (tok_type_to_dtype ty) (Some func) of
           None \<Rightarrow> Ret (False, func)
         | Some func1 \<Rightarrow>
             (let func2 = set_var_pos name (fi_arg_count func1 + 1) func1
              in Ret (True, func2\<lparr>fi_arg_count := fi_arg_count func2 + 1\<rparr>)))))
     else
       obind (register_args func l) (\<lambda>(ok, func1).
         if \<not> ok then Ret (False, func1) else register_args func1 m))"

section \<open>create_node\<close>

text \<open>The static state of the front end: the function table and \<open>max_arg_count\<close>.\<close>

record ast_state =
  as_symbols :: symbols
  as_max_arg_count :: nat

definition initial_ast_state :: ast_state where
  "initial_ast_state = \<lparr>as_symbols = initial_symbols, as_max_arg_count = 0\<rparr>"

definition set_max_arg_count :: "nat \<Rightarrow> ast_state \<Rightarrow> ast_state" where
  "set_max_arg_count i s = s\<lparr>as_max_arg_count := i\<rparr>"

text \<open>Write an entry back through its pointer.\<close>

definition store_func :: "func_info \<Rightarrow> ast_state \<Rightarrow> ast_state" where
  "store_func func s = s\<lparr>as_symbols := update_func (fi_name func) (\<lambda>_. func) (as_symbols s)\<rparr>"

text \<open>A result of NULL is \<open>NULL_NODE\<close>. \<open>children[i]\<close> past the end is undefined.\<close>

definition child :: "node list \<Rightarrow> nat \<Rightarrow> node outcome" where
  "child cs i = (if i < length cs then Ret (cs ! i) else Segfault)"

definition register_function_prototype :: "node list \<Rightarrow> ast_state \<Rightarrow> (node \<times> ast_state) outcome" where
  "register_function_prototype children s =
     obind (child children 0) (\<lambda>c0. obind (node_left c0) (\<lambda>c0l. obind (val_type c0l) (\<lambda>ty.
     obind (child children 1) (\<lambda>c1. obind (val_str c1) (\<lambda>name.
     obind (child children 2) (\<lambda>arglist.
       (case add_func name (tok_type_to_dtype ty) (as_symbols s) of
          (None, syms) \<Rightarrow> Ret (NULL_NODE, s\<lparr>as_symbols := syms\<rparr>)
        | (Some func, syms) \<Rightarrow>
            obind (register_args (func\<lparr>fi_prototyped := True\<rparr>) arglist) (\<lambda>(ok, func1).
              let s1 = store_func func1 (s\<lparr>as_symbols := syms\<rparr>)
              in if \<not> ok then Ret (NULL_NODE, s1)
                 else Ret (Node AST_INNER Val_None NULL_NODE NULL_NODE NULL_NODE, s1)))))))))"

text \<open>The part of \<open>register_function\<close> that finds or makes the entry: Inl is \<open>return NULL\<close>.\<close>

definition enter_function ::
  "string \<Rightarrow> dtype \<Rightarrow> node \<Rightarrow> ast_state \<Rightarrow> (ast_state + func_info \<times> ast_state) outcome" where
  "enter_function name ret_type arglist s =
     (case get_func name (as_symbols s) of
        None \<Rightarrow>
          (case add_func name ret_type (as_symbols s) of
             (None, syms) \<Rightarrow> Segfault
           | (Some func, syms) \<Rightarrow>
               obind (register_args func arglist) (\<lambda>(ok, func1).
                 let s1 = store_func func1 (s\<lparr>as_symbols := syms\<rparr>)
                 in if ok then Ret (Inr (func1, s1)) else Ret (Inl s1)))
      | Some func \<Rightarrow>
          (if \<not> fi_prototyped func then Ret (Inl s)
           else Ret (Inr (func\<lparr>fi_prototyped := False\<rparr>, s))))"

definition register_function :: "node list \<Rightarrow> ast_state \<Rightarrow> (node \<times> ast_state) outcome" where
  "register_function children s =
     obind (child children 0) (\<lambda>c0. obind (node_left c0) (\<lambda>c0l. obind (val_type c0l) (\<lambda>ty.
     obind (child children 1) (\<lambda>c1. obind (val_str c1) (\<lambda>name.
     obind (child children 2) (\<lambda>arglist.
     obind (enter_function name (tok_type_to_dtype ty) arglist s) (\<lambda>entered.
       case entered of
         Inl s1 \<Rightarrow> Ret (NULL_NODE, s1)
       | Inr (func, s1) \<Rightarrow>
           obind (child children 3) (\<lambda>body0.
           obind (register_loc_vars (func\<lparr>fi_max_call_size := as_max_arg_count s1\<rparr>) body0)
             (\<lambda>(ok, func1, body).
               if \<not> ok then Ret (NULL_NODE, store_func func1 s1)
               else obind (calculate_arg_addresses func1 arglist) (\<lambda>func2.
                 if \<not> check_return_validity func2 body then Ret (NULL_NODE, store_func func2 s1)
                 else Ret (Node AST_FUNCTION (Val_Func name) body NULL_NODE NULL_NODE,
                           store_func func2 s1)))))))))))"

fun count_fcall_args :: "node \<Rightarrow> nat" where
  "count_fcall_args NULL_NODE = 0"
| "count_fcall_args (Node t v l m r) =
     (if t = AST_FCALL_ARGLIST then 1 + count_fcall_args m else 0)"

definition create_fcall :: "ast_type \<Rightarrow> node list \<Rightarrow> bool \<Rightarrow> ast_state \<Rightarrow> (node \<times> ast_state) outcome" where
  "create_fcall type children must_return s =
     obind (child children 0) (\<lambda>c0. obind (val_str c0) (\<lambda>name.
       case get_func name (as_symbols s) of
         None \<Rightarrow> Ret (NULL_NODE, s)
       | Some func \<Rightarrow>
           (if must_return \<and> fi_ret_type func = DTYPE_VOID then Ret (NULL_NODE, s)
            else obind (child children 1) (\<lambda>c1.
              let arg_count = count_fcall_args c1
              in if arg_count \<noteq> fi_arg_count func then Ret (NULL_NODE, s)
                 else Ret (Node type (Val_Func name) c1 NULL_NODE NULL_NODE,
                           (if arg_count > as_max_arg_count s then set_max_arg_count arg_count s else s))))))"

definition create_node :: "ast_type \<Rightarrow> node list \<Rightarrow> ast_state \<Rightarrow> (node \<times> ast_state) outcome" where
  "create_node type children s =
     (case type of
        AST_FUNCTION \<Rightarrow> register_function children s
      | AST_FUNCTION_PROTO \<Rightarrow> register_function_prototype children s
      | AST_FCALL \<Rightarrow> create_fcall type children False s
      | AST_RET_FCALL \<Rightarrow> create_fcall type children True s
      | _ \<Rightarrow>
          Ret (Node type Val_None
                 (if length children \<ge> 1 then children ! 0 else NULL_NODE)
                 (if length children \<ge> 2 then children ! 1 else NULL_NODE)
                 (if length children \<ge> 3 then children ! 2 else NULL_NODE), s))"

end
