(* ===== verification/Parser.thy ===== *)
theory Parser
  imports Ast
begin

text \<open>
  compiler/parser.c: a backtracking recursive-descent parser driven by tables of
  productions. \<open>match_prod\<close> takes the table entry and the check functions it points to;
  \<open>check\<close> ties the knot on fuel, which bounds the depth of nested calls. The static
  \<open>token\<close> pointer is the list of remaining tokens (NULL is the empty list), and the
  symbol table is part of the state because \<open>create_node\<close> changes it and backtracking
  does not undo that.
\<close>

section \<open>Symbols and productions\<close>

text \<open>One name per \<open>check_\<close> function.\<close>

datatype nonterm =
    NT_type | NT_var_def | NT_var_assign | NT_print | NT_return | NT_expr | NT_expr1 | NT_cond
  | NT_numop | NT_boolop | NT_statement | NT_sequence | NT_branch | NT_for_loop_head | NT_loop
  | NT_fcall_arglist | NT_fcall | NT_ret_fcall | NT_argdef | NT_argdeflist | NT_func | NT_program

text \<open>\<open>sym_t\<close>: a terminal with its (possibly NULL) create function, or a check function.\<close>

datatype sym =
    Tm token_type "(token \<Rightarrow> node outcome) option"
  | Nt nonterm

type_synonym production = "ast_type \<times> sym list"

definition prods_type :: "production list" where
  "prods_type =
    [(AST_TYPE, [Tm TOK_VOID (Some create_type)]),
     (AST_TYPE, [Tm TOK_INT (Some create_type)])]"

definition prods_var_def :: "production list" where
  "prods_var_def =
    [(AST_VAR_DEF, [Nt NT_type, Tm TOK_IDENTIFIER (Some create_identifier), Tm TOK_EQ None, Nt NT_expr]),
     (AST_VAR_DEF, [Nt NT_type, Tm TOK_IDENTIFIER (Some create_identifier)])]"

definition prods_var_assign :: "production list" where
  "prods_var_assign =
    [(AST_VAR_ASSIGN, [Tm TOK_IDENTIFIER (Some create_identifier), Tm TOK_EQ None, Nt NT_expr])]"

definition prods_print :: "production list" where
  "prods_print = [(AST_PRINT, [Tm TOK_PRINT None, Nt NT_expr])]"

definition prods_return :: "production list" where
  "prods_return =
    [(AST_RETURN, [Tm TOK_RETURN None, Nt NT_expr]),
     (AST_RETURN, [Tm TOK_RETURN None])]"

definition prods_expr :: "production list" where
  "prods_expr =
    [(AST_EXPRESSION, [Nt NT_expr1, Nt NT_numop, Nt NT_expr]),
     (AST_EXPRESSION, [Nt NT_expr1])]"

definition prods_expr1 :: "production list" where
  "prods_expr1 =
    [(AST_EXPRESSION1, [Nt NT_ret_fcall]),
     (AST_EXPRESSION1, [Tm TOK_IDENTIFIER (Some create_identifier)]),
     (AST_EXPRESSION1, [Tm TOK_INTLITERAL (Some create_intliteral)]),
     (AST_EXPRESSION1, [Tm TOK_MINUS None, Tm TOK_INTLITERAL (Some create_neg_intliteral)]),
     (AST_EXPRESSION1, [Tm TOK_OPENPA None, Nt NT_expr, Tm TOK_CLOSEPA None])]"

definition prods_cond :: "production list" where
  "prods_cond = [(AST_CONDITION, [Nt NT_expr, Nt NT_boolop, Nt NT_expr])]"

definition prods_numop :: "production list" where
  "prods_numop =
    [(AST_NUMOP, [Tm TOK_PLUS (Some create_numop)]),
     (AST_NUMOP, [Tm TOK_MINUS (Some create_numop)]),
     (AST_NUMOP, [Tm TOK_STAR (Some create_numop)]),
     (AST_NUMOP, [Tm TOK_SLASH (Some create_numop)]),
     (AST_NUMOP, [Tm TOK_PERCENT (Some create_numop)])]"

definition prods_boolop :: "production list" where
  "prods_boolop =
    [(AST_BOOLOP, [Tm TOK_EQEQ (Some create_boolop)]),
     (AST_BOOLOP, [Tm TOK_NEQ (Some create_boolop)]),
     (AST_BOOLOP, [Tm TOK_GT (Some create_boolop)]),
     (AST_BOOLOP, [Tm TOK_LT (Some create_boolop)]),
     (AST_BOOLOP, [Tm TOK_GE (Some create_boolop)]),
     (AST_BOOLOP, [Tm TOK_LE (Some create_boolop)])]"

definition prods_statement :: "production list" where
  "prods_statement =
    [(AST_STATEMENT, [Nt NT_var_def, Tm TOK_SEMICL None]),
     (AST_STATEMENT, [Nt NT_var_assign, Tm TOK_SEMICL None]),
     (AST_STATEMENT, [Nt NT_fcall, Tm TOK_SEMICL None]),
     (AST_STATEMENT, [Nt NT_print, Tm TOK_SEMICL None]),
     (AST_STATEMENT, [Nt NT_return, Tm TOK_SEMICL None])]"

definition prods_sequence :: "production list" where
  "prods_sequence =
    [(AST_SEQUENCE, [Nt NT_statement, Nt NT_sequence]),
     (AST_SEQUENCE, [Nt NT_branch, Nt NT_sequence]),
     (AST_SEQUENCE, [Nt NT_loop, Nt NT_sequence])]"

definition prods_branch :: "production list" where
  "prods_branch =
    [(AST_BRANCH,
      [Tm TOK_IF None, Tm TOK_OPENPA None, Nt NT_cond, Tm TOK_CLOSEPA None,
       Tm TOK_OPENBR None, Nt NT_sequence, Tm TOK_CLOSEBR None,
       Tm TOK_ELSE None, Tm TOK_OPENBR None, Nt NT_sequence, Tm TOK_CLOSEBR None]),
     (AST_BRANCH,
      [Tm TOK_IF None, Tm TOK_OPENPA None, Nt NT_cond, Tm TOK_CLOSEPA None,
       Tm TOK_OPENBR None, Nt NT_sequence, Tm TOK_CLOSEBR None])]"

definition prods_for_loop_head :: "production list" where
  "prods_for_loop_head =
    [(AST_FOR_LOOP_HEAD,
      [Nt NT_var_def, Tm TOK_SEMICL None, Nt NT_cond, Tm TOK_SEMICL None, Nt NT_var_assign]),
     (AST_FOR_LOOP_HEAD,
      [Nt NT_var_assign, Tm TOK_SEMICL None, Nt NT_cond, Tm TOK_SEMICL None, Nt NT_var_assign])]"

definition prods_loop :: "production list" where
  "prods_loop =
    [(AST_LOOP,
      [Tm TOK_WHILE None, Tm TOK_OPENPA None, Nt NT_cond, Tm TOK_CLOSEPA None,
       Tm TOK_OPENBR None, Nt NT_sequence, Tm TOK_CLOSEBR None]),
     (AST_LOOP,
      [Tm TOK_FOR None, Tm TOK_OPENPA None, Nt NT_for_loop_head, Tm TOK_CLOSEPA None,
       Tm TOK_OPENBR None, Nt NT_sequence, Tm TOK_CLOSEBR None]),
     (AST_LOOP,
      [Tm TOK_DO None, Tm TOK_OPENBR None, Nt NT_sequence, Tm TOK_CLOSEBR None,
       Tm TOK_WHILE None, Tm TOK_OPENPA None, Nt NT_cond, Tm TOK_CLOSEPA None, Tm TOK_SEMICL None])]"

definition prods_fcall_arglist :: "production list" where
  "prods_fcall_arglist =
    [(AST_FCALL_ARGLIST, [Nt NT_expr, Tm TOK_COMMA None, Nt NT_fcall_arglist]),
     (AST_FCALL_ARGLIST, [Nt NT_expr])]"

definition prods_ret_fcall :: "production list" where
  "prods_ret_fcall =
    [(AST_RET_FCALL,
      [Tm TOK_IDENTIFIER (Some create_identifier), Tm TOK_OPENPA None, Nt NT_fcall_arglist, Tm TOK_CLOSEPA None])]"

definition prods_fcall :: "production list" where
  "prods_fcall =
    [(AST_FCALL,
      [Tm TOK_IDENTIFIER (Some create_identifier), Tm TOK_OPENPA None, Nt NT_fcall_arglist, Tm TOK_CLOSEPA None])]"

definition prods_argdef :: "production list" where
  "prods_argdef = [(AST_ARGDEF, [Nt NT_type, Tm TOK_IDENTIFIER (Some create_identifier)])]"

definition prods_argdeflist :: "production list" where
  "prods_argdeflist =
    [(AST_ARGDEFLIST, [Nt NT_argdef, Tm TOK_COMMA None, Nt NT_argdeflist]),
     (AST_ARGDEFLIST, [Nt NT_argdef]),
     (AST_ARGDEFLIST, [Tm TOK_VOID None])]"

definition prods_func :: "production list" where
  "prods_func =
    [(AST_FUNCTION,
      [Nt NT_type, Tm TOK_IDENTIFIER (Some create_identifier), Tm TOK_OPENPA None, Nt NT_argdeflist,
       Tm TOK_CLOSEPA None, Tm TOK_OPENBR None, Nt NT_sequence, Tm TOK_CLOSEBR None]),
     (AST_FUNCTION_PROTO,
      [Nt NT_type, Tm TOK_IDENTIFIER (Some create_identifier), Tm TOK_OPENPA None, Nt NT_argdeflist,
       Tm TOK_CLOSEPA None, Tm TOK_SEMICL None])]"

definition prods_program :: "production list" where
  "prods_program = [(AST_INNER, [Nt NT_func, Nt NT_program])]"

fun prods :: "nonterm \<Rightarrow> production list" where
  "prods NT_type = prods_type"
| "prods NT_var_def = prods_var_def"
| "prods NT_var_assign = prods_var_assign"
| "prods NT_print = prods_print"
| "prods NT_return = prods_return"
| "prods NT_expr = prods_expr"
| "prods NT_expr1 = prods_expr1"
| "prods NT_cond = prods_cond"
| "prods NT_numop = prods_numop"
| "prods NT_boolop = prods_boolop"
| "prods NT_statement = prods_statement"
| "prods NT_sequence = prods_sequence"
| "prods NT_branch = prods_branch"
| "prods NT_for_loop_head = prods_for_loop_head"
| "prods NT_loop = prods_loop"
| "prods NT_fcall_arglist = prods_fcall_arglist"
| "prods NT_fcall = prods_fcall"
| "prods NT_ret_fcall = prods_ret_fcall"
| "prods NT_argdef = prods_argdef"
| "prods NT_argdeflist = prods_argdeflist"
| "prods NT_func = prods_func"
| "prods NT_program = prods_program"

text \<open>The check functions that end with \<open>return create_empty()\<close> instead of \<open>return NULL\<close>.\<close>

fun accepts_empty :: "nonterm \<Rightarrow> bool" where
  "accepts_empty NT_sequence = True"
| "accepts_empty NT_fcall_arglist = True"
| "accepts_empty NT_program = True"
| "accepts_empty _ = False"

section \<open>The engine\<close>

record pstate =
  ps_token :: "token list"
  ps_ast :: ast_state

type_synonym checker = "nonterm \<Rightarrow> pstate \<Rightarrow> (node \<times> pstate) outcome"

text \<open>
  The loop of \<open>match_prod\<close>: the children so far, then what is left of the production.
  None is a mismatch.
\<close>

fun match_syms :: "checker \<Rightarrow> sym list \<Rightarrow> node list \<Rightarrow> pstate \<Rightarrow> (node list option \<times> pstate) outcome" where
  "match_syms chk [] children s = Ret (Some children, s)"
| "match_syms chk (Tm ty create # syms) children s =
     (case ps_token s of
        [] \<Rightarrow> Ret (None, s)
      | tok # rest \<Rightarrow>
          (let s1 = s\<lparr>ps_token := rest\<rparr>
           in if tok_type tok \<noteq> ty then Ret (None, s1)
              else (case create of
                      None \<Rightarrow> match_syms chk syms children s1
                    | Some f \<Rightarrow>
                        obind (f tok) (\<lambda>node. match_syms chk syms (children @ [node]) s1))))"
| "match_syms chk (Nt nt # syms) children s =
     (if ps_token s = [] then Ret (None, s)
      else obind (chk nt s) (\<lambda>(node, s1).
        if node = NULL_NODE then Ret (None, s1)
        else match_syms chk syms (children @ [node]) s1))"

definition match_prod :: "checker \<Rightarrow> ast_type \<Rightarrow> sym list \<Rightarrow> pstate \<Rightarrow> (node \<times> pstate) outcome" where
  "match_prod chk type syms s =
     obind (match_syms chk syms [] s) (\<lambda>(matching, s1).
       case matching of
         None \<Rightarrow> Ret (NULL_NODE, s1)
       | Some children \<Rightarrow>
           obind (create_node type children (ps_ast s1)) (\<lambda>(res, a).
             Ret (res, s1\<lparr>ps_ast := a\<rparr>)))"

text \<open>The chain of \<open>TRY_MATCHING\<close>: after a failed production the token pointer is reset.\<close>

fun try_matching :: "checker \<Rightarrow> production list \<Rightarrow> token list \<Rightarrow> pstate \<Rightarrow> (node \<times> pstate) outcome" where
  "try_matching chk [] token_saved s = Ret (NULL_NODE, s)"
| "try_matching chk ((type, syms) # ps) token_saved s =
     obind (match_prod chk type syms s) (\<lambda>(node, s1).
       if node \<noteq> NULL_NODE then Ret (node, s1)
       else try_matching chk ps token_saved (s1\<lparr>ps_token := token_saved\<rparr>))"

text \<open>The body shared by the \<open>check_\<close> functions; \<open>check_func\<close> first resets \<open>max_arg_count\<close>.\<close>

definition check_body :: "checker \<Rightarrow> checker" where
  "check_body chk nt s =
     (let s0 = (if nt = NT_func then s\<lparr>ps_ast := set_max_arg_count 0 (ps_ast s)\<rparr> else s)
      in obind (try_matching chk (prods nt) (ps_token s) s0) (\<lambda>(node, s1).
           if node \<noteq> NULL_NODE then Ret (node, s1)
           else if accepts_empty nt then Ret (create_empty, s1)
           else Ret (NULL_NODE, s1)))"

primrec check :: "nat \<Rightarrow> checker" where
  "check 0 = (\<lambda>nt s. No_Fuel)"
| "check (Suc n) = check_body (check n)"

definition check_start :: "nat \<Rightarrow> pstate \<Rightarrow> (node \<times> pstate) outcome" where
  "check_start fuel s = match_prod (check fuel) AST_HEAD [Nt NT_program, Tm TOK_EOF None] s"

text \<open>Calls nest at most this deep; Parser_Proofs shows that it is enough.\<close>

definition parse_fuel :: "token list \<Rightarrow> nat" where
  "parse_fuel ts = 4 * (length ts + 1)"

definition parse_tokenlist :: "token list \<Rightarrow> (node \<times> ast_state) outcome" where
  "parse_tokenlist first =
     obind (check_start (parse_fuel first) \<lparr>ps_token = first, ps_ast = initial_ast_state\<rparr>)
       (\<lambda>(node, s). Ret (node, ps_ast s))"

end
