(* ===== verification/Generator.thy ===== *)
theory Generator
  imports Parser Instructions
begin

text \<open>
  compiler/generator.c: code generation from the tree with back-patched jumps
  (\<open>generate_helper\<close>), and the output buffer (\<open>build_codebuf\<close>). The doubly linked
  code list is a list in program order, a pointer into it an index, \<open>current\<close> its last
  element. The statics of generator.c are the state record; the symbol table is part of it
  because AST_FUNCTION writes \<open>addr\<close>. \<open>malloc\<close> succeeds.
\<close>

section \<open>State\<close>

record code_elem =
  ce_instr :: instr_type
  ce_arg :: u32

abbreviation elem :: "instr_type \<Rightarrow> u32 \<Rightarrow> code_elem" where
  "elem i a \<equiv> \<lparr>ce_instr = i, ce_arg = a\<rparr>"

text \<open>\<open>gs_junk\<close> is what an uninitialised \<open>addr\<close> field reads as.\<close>

record gstate =
  gs_error :: bool
  gs_size :: nat
  gs_code :: "code_elem list"
  gs_current_func :: "string option"
  gs_symbols :: symbols
  gs_junk :: u32

definition initial_gstate :: "symbols \<Rightarrow> u32 \<Rightarrow> gstate" where
  "initial_gstate syms junk =
     \<lparr>gs_error = False, gs_size = 0, gs_code = [], gs_current_func = None,
      gs_symbols = syms, gs_junk = junk\<rparr>"

section \<open>Helpers\<close>

fun boolop_to_jmp_instr :: "token_type \<Rightarrow> instr_type" where
  "boolop_to_jmp_instr TOK_EQEQ = INSTR_JEQ"
| "boolop_to_jmp_instr TOK_NEQ = INSTR_JNE"
| "boolop_to_jmp_instr TOK_GT = INSTR_JG"
| "boolop_to_jmp_instr TOK_LT = INSTR_JL"
| "boolop_to_jmp_instr TOK_GE = INSTR_JGE"
| "boolop_to_jmp_instr TOK_LE = INSTR_JLE"
| "boolop_to_jmp_instr _ = INSTR_NOP"

fun neg_jmp_instr :: "instr_type \<Rightarrow> instr_type" where
  "neg_jmp_instr INSTR_JEQ = INSTR_JNE"
| "neg_jmp_instr INSTR_JNE = INSTR_JEQ"
| "neg_jmp_instr INSTR_JG = INSTR_JLE"
| "neg_jmp_instr INSTR_JL = INSTR_JGE"
| "neg_jmp_instr INSTR_JGE = INSTR_JL"
| "neg_jmp_instr INSTR_JLE = INSTR_JG"
| "neg_jmp_instr _ = INSTR_NOP"

text \<open>\<open>push_elem\<close>; the pointer it returns is the index \<open>length (gs_code g)\<close>.\<close>

definition push_elem :: "instr_type \<Rightarrow> u32 \<Rightarrow> gstate \<Rightarrow> gstate" where
  "push_elem instr arg g =
     g\<lparr>gs_code := gs_code g @ [elem instr arg],
       gs_size := gs_size g + 1 + (if has_arg instr then 1 else 0)\<rparr>"

definition frame_size :: "func_info \<Rightarrow> nat" where
  "frame_size func = fi_var_count func + fi_max_call_size func"

definition push_func_prolog :: "func_info \<Rightarrow> gstate \<Rightarrow> gstate" where
  "push_func_prolog func g =
     (if frame_size func > 0 then push_elem INSTR_PROLOG (of_nat (frame_size func)) g else g)"

definition push_func_epilog :: "func_info \<Rightarrow> gstate \<Rightarrow> gstate" where
  "push_func_epilog func g =
     (if frame_size func > 0 then push_elem INSTR_EPILOG (of_nat (frame_size func)) g else g)"

text \<open>Writes through code pointers.\<close>

definition set_arg :: "nat \<Rightarrow> u32 \<Rightarrow> gstate \<Rightarrow> gstate" where
  "set_arg i a g = g\<lparr>gs_code := (gs_code g)[i := (gs_code g ! i)\<lparr>ce_arg := a\<rparr>]\<rparr>"

definition set_instr :: "nat \<Rightarrow> instr_type \<Rightarrow> gstate \<Rightarrow> gstate" where
  "set_instr i t g = g\<lparr>gs_code := (gs_code g)[i := (gs_code g ! i)\<lparr>ce_instr := t\<rparr>]\<rparr>"

text \<open>\<open>current\<close>, NULL before the first element.\<close>

definition current_elem :: "gstate \<Rightarrow> nat outcome" where
  "current_elem g = (if gs_code g = [] then Segfault else Ret (length (gs_code g) - 1))"

text \<open>Reads through the \<open>func\<close> and \<open>var\<close> pointers of a node.\<close>

definition node_func :: "node_val \<Rightarrow> gstate \<Rightarrow> func_info outcome" where
  "node_func v g =
     (case v of Val_Func f \<Rightarrow> (case get_func f (gs_symbols g) of Some func \<Rightarrow> Ret func | None \<Rightarrow> Segfault)
      | _ \<Rightarrow> Segfault)"

definition node_var :: "node_val \<Rightarrow> gstate \<Rightarrow> var_info outcome" where
  "node_var v g =
     (case v of
        Val_Var f x \<Rightarrow>
          (case get_func f (gs_symbols g) of
             Some func \<Rightarrow> (case get_var x func of Some var \<Rightarrow> Ret var | None \<Rightarrow> Segfault)
           | None \<Rightarrow> Segfault)
      | _ \<Rightarrow> Segfault)"

definition current_func :: "gstate \<Rightarrow> func_info outcome" where
  "current_func g =
     (case gs_current_func g of
        Some f \<Rightarrow> (case get_func f (gs_symbols g) of Some func \<Rightarrow> Ret func | None \<Rightarrow> Segfault)
      | None \<Rightarrow> Segfault)"

definition func_addr :: "func_info \<Rightarrow> gstate \<Rightarrow> u32" where
  "func_addr func g = (case fi_addr func of Some a \<Rightarrow> of_nat a | None \<Rightarrow> gs_junk g)"

definition set_func_addr :: "string \<Rightarrow> nat \<Rightarrow> gstate \<Rightarrow> gstate" where
  "set_func_addr f a g = g\<lparr>gs_symbols := update_func f (\<lambda>func. func\<lparr>fi_addr := Some a\<rparr>) (gs_symbols g)\<rparr>"

fun push_stores :: "nat \<Rightarrow> gstate \<Rightarrow> gstate" where
  "push_stores 0 g = g"
| "push_stores (Suc i) g = push_stores i (push_elem INSTR_STORE (of_nat i) g)"

definition push_argloads :: "nat \<Rightarrow> gstate \<Rightarrow> gstate" where
  "push_argloads n g = foldl (\<lambda>g i. push_elem INSTR_ARGLOAD (of_nat i) g) g [0..<n]"

text \<open>The code of a call after its arguments.\<close>

definition push_fcall :: "func_info \<Rightarrow> gstate \<Rightarrow> gstate" where
  "push_fcall func g = push_elem INSTR_CALL (func_addr func g) (push_stores (fi_arg_count func) g)"

text \<open>The end of a function: epilog and return, unless the last instruction is a return.\<close>

definition end_function :: "gstate \<Rightarrow> gstate outcome" where
  "end_function g =
     obind (current_elem g) (\<lambda>cur.
       if ce_instr (gs_code g ! cur) \<noteq> INSTR_RET then
         obind (current_func g) (\<lambda>func. Ret (push_elem INSTR_RET 0 (push_func_epilog func g)))
       else Ret g)"

text \<open>The code before the entry call: room for the program arguments, and their loads.\<close>

definition push_entry :: "nat \<Rightarrow> gstate \<Rightarrow> gstate" where
  "push_entry argc g =
     push_argloads argc (if argc > 0 then push_elem INSTR_PROLOG (of_nat argc) g else g)"

definition push_numop :: "token_type \<Rightarrow> gstate \<Rightarrow> gstate" where
  "push_numop ty g =
     (if ty = TOK_PLUS then push_elem INSTR_ADD 0 g
      else if ty = TOK_MINUS then push_elem INSTR_SUB 0 g
      else if ty = TOK_STAR then push_elem INSTR_MUL 0 g
      else if ty = TOK_SLASH then push_elem INSTR_DIV 0 g
      else if ty = TOK_PERCENT then push_elem INSTR_MOD 0 g
      else g)"

section \<open>generate_helper\<close>

fun node_type :: "node \<Rightarrow> ast_type option" where
  "node_type NULL_NODE = None"
| "node_type (Node t v l m r) = Some t"

text \<open>The three kinds of loop, told apart by the type of the left child.\<close>

datatype loop_kind = While_Loop | For_Loop | Do_While_Loop

definition loop_type :: "node \<Rightarrow> loop_kind outcome" where
  "loop_type l =
     (case node_type l of
        None \<Rightarrow> Segfault
      | Some t \<Rightarrow>
          Ret (if t = AST_CONDITION then While_Loop
               else if t = AST_FOR_LOOP_HEAD then For_Loop
               else Do_While_Loop))"

text \<open>The children of a for-loop head: initialisation, condition, increment.\<close>

fun sub_left :: "node \<Rightarrow> node" where
  "sub_left NULL_NODE = NULL_NODE"
| "sub_left (Node t v l m r) = l"

fun sub_middle :: "node \<Rightarrow> node" where
  "sub_middle NULL_NODE = NULL_NODE"
| "sub_middle (Node t v l m r) = m"

fun sub_right :: "node \<Rightarrow> node" where
  "sub_right NULL_NODE = NULL_NODE"
| "sub_right (Node t v l m r) = r"

lemma sub_size [termination_simp]:
  "size (sub_left n) \<le> size n" "size (sub_middle n) \<le> size n" "size (sub_right n) \<le> size n"
  by (cases n; simp)+

function (sequential) generate_helper :: "node \<Rightarrow> gstate \<Rightarrow> gstate outcome" where
  "generate_helper NULL_NODE g = Ret g"
| "generate_helper (Node t v l m r) g =
    (case t of
       AST_EMPTY \<Rightarrow> Ret g
     | AST_IDENTIFIER \<Rightarrow>
         obind (node_var v g) (\<lambda>var. Ret (push_elem INSTR_LOAD (of_nat (vi_pos var)) g))
     | AST_INTLITERAL \<Rightarrow>
         (case v of Val_Number n \<Rightarrow> Ret (push_elem INSTR_PUSH n g) | _ \<Rightarrow> Segfault)
     | AST_VAR_DEF \<Rightarrow>
         (if l \<noteq> NULL_NODE then
            obind (generate_helper l g) (\<lambda>g1. obind (node_var v g1) (\<lambda>var.
              Ret (push_elem INSTR_STORE (of_nat (vi_pos var)) g1)))
          else Ret g)
     | AST_VAR_ASSIGN \<Rightarrow>
         (if l \<noteq> NULL_NODE then
            obind (generate_helper l g) (\<lambda>g1. obind (node_var v g1) (\<lambda>var.
              Ret (push_elem INSTR_STORE (of_nat (vi_pos var)) g1)))
          else Ret g)
     | AST_PRINT \<Rightarrow>
         obind (generate_helper l g) (\<lambda>g1. Ret (push_elem INSTR_PRINT 0 g1))
     | AST_RETURN \<Rightarrow>
         obind (generate_helper l g) (\<lambda>g1. obind (current_func g1) (\<lambda>func.
           Ret (push_elem INSTR_RET 0 (push_func_epilog func g1))))
     | AST_EXPRESSION \<Rightarrow>
         obind (generate_helper l g) (\<lambda>g1. obind (generate_helper r g1) (\<lambda>g2. generate_helper m g2))
     | AST_NUMOP_LEAF \<Rightarrow>
         (case v of Val_Type ty \<Rightarrow> Ret (push_numop ty g) | _ \<Rightarrow> Segfault)
     | AST_BOOLOP_LEAF \<Rightarrow>
         (case v of Val_Type ty \<Rightarrow> Ret (push_elem (boolop_to_jmp_instr ty) 0 g) | _ \<Rightarrow> Segfault)
     | AST_CONDITION \<Rightarrow>
         obind (generate_helper l g) (\<lambda>g1. obind (generate_helper r g1) (\<lambda>g2. generate_helper m g2))
     | AST_BRANCH \<Rightarrow>
         obind (generate_helper l g) (\<lambda>g1. obind (current_elem g1) (\<lambda>cmp_instr.
         let g2 = set_instr cmp_instr (neg_jmp_instr (ce_instr (gs_code g1 ! cmp_instr))) g1
         in obind (generate_helper m g2) (\<lambda>g3.
           let jmp_instr = length (gs_code g3);
               g4 = (if r \<noteq> NULL_NODE then push_elem INSTR_JMP 0 g3 else g3);
               g5 = set_arg cmp_instr (of_nat (gs_size g4)) g4
           in if r \<noteq> NULL_NODE then
                obind (generate_helper r g5) (\<lambda>g6. Ret (set_arg jmp_instr (of_nat (gs_size g6)) g6))
              else Ret g5)))
     | AST_LOOP \<Rightarrow>
         obind (loop_type l) (\<lambda>kind.
         let loop_condition = (case kind of While_Loop \<Rightarrow> l | For_Loop \<Rightarrow> sub_middle l | Do_While_Loop \<Rightarrow> m);
             loop_body = (case kind of Do_While_Loop \<Rightarrow> l | _ \<Rightarrow> m)
         in obind (if kind = For_Loop then generate_helper (sub_left l) g else Ret g) (\<lambda>g1.
         let forward_jmp_instr = length (gs_code g1);
             g2 = (if kind \<noteq> Do_While_Loop then push_elem INSTR_JMP 0 g1 else g1);
             back_jmp_target = gs_size g2
         in obind (generate_helper loop_body g2) (\<lambda>g3.
            obind (if kind = For_Loop then generate_helper (sub_right l) g3 else Ret g3) (\<lambda>g4.
            let g5 = (if kind \<noteq> Do_While_Loop then set_arg forward_jmp_instr (of_nat (gs_size g4)) g4 else g4)
            in obind (generate_helper loop_condition g5) (\<lambda>g6.
               obind (current_elem g6) (\<lambda>cur. Ret (set_arg cur (of_nat back_jmp_target) g6)))))))
     | AST_FCALL \<Rightarrow>
         obind (generate_helper l g) (\<lambda>g1. obind (node_func v g1) (\<lambda>func.
           Ret (push_fcall func g1)))
     | AST_RET_FCALL \<Rightarrow>
         obind (generate_helper l g) (\<lambda>g1. obind (node_func v g1) (\<lambda>func.
           Ret (push_fcall func g1)))
     | AST_FUNCTION \<Rightarrow>
         obind (node_func v g) (\<lambda>func0.
         let g1 = set_func_addr (fi_name func0) (gs_size g) (g\<lparr>gs_current_func := Some (fi_name func0)\<rparr>)
         in obind (current_func g1) (\<lambda>func.
            obind (generate_helper l (push_func_prolog func g1)) (\<lambda>g2.
            end_function g2)))
     | AST_HEAD \<Rightarrow>
         (case get_func ''main'' (gs_symbols g) of
            None \<Rightarrow> Ret (g\<lparr>gs_error := True\<rparr>)
          | Some main_func \<Rightarrow>
              let g2 = push_entry (fi_arg_count main_func) g;
                  entry_point = length (gs_code g2);
                  g3 = push_elem INSTR_FINISH 0 (push_elem INSTR_CALL 0 g2)
              in obind (generate_helper l g3) (\<lambda>g4.
                 obind (node_func (Val_Func ''main'') g4) (\<lambda>main'.
                 Ret (set_arg entry_point (func_addr main' g4) g4))))
     | _ \<Rightarrow>
         obind (generate_helper l g) (\<lambda>g1. obind (generate_helper m g1) (\<lambda>g2. generate_helper r g2)))"
  by pat_completeness auto

termination generate_helper
proof (relation "measure (\<lambda>(n, g). size n)", goal_cases)
  case 1
  show ?case by simp
qed (auto simp: sub_size less_Suc_eq_le le_SucI add_increasing2 split: loop_kind.splits
    intro: le_trans [OF sub_size(1)] le_trans [OF sub_size(2)] le_trans [OF sub_size(3)])

definition generate_code :: "node \<Rightarrow> symbols \<Rightarrow> u32 \<Rightarrow> code_elem list option outcome" where
  "generate_code head syms junk =
     obind (generate_helper head (initial_gstate syms junk)) (\<lambda>g.
       Ret (if gs_error g then None else Some (gs_code g)))"

section \<open>build_codebuf\<close>

definition elem_size :: "code_elem \<Rightarrow> nat" where
  "elem_size e = 1 + (if has_arg (ce_instr e) then 1 else 0)"

definition code_size :: "code_elem list \<Rightarrow> nat" where
  "code_size code = sum_list (map elem_size code)"

definition elem_words :: "code_elem \<Rightarrow> u32 list" where
  "elem_words e = opcode (ce_instr e) # (if has_arg (ce_instr e) then [ce_arg e] else [])"

definition code_words :: "code_elem list \<Rightarrow> u32 list" where
  "code_words code = concat (map elem_words code)"

definition codebuf_size :: "code_elem list \<Rightarrow> bool \<Rightarrow> nat" where
  "codebuf_size code unencrypted =
     (let size = code_size code; buf_size = size + (4 - size mod 4)
      in if unencrypted then buf_size else buf_size + 4)"

text \<open>
  \<open>rnd i\<close> is the i-th word that \<open>write_random_bytes\<close> puts into the buffer; the reads of
  /dev/urandom succeed. \<open>*len\<close> is the length of the result.
\<close>

definition build_codebuf :: "(nat \<Rightarrow> u32) \<Rightarrow> code_elem list \<Rightarrow> bool \<Rightarrow> u32 list" where
  "build_codebuf rnd code unencrypted =
     (let buf_size = codebuf_size code unencrypted;
          iv = (if unencrypted then [] else map rnd [0..<4]);
          buf = iv @ code_words code @ [opcode INSTR_FINISH]
      in buf @ map rnd [length buf..<buf_size])"

end
