(* ===== verification/Codegen.thy ===== *)
theory Codegen
  imports Generator
begin

text \<open>
  What \<open>generate_helper\<close> generates, without state: \<open>comp\<close> is a compositional compiler from
  trees to code that knows every jump target when it emits the jump, because it is given the
  address its code starts at. The generator's back-patching over its code list is shown to
  produce this code on every tree of the shape the parser builds.
\<close>

section \<open>Emitting\<close>

definition emit :: "code_elem list \<Rightarrow> gstate \<Rightarrow> gstate" where
  "emit code g = g\<lparr>gs_code := gs_code g @ code, gs_size := gs_size g + code_size code\<rparr>"

lemma code_size_simps [simp]:
  "code_size [] = 0" "code_size (e # code) = elem_size e + code_size code"
  "code_size (xs @ ys) = code_size xs + code_size ys"
  by (simp_all add: code_size_def)

lemma emit_simps [simp]:
  "gs_code (emit code g) = gs_code g @ code" "gs_size (emit code g) = gs_size g + code_size code"
  "gs_symbols (emit code g) = gs_symbols g" "gs_current_func (emit code g) = gs_current_func g"
  "gs_error (emit code g) = gs_error g" "gs_junk (emit code g) = gs_junk g"
  by (simp_all add: emit_def)

lemma emit_emit [simp]: "emit ys (emit xs g) = emit (xs @ ys) g"
  by (simp add: emit_def)

lemma emit_Nil [simp]: "emit [] g = g"
  by (simp add: emit_def)

lemma push_elem_emit: "push_elem i a g = emit [elem i a] g"
  by (simp add: push_elem_def emit_def elem_size_def)

lemma set_arg_emit:
  "set_arg (length (gs_code g) + k) a (emit code g) = emit (code[k := (code ! k)\<lparr>ce_arg := a\<rparr>]) g"
  if "k < length code"
proof -
  have "code_size (code[k := (code ! k)\<lparr>ce_arg := a\<rparr>]) = code_size code"
    using that by (induction code arbitrary: k) (auto simp: elem_size_def nth_Cons split: nat.splits)
  then show ?thesis using that by (simp add: set_arg_def emit_def list_update_append nth_append)
qed

lemma length_code_words: "length (code_words code) = code_size code"
  by (induction code) (auto simp: code_words_def elem_words_def elem_size_def)

section \<open>The reference compiler\<close>

text \<open>What a function body needs of the symbol table: slots, argument counts, addresses, frame size.\<close>

record layout =
  la_pos :: "node_val \<Rightarrow> u32"
  la_args :: "node_val \<Rightarrow> nat"
  la_addr :: "node_val \<Rightarrow> u32"
  la_frame :: nat

definition layout_of :: "gstate \<Rightarrow> layout" where
  "layout_of g =
     \<lparr>la_pos = (\<lambda>v. case node_var v g of Ret var \<Rightarrow> of_nat (vi_pos var) | _ \<Rightarrow> 0),
      la_args = (\<lambda>v. case node_func v g of Ret func \<Rightarrow> fi_arg_count func | _ \<Rightarrow> 0),
      la_addr = (\<lambda>v. case node_func v g of Ret func \<Rightarrow> func_addr func g | _ \<Rightarrow> 0),
      la_frame = (case current_func g of Ret func \<Rightarrow> frame_size func | _ \<Rightarrow> 0)\<rparr>"

definition comp_return :: "layout \<Rightarrow> code_elem list" where
  "comp_return ly =
     (if la_frame ly > 0 then [elem INSTR_EPILOG (of_nat (la_frame ly))] else []) @ [elem INSTR_RET 0]"

definition comp_call :: "layout \<Rightarrow> node_val \<Rightarrow> code_elem list" where
  "comp_call ly v = map (\<lambda>i. elem INSTR_STORE (of_nat i)) (rev [0..<la_args ly v]) @ [elem INSTR_CALL (la_addr ly v)]"

definition numop_instr :: "token_type \<Rightarrow> instr_type option" where
  "numop_instr ty =
     (if ty = TOK_PLUS then Some INSTR_ADD else if ty = TOK_MINUS then Some INSTR_SUB
      else if ty = TOK_STAR then Some INSTR_MUL else if ty = TOK_SLASH then Some INSTR_DIV
      else if ty = TOK_PERCENT then Some INSTR_MOD else None)"

text \<open>The condition code ends with its jump: give it a target, negate it.\<close>

definition aim :: "nat \<Rightarrow> code_elem list \<Rightarrow> code_elem list" where
  "aim a code = butlast code @ [(last code)\<lparr>ce_arg := of_nat a\<rparr>]"

definition negated :: "code_elem list \<Rightarrow> code_elem list" where
  "negated code = butlast code @ [(last code)\<lparr>ce_instr := neg_jmp_instr (ce_instr (last code))\<rparr>]"

definition kind_of :: "node \<Rightarrow> loop_kind" where
  "kind_of l = (case loop_type l of Ret k \<Rightarrow> k | _ \<Rightarrow> Do_While_Loop)"

function (sequential) comp :: "layout \<Rightarrow> nat \<Rightarrow> node \<Rightarrow> code_elem list" where
  "comp ly base NULL_NODE = []"
| "comp ly base (Node t v l m r) =
    (case t of
       AST_EMPTY \<Rightarrow> []
     | AST_IDENTIFIER \<Rightarrow> [elem INSTR_LOAD (la_pos ly v)]
     | AST_INTLITERAL \<Rightarrow> (case v of Val_Number n \<Rightarrow> [elem INSTR_PUSH n] | _ \<Rightarrow> [])
     | AST_VAR_DEF \<Rightarrow> (if l = NULL_NODE then [] else comp ly base l @ [elem INSTR_STORE (la_pos ly v)])
     | AST_VAR_ASSIGN \<Rightarrow> (if l = NULL_NODE then [] else comp ly base l @ [elem INSTR_STORE (la_pos ly v)])
     | AST_PRINT \<Rightarrow> comp ly base l @ [elem INSTR_PRINT 0]
     | AST_RETURN \<Rightarrow> comp ly base l @ comp_return ly
     | AST_NUMOP_LEAF \<Rightarrow>
         (case v of Val_Type ty \<Rightarrow> (case numop_instr ty of Some i \<Rightarrow> [elem i 0] | None \<Rightarrow> []) | _ \<Rightarrow> [])
     | AST_BOOLOP_LEAF \<Rightarrow> (case v of Val_Type ty \<Rightarrow> [elem (boolop_to_jmp_instr ty) 0] | _ \<Rightarrow> [])
     | AST_BRANCH \<Rightarrow>
         (let c = comp ly base l;
              b1 = base + code_size c;
              th = comp ly b1 m;
              b2 = b1 + code_size th
          in if r = NULL_NODE then aim b2 (negated c) @ th
             else (let el = comp ly (b2 + 2) r
                   in aim (b2 + 2) (negated c) @ th @ [elem INSTR_JMP (of_nat (b2 + 2 + code_size el))] @ el))
     | AST_LOOP \<Rightarrow>
         (case kind_of l of
            While_Loop \<Rightarrow>
              (let body = comp ly (base + 2) m;
                   b1 = base + 2 + code_size body
               in elem INSTR_JMP (of_nat b1) # body @ aim (base + 2) (comp ly b1 l))
          | For_Loop \<Rightarrow>
              (let init = comp ly base (sub_left l);
                   b0 = base + code_size init + 2;
                   body = comp ly b0 m;
                   inc = comp ly (b0 + code_size body) (sub_right l);
                   b1 = b0 + code_size body + code_size inc
               in init @ elem INSTR_JMP (of_nat b1) # body @ inc @ aim b0 (comp ly b1 (sub_middle l)))
          | Do_While_Loop \<Rightarrow>
              (let body = comp ly base l
               in body @ aim base (comp ly (base + code_size body) m)))
     | AST_FCALL \<Rightarrow> comp ly base l @ comp_call ly v
     | AST_RET_FCALL \<Rightarrow> comp ly base l @ comp_call ly v
     | _ \<Rightarrow>
         (let c1 = comp ly base l;
              second = (if t = AST_EXPRESSION \<or> t = AST_CONDITION then r else m);
              third = (if t = AST_EXPRESSION \<or> t = AST_CONDITION then m else r);
              c2 = comp ly (base + code_size c1) second
          in c1 @ c2 @ comp ly (base + code_size c1 + code_size c2) third))"
  by pat_completeness auto

termination comp
  by (relation "measure (\<lambda>(ly, base, n). size n)")
    (auto simp: sub_size less_Suc_eq_le le_SucI split: loop_kind.splits
      intro: le_trans [OF sub_size(1)] le_trans [OF sub_size(2)] le_trans [OF sub_size(3)])

section \<open>The shape of a function body\<close>

text \<open>A comparison, the only thing that the parser puts under a branch or a loop.\<close>

fun is_boolop :: "node \<Rightarrow> bool" where
  "is_boolop (Node AST_BOOLOP v (Node AST_BOOLOP_LEAF (Val_Type ty) l1 m1 r1) NULL_NODE NULL_NODE) = True"
| "is_boolop _ = False"

fun is_cond :: "node \<Rightarrow> bool" where
  "is_cond (Node AST_CONDITION v l m r) = is_boolop m"
| "is_cond _ = False"

text \<open>\<open>pos_ok v\<close>, \<open>call_ok v\<close>: the variable or function that the node points to is in the table.\<close>

function (sequential) body_ok :: "(node_val \<Rightarrow> bool) \<Rightarrow> (node_val \<Rightarrow> bool) \<Rightarrow> node \<Rightarrow> bool" where
  "body_ok pos_ok call_ok NULL_NODE = True"
| "body_ok pos_ok call_ok (Node t v l m r) =
    (case t of
       AST_EMPTY \<Rightarrow> True
     | AST_IDENTIFIER \<Rightarrow> pos_ok v
     | AST_INTLITERAL \<Rightarrow> (\<exists>n. v = Val_Number n)
     | AST_VAR_DEF \<Rightarrow> l = NULL_NODE \<or> (body_ok pos_ok call_ok l \<and> pos_ok v)
     | AST_VAR_ASSIGN \<Rightarrow> l = NULL_NODE \<or> (body_ok pos_ok call_ok l \<and> pos_ok v)
     | AST_PRINT \<Rightarrow> body_ok pos_ok call_ok l
     | AST_RETURN \<Rightarrow> body_ok pos_ok call_ok l
     | AST_NUMOP_LEAF \<Rightarrow> (\<exists>ty. v = Val_Type ty)
     | AST_BOOLOP_LEAF \<Rightarrow> (\<exists>ty. v = Val_Type ty)
     | AST_BRANCH \<Rightarrow> is_cond l \<and> body_ok pos_ok call_ok l \<and> body_ok pos_ok call_ok m \<and> body_ok pos_ok call_ok r
     | AST_LOOP \<Rightarrow>
         l \<noteq> NULL_NODE \<and>
         (case kind_of l of
            While_Loop \<Rightarrow> is_cond l \<and> body_ok pos_ok call_ok l \<and> body_ok pos_ok call_ok m
          | For_Loop \<Rightarrow> is_cond (sub_middle l) \<and> body_ok pos_ok call_ok (sub_left l) \<and>
              body_ok pos_ok call_ok (sub_middle l) \<and> body_ok pos_ok call_ok (sub_right l) \<and> body_ok pos_ok call_ok m
          | Do_While_Loop \<Rightarrow> is_cond m \<and> body_ok pos_ok call_ok l \<and> body_ok pos_ok call_ok m)
     | AST_FCALL \<Rightarrow> body_ok pos_ok call_ok l \<and> call_ok v
     | AST_RET_FCALL \<Rightarrow> body_ok pos_ok call_ok l \<and> call_ok v
     | AST_FUNCTION \<Rightarrow> False
     | AST_HEAD \<Rightarrow> False
     | _ \<Rightarrow> body_ok pos_ok call_ok l \<and> body_ok pos_ok call_ok m \<and> body_ok pos_ok call_ok r)"
  by pat_completeness auto

termination body_ok
  by (relation "measure (\<lambda>(p, c, n). size n)")
    (auto simp: sub_size less_Suc_eq_le le_SucI split: loop_kind.splits
      intro: le_trans [OF sub_size(1)] le_trans [OF sub_size(2)] le_trans [OF sub_size(3)])

end
