(* ===== verification/Source.thy ===== *)
theory Source
  imports Generator
begin

text \<open>
  The language that the grammar of parser.c describes, as datatypes with one constructor per
  production, the tree that stands for each construct when its function has been registered,
  and what programs mean: an evaluator on the constructs. Operators have no precedence and group
  to the right, as the productions do; arithmetic is on 32-bit words, division without a sign,
  comparisons with one. The evaluator is on a fuel that bounds the depth of its recursion; a
  larger fuel changes no result.
\<close>

section \<open>Constructs\<close>

datatype expr = Single fac | Binop fac token_type expr
  and fac = Call_Fac string args | Var_Fac string | Num_Fac u32 | Paren_Fac expr
  and args = No_Args | Last_Arg expr | Cons_Arg expr args

datatype cond = Cond expr token_type expr

datatype stat =
    Var_Def string "expr option"
  | Var_Assign string expr
  | Call_Stat string args
  | Print_Stat expr
  | Return_Stat "expr option"

datatype item =
    Stat_Item stat
  | If_Item cond "item list"
  | If_Else_Item cond "item list" "item list"
  | While_Item cond "item list"
  | For_Item stat cond stat "item list"
  | Do_Item "item list" cond

section \<open>Trees\<close>

text \<open>The argument \<open>f\<close> is the function whose variables the tree points to.\<close>

abbreviation node1 :: "ast_type \<Rightarrow> node_val \<Rightarrow> node \<Rightarrow> node" where
  "node1 t v l \<equiv> Node t v l NULL_NODE NULL_NODE"

abbreviation leaf :: "ast_type \<Rightarrow> node_val \<Rightarrow> node" where
  "leaf t v \<equiv> Node t v NULL_NODE NULL_NODE NULL_NODE"

definition op_node :: "token_type \<Rightarrow> node" where
  "op_node ty = node1 AST_NUMOP Val_None (leaf AST_NUMOP_LEAF (Val_Type ty))"

definition boolop_node :: "token_type \<Rightarrow> node" where
  "boolop_node ty = node1 AST_BOOLOP Val_None (leaf AST_BOOLOP_LEAF (Val_Type ty))"

fun expr_node :: "string \<Rightarrow> expr \<Rightarrow> node" and fac_node :: "string \<Rightarrow> fac \<Rightarrow> node"
  and args_node :: "string \<Rightarrow> args \<Rightarrow> node" where
  "expr_node f (Single x) = node1 AST_EXPRESSION Val_None (fac_node f x)"
| "expr_node f (Binop x op e) = Node AST_EXPRESSION Val_None (fac_node f x) (op_node op) (expr_node f e)"
| "fac_node f (Call_Fac g es) = node1 AST_EXPRESSION1 Val_None (node1 AST_RET_FCALL (Val_Func g) (args_node f es))"
| "fac_node f (Var_Fac x) = node1 AST_EXPRESSION1 Val_None (leaf AST_IDENTIFIER (Val_Var f x))"
| "fac_node f (Num_Fac n) = node1 AST_EXPRESSION1 Val_None (leaf AST_INTLITERAL (Val_Number n))"
| "fac_node f (Paren_Fac e) = node1 AST_EXPRESSION1 Val_None (expr_node f e)"
| "args_node f No_Args = create_empty"
| "args_node f (Last_Arg e) = node1 AST_FCALL_ARGLIST Val_None (expr_node f e)"
| "args_node f (Cons_Arg e es) = Node AST_FCALL_ARGLIST Val_None (expr_node f e) (args_node f es) NULL_NODE"

fun cond_node :: "string \<Rightarrow> cond \<Rightarrow> node" where
  "cond_node f (Cond e1 op e2) = Node AST_CONDITION Val_None (expr_node f e1) (boolop_node op) (expr_node f e2)"

definition opt_node :: "string \<Rightarrow> expr option \<Rightarrow> node" where
  "opt_node f eo = (case eo of None \<Rightarrow> NULL_NODE | Some e \<Rightarrow> expr_node f e)"

fun stat_node :: "string \<Rightarrow> stat \<Rightarrow> node" where
  "stat_node f (Var_Def x eo) = node1 AST_VAR_DEF (Val_Var f x) (opt_node f eo)"
| "stat_node f (Var_Assign x e) = node1 AST_VAR_ASSIGN (Val_Var f x) (expr_node f e)"
| "stat_node f (Call_Stat g es) = node1 AST_FCALL (Val_Func g) (args_node f es)"
| "stat_node f (Print_Stat e) = node1 AST_PRINT Val_None (expr_node f e)"
| "stat_node f (Return_Stat eo) = node1 AST_RETURN Val_None (opt_node f eo)"

fun item_node :: "string \<Rightarrow> item \<Rightarrow> node" and items_node :: "string \<Rightarrow> item list \<Rightarrow> node" where
  "item_node f (Stat_Item s) = node1 AST_STATEMENT Val_None (stat_node f s)"
| "item_node f (If_Item c is) = Node AST_BRANCH Val_None (cond_node f c) (items_node f is) NULL_NODE"
| "item_node f (If_Else_Item c is js) = Node AST_BRANCH Val_None (cond_node f c) (items_node f is) (items_node f js)"
| "item_node f (While_Item c is) = Node AST_LOOP Val_None (cond_node f c) (items_node f is) NULL_NODE"
| "item_node f (For_Item s c t is) =
     Node AST_LOOP Val_None (Node AST_FOR_LOOP_HEAD Val_None (stat_node f s) (cond_node f c) (stat_node f t))
       (items_node f is) NULL_NODE"
| "item_node f (Do_Item is c) = Node AST_LOOP Val_None (items_node f is) (cond_node f c) NULL_NODE"
| "items_node f [] = create_empty"
| "items_node f (i # is) = Node AST_SEQUENCE Val_None (item_node f i) (items_node f is) NULL_NODE"

lemma items_induct [case_names Stat If If_Else While For Do Nil Cons]:
  assumes "\<And>s. P (Stat_Item s)" "\<And>c is. Q is \<Longrightarrow> P (If_Item c is)"
    "\<And>c is js. Q is \<Longrightarrow> Q js \<Longrightarrow> P (If_Else_Item c is js)" "\<And>c is. Q is \<Longrightarrow> P (While_Item c is)"
    "\<And>s c t is. Q is \<Longrightarrow> P (For_Item s c t is)" "\<And>c is. Q is \<Longrightarrow> P (Do_Item is c)"
    "Q []" "\<And>i is. P i \<Longrightarrow> Q is \<Longrightarrow> Q (i # is)"
  shows "P i" "Q is"
proof -
  show "P i"
    by (rule item_node_items_node.induct(1) [where P = "\<lambda>f. P" and Q = "\<lambda>f. Q"]) (use assms in blast)+
  show "Q is"
    by (rule item_node_items_node.induct(2) [where P = "\<lambda>f. P" and Q = "\<lambda>f. Q"]) (use assms in blast)+
qed

section \<open>Meaning\<close>

text \<open>
  \<open>Stuck\<close> is a program whose result C does not define either: a read of a variable without a
  value, a missing function or return value. \<open>Div_By_Zero\<close> carries what was printed before.
\<close>

datatype 'a sres = Ok 'a | Div_By_Zero "u32 list" | Stuck | Timeout

fun sbind :: "'a sres \<Rightarrow> ('a \<Rightarrow> 'b sres) \<Rightarrow> 'b sres" where
  "sbind (Ok x) f = f x"
| "sbind (Div_By_Zero out) f = Div_By_Zero out"
| "sbind Stuck f = Stuck"
| "sbind Timeout f = Timeout"

lemma sbind_cong [fundef_cong]:
  "m = m' \<Longrightarrow> (\<And>x. m' = Ok x \<Longrightarrow> f x = f' x) \<Longrightarrow> sbind m f = sbind m' f'"
  by (cases m') auto

type_synonym locals = "string \<Rightarrow> u32 option"

text \<open>A function has its parameters in order, whether it returns a value, and its body.\<close>

record func_def =
  fd_params :: "string list"
  fd_void :: bool
  fd_body :: "item list"

type_synonym program = "string \<Rightarrow> func_def option"

text \<open>How a list of items ends, and what the rest of the program sees of it.\<close>

datatype flow = Next locals | Returned "u32 option"

fun numop_value :: "token_type \<Rightarrow> u32 \<Rightarrow> u32 \<Rightarrow> u32 list \<Rightarrow> u32 sres" where
  "numop_value TOK_PLUS x y out = Ok (x + y)"
| "numop_value TOK_MINUS x y out = Ok (x - y)"
| "numop_value TOK_STAR x y out = Ok (x * y)"
| "numop_value TOK_SLASH x y out = (if y = 0 then Div_By_Zero out else Ok (x div y))"
| "numop_value TOK_PERCENT x y out = (if y = 0 then Div_By_Zero out else Ok (x mod y))"
| "numop_value _ x y out = Stuck"

fun boolop_value :: "token_type \<Rightarrow> u32 \<Rightarrow> u32 \<Rightarrow> bool sres" where
  "boolop_value TOK_EQEQ x y = Ok (x = y)"
| "boolop_value TOK_NEQ x y = Ok (x \<noteq> y)"
| "boolop_value TOK_GT x y = Ok (sint x > sint y)"
| "boolop_value TOK_LT x y = Ok (sint x < sint y)"
| "boolop_value TOK_GE x y = Ok (sint x \<ge> sint y)"
| "boolop_value TOK_LE x y = Ok (sint x \<le> sint y)"
| "boolop_value _ x y = Stuck"

text \<open>The arguments of a call are one value for each parameter.\<close>

definition bind_params :: "string list \<Rightarrow> u32 list \<Rightarrow> locals" where
  "bind_params ps vs = map_of (zip ps vs)"

text \<open>The result of a call from the end of the body.\<close>

fun call_result :: "bool \<Rightarrow> flow \<times> u32 list \<Rightarrow> (u32 option \<times> u32 list) sres" where
  "call_result void (Next loc, out) = (if void then Ok (None, out) else Stuck)"
| "call_result void (Returned None, out) = (if void then Ok (None, out) else Stuck)"
| "call_result void (Returned (Some v), out) = (if void then Stuck else Ok (Some v, out))"

text \<open>
  Every argument \<open>out\<close> is what was printed so far; \<open>call\<close> gives the meaning of a call. Only
  items change local variables; a call has its own.
\<close>

type_synonym caller = "string \<Rightarrow> u32 list \<Rightarrow> u32 list \<Rightarrow> (u32 option \<times> u32 list) sres"

fun eval_expr :: "caller \<Rightarrow> expr \<Rightarrow> locals \<Rightarrow> u32 list \<Rightarrow> (u32 \<times> u32 list) sres"
  and eval_fac :: "caller \<Rightarrow> fac \<Rightarrow> locals \<Rightarrow> u32 list \<Rightarrow> (u32 \<times> u32 list) sres"
  and eval_args :: "caller \<Rightarrow> args \<Rightarrow> locals \<Rightarrow> u32 list \<Rightarrow> (u32 list \<times> u32 list) sres" where
  "eval_expr call (Single x) loc out = eval_fac call x loc out"
| "eval_expr call (Binop x op e) loc out =
     sbind (eval_fac call x loc out) (\<lambda>(v, out1).
     sbind (eval_expr call e loc out1) (\<lambda>(w, out2).
     sbind (numop_value op v w out2) (\<lambda>r. Ok (r, out2))))"
| "eval_fac call (Call_Fac g es) loc out =
     sbind (eval_args call es loc out) (\<lambda>(vs, out1).
     sbind (call g vs out1) (\<lambda>(r, out2).
       case r of Some v \<Rightarrow> Ok (v, out2) | None \<Rightarrow> Stuck))"
| "eval_fac call (Var_Fac x) loc out = (case loc x of Some v \<Rightarrow> Ok (v, out) | None \<Rightarrow> Stuck)"
| "eval_fac call (Num_Fac v) loc out = Ok (v, out)"
| "eval_fac call (Paren_Fac e) loc out = eval_expr call e loc out"
| "eval_args call No_Args loc out = Ok ([], out)"
| "eval_args call (Last_Arg e) loc out = sbind (eval_expr call e loc out) (\<lambda>(v, out1). Ok ([v], out1))"
| "eval_args call (Cons_Arg e es) loc out =
     sbind (eval_expr call e loc out) (\<lambda>(v, out1).
     sbind (eval_args call es loc out1) (\<lambda>(vs, out2). Ok (v # vs, out2)))"

fun eval_cond :: "caller \<Rightarrow> cond \<Rightarrow> locals \<Rightarrow> u32 list \<Rightarrow> (bool \<times> u32 list) sres" where
  "eval_cond call (Cond e1 op e2) loc out =
     sbind (eval_expr call e1 loc out) (\<lambda>(v, out1).
     sbind (eval_expr call e2 loc out1) (\<lambda>(w, out2).
     sbind (boolop_value op v w) (\<lambda>b. Ok (b, out2))))"

fun exec_stat :: "caller \<Rightarrow> stat \<Rightarrow> locals \<Rightarrow> u32 list \<Rightarrow> (flow \<times> u32 list) sres" where
  "exec_stat call (Var_Def x None) loc out = Ok (Next loc, out)"
| "exec_stat call (Var_Def x (Some e)) loc out =
     sbind (eval_expr call e loc out) (\<lambda>(v, out1). Ok (Next (loc(x \<mapsto> v)), out1))"
| "exec_stat call (Var_Assign x e) loc out =
     sbind (eval_expr call e loc out) (\<lambda>(v, out1). Ok (Next (loc(x \<mapsto> v)), out1))"
| "exec_stat call (Call_Stat g es) loc out =
     sbind (eval_args call es loc out) (\<lambda>(vs, out1).
     sbind (call g vs out1) (\<lambda>(r, out2). Ok (Next loc, out2)))"
| "exec_stat call (Print_Stat e) loc out =
     sbind (eval_expr call e loc out) (\<lambda>(v, out1). Ok (Next loc, out1 @ [v]))"
| "exec_stat call (Return_Stat None) loc out = Ok (Returned None, out)"
| "exec_stat call (Return_Stat (Some e)) loc out =
     sbind (eval_expr call e loc out) (\<lambda>(v, out1). Ok (Returned (Some v), out1))"

text \<open>Sequencing: a return skips the rest.\<close>

definition then_next :: "(flow \<times> u32 list) sres \<Rightarrow> (locals \<Rightarrow> u32 list \<Rightarrow> (flow \<times> u32 list) sres) \<Rightarrow> (flow \<times> u32 list) sres" where
  "then_next m k =
     sbind m (\<lambda>(fl, out). case fl of Next loc \<Rightarrow> k loc out | Returned r \<Rightarrow> Ok (Returned r, out))"

text \<open>At most \<open>n\<close> turns of a loop that tests its condition first.\<close>

primrec loop_turns ::
  "nat \<Rightarrow> (locals \<Rightarrow> u32 list \<Rightarrow> (bool \<times> u32 list) sres) \<Rightarrow> (locals \<Rightarrow> u32 list \<Rightarrow> (flow \<times> u32 list) sres) \<Rightarrow>
   locals \<Rightarrow> u32 list \<Rightarrow> (flow \<times> u32 list) sres" where
  "loop_turns 0 test body loc out = Timeout"
| "loop_turns (Suc n) test body loc out =
     sbind (test loc out) (\<lambda>(b, out1).
       if b then then_next (body loc out1) (loop_turns n test body) else Ok (Next loc, out1))"

fun exec_item :: "caller \<Rightarrow> nat \<Rightarrow> item \<Rightarrow> locals \<Rightarrow> u32 list \<Rightarrow> (flow \<times> u32 list) sres"
  and exec_items :: "caller \<Rightarrow> nat \<Rightarrow> item list \<Rightarrow> locals \<Rightarrow> u32 list \<Rightarrow> (flow \<times> u32 list) sres" where
  "exec_item call n (Stat_Item s) loc out = exec_stat call s loc out"
| "exec_item call n (If_Item c is) loc out =
     sbind (eval_cond call c loc out) (\<lambda>(b, out1).
       if b then exec_items call n is loc out1 else Ok (Next loc, out1))"
| "exec_item call n (If_Else_Item c is js) loc out =
     sbind (eval_cond call c loc out) (\<lambda>(b, out1).
       if b then exec_items call n is loc out1 else exec_items call n js loc out1)"
| "exec_item call n (While_Item c is) loc out =
     loop_turns n (eval_cond call c) (exec_items call n is) loc out"
| "exec_item call n (For_Item s c t is) loc out =
     then_next (exec_stat call s loc out)
       (loop_turns n (eval_cond call c) (\<lambda>loc out. then_next (exec_items call n is loc out) (exec_stat call t)))"
| "exec_item call n (Do_Item is c) loc out =
     then_next (exec_items call n is loc out) (loop_turns n (eval_cond call c) (exec_items call n is))"
| "exec_items call n [] loc out = Ok (Next loc, out)"
| "exec_items call n (i # is) loc out = then_next (exec_item call n i loc out) (exec_items call n is)"

text \<open>A call with at most \<open>n\<close> nested calls, each of whose loops makes at most \<open>n\<close> turns.\<close>

primrec call_func :: "program \<Rightarrow> nat \<Rightarrow> caller" where
  "call_func P 0 g vs out = Timeout"
| "call_func P (Suc n) g vs out =
     (case P g of
        None \<Rightarrow> Stuck
      | Some fd \<Rightarrow>
          if length vs \<noteq> length (fd_params fd) then Stuck
          else sbind (exec_items (call_func P n) n (fd_body fd) (bind_params (fd_params fd) vs) out)
                 (call_result (fd_void fd)))"

section \<open>More fuel changes no result\<close>

definition refined :: "'a sres \<Rightarrow> 'a sres \<Rightarrow> bool" where
  "refined m m' \<longleftrightarrow> m = Timeout \<or> m = m'"

lemma refined_refl [simp]: "refined m m"
  by (simp add: refined_def)

lemma refined_sbind:
  assumes "refined m m'" "\<And>x. refined (f x) (f' x)"
  shows "refined (sbind m f) (sbind m' f')"
proof (cases m')
  case (Ok x)
  then show ?thesis using assms(1) assms(2) [of x] by (auto simp: refined_def)
qed (use assms(1) in \<open>auto simp: refined_def\<close>)

lemma refined_then_next:
  "refined m m' \<Longrightarrow> (\<And>loc out. refined (k loc out) (k' loc out)) \<Longrightarrow> refined (then_next m k) (then_next m' k')"
  unfolding then_next_def by (rule refined_sbind) (auto split: flow.splits)

definition caller_refined :: "caller \<Rightarrow> caller \<Rightarrow> bool" where
  "caller_refined c c' \<longleftrightarrow> (\<forall>g vs out. refined (c g vs out) (c' g vs out))"

lemma eval_refined:
  assumes "caller_refined c c'"
  shows "refined (eval_expr c e loc out) (eval_expr c' e loc out)"
    and "refined (eval_fac c x loc out) (eval_fac c' x loc out)"
    and "refined (eval_args c es loc out) (eval_args c' es loc out)"
  using assms
  by (induction e and x and es arbitrary: out and out and out)
    (auto simp: caller_refined_def intro!: refined_sbind split: prod.splits option.splits)

lemma eval_cond_refined: "caller_refined c c' \<Longrightarrow> refined (eval_cond c b loc out) (eval_cond c' b loc out)"
  by (cases b) (auto intro!: refined_sbind eval_refined split: prod.splits)

lemma exec_stat_refined: "caller_refined c c' \<Longrightarrow> refined (exec_stat c s loc out) (exec_stat c' s loc out)"
  by (induction c s loc out rule: exec_stat.induct)
    (auto intro!: refined_sbind eval_refined simp: caller_refined_def split: prod.splits)

lemma loop_turns_refined:
  assumes "\<And>loc out. refined (test loc out) (test' loc out)" "\<And>loc out. refined (body loc out) (body' loc out)" "n \<le> n'"
  shows "refined (loop_turns n test body loc out) (loop_turns n' test' body' loc out)"
  using assms(3)
proof (induction n arbitrary: n' loc out)
  case (Suc n)
  then obtain k where "n' = Suc k" "n \<le> k" by (cases n') auto
  then show ?case using Suc.IH assms(1,2) by (auto intro!: refined_sbind refined_then_next split: prod.splits)
qed (simp add: refined_def)

lemma exec_refined:
  assumes "caller_refined c c'" "n \<le> n'"
  shows "refined (exec_item c n i loc out) (exec_item c' n' i loc out)"
    and "refined (exec_items c n is loc out) (exec_items c' n' is loc out)"
  using assms
  by (induction i and "is" arbitrary: loc out and loc out rule: items_induct)
    (auto intro!: refined_sbind refined_then_next loop_turns_refined eval_cond_refined exec_stat_refined split: prod.splits)

lemma call_func_refined: "n \<le> n' \<Longrightarrow> caller_refined (call_func P n) (call_func P n')"
proof (induction n arbitrary: n')
  case (Suc n)
  then obtain k where "n' = Suc k" "n \<le> k" by (cases n') auto
  then show ?case
    using Suc.IH [of k] exec_refined(2) by (auto simp: caller_refined_def intro!: refined_sbind split: option.splits)
qed (simp add: caller_refined_def refined_def)

end
