(* ===== verification/Exec.thy ===== *)
theory Exec
  imports Vm Codegen Source
begin

text \<open>
  Reasoning about runs of the stack machine on code that the generator emitted: where a piece of
  code stands in the code segment, what each instruction does there, and the judgement
  \<open>achieves\<close>, which says that every run from a state reaches the states that belong to the
  result of the source program, or stops because a stack is full.
\<close>

section \<open>States\<close>

text \<open>The print buffer and the position of the next output.\<close>

type_synonym printer = "u32 list \<times> nat"

definition vm_at :: "nat \<Rightarrow> u32 list \<Rightarrow> u32 list \<Rightarrow> printer \<Rightarrow> vm" where
  "vm_at pc S C p = \<lparr>vm_pc = pc, vm_stack = S, vm_call = C, vm_print = fst p, vm_print_pos = snd p\<rparr>"

definition print_word :: "printer \<Rightarrow> u32 \<Rightarrow> printer" where
  "print_word p v = ((fst p)[snd p := v], if snd p + 1 < length (fst p) then snd p + 1 else 0)"

definition printed :: "printer \<Rightarrow> u32 list \<Rightarrow> printer" where
  "printed p out = foldl print_word p out"

lemma printed_simps [simp]: "printed p [] = p" "printed p (out @ [v]) = print_word (printed p out) v"
  by (simp_all add: printed_def)

lemma vm_at_simps [simp]:
  "vm_pc (vm_at pc S C p) = pc" "vm_stack (vm_at pc S C p) = S" "vm_call (vm_at pc S C p) = C"
  "vm_print (vm_at pc S C p) = fst p" "vm_print_pos (vm_at pc S C p) = snd p"
  "(vm_at pc S C p)\<lparr>vm_pc := pc'\<rparr> = vm_at pc' S C p" "(vm_at pc S C p)\<lparr>vm_stack := S'\<rparr> = vm_at pc S' C p"
  "(vm_at pc S C p)\<lparr>vm_call := C'\<rparr> = vm_at pc S C' p"
  by (simp_all add: vm_at_def)

lemma vm_output_at [simp]: "vm_output v (vm_at pc S C p) = vm_at pc S C (print_word p v)"
  by (simp add: vm_output_def vm_at_def print_word_def)

section \<open>Runs\<close>

text \<open>Whatever a step finds above the call stack, the run reaches \<open>Q\<close> or stops with an error in \<open>T\<close>.\<close>

inductive leads :: "vm_env \<Rightarrow> (u8 \<Rightarrow> vm \<Rightarrow> bool) \<Rightarrow> (vm \<Rightarrow> bool) \<Rightarrow> vm \<Rightarrow> bool" for ve T Q where
  here: "Q a \<Longrightarrow> leads ve T Q a"
| move: "(\<And>junk. (\<exists>b. vm_step junk ve a = Running b \<and> leads ve T Q b) \<or>
    (\<exists>c b. vm_step junk ve a = Trap c b \<and> T c b)) \<Longrightarrow> leads ve T Q a"

lemma leads_trans:
  assumes "leads ve T Q a" "\<And>b. Q b \<Longrightarrow> leads ve T' R b" "\<And>c b. T c b \<Longrightarrow> T' c b"
  shows "leads ve T' R a"
  using assms(1)
proof induction
  case (here a)
  then show ?case by (rule assms(2))
next
  case (move a)
  then show ?case using assms(3) by (intro leads.move) blast
qed

lemma leads_run:
  assumes "leads ve T Q a"
  shows "\<exists>n. (\<exists>b. vm_run junk ve n a = Running b \<and> Q b) \<or> (\<exists>c b. vm_run junk ve n a = Trap c b \<and> T c b)"
  using assms
proof (induction arbitrary: junk)
  case (here a)
  then show ?case by (intro exI [of _ 0]) simp
next
  case (move a)
  from move [of "junk 0"] show ?case
  proof (elim disjE exE conjE)
    fix b
    assume step: "vm_step (junk 0) ve a = Running b"
      and IH: "\<forall>x. \<exists>n. (\<exists>b'. vm_run x ve n b = Running b' \<and> Q b') \<or> (\<exists>c b'. vm_run x ve n b = Trap c b' \<and> T c b')"
    from IH obtain n where "(\<exists>b'. vm_run (\<lambda>k. junk (k + 1)) ve n b = Running b' \<and> Q b') \<or>
        (\<exists>c b'. vm_run (\<lambda>k. junk (k + 1)) ve n b = Trap c b' \<and> T c b')" by blast
    then show ?thesis using step by (intro exI [of _ "Suc n"]) simp
  next
    fix c b
    assume "vm_step (junk 0) ve a = Trap c b" "T c b"
    then show ?thesis by (intro exI [of _ "Suc 0"]) simp
  qed
qed

definition overflow :: "u8 \<Rightarrow> vm \<Rightarrow> bool" where
  "overflow c b \<longleftrightarrow> c = ERR_STACK_OVERFLOW \<or> c = ERR_CALL_OVERFLOW"

text \<open>A division by zero is reported, with the output that was printed before it.\<close>

definition div_stop :: "printer \<Rightarrow> u32 list \<Rightarrow> u8 \<Rightarrow> vm \<Rightarrow> bool" where
  "div_stop p out c b \<longleftrightarrow> overflow c b \<or> (c = ERR_DIV_ZERO \<and> (vm_print b, vm_print_pos b) = printed p out)"

definition achieves :: "vm_env \<Rightarrow> printer \<Rightarrow> 'a sres \<Rightarrow> ('a \<Rightarrow> vm \<Rightarrow> bool) \<Rightarrow> vm \<Rightarrow> bool" where
  "achieves ve p r Q a =
     (case r of
        Ok x \<Rightarrow> leads ve overflow (Q x) a
      | Div_By_Zero out \<Rightarrow> leads ve (div_stop p out) (\<lambda>b. False) a
      | Stuck \<Rightarrow> True
      | Timeout \<Rightarrow> True)"

lemma achieves_simps [simp]:
  "achieves ve p (Ok x) Q a = leads ve overflow (Q x) a"
  "achieves ve p (Div_By_Zero out) Q a = leads ve (div_stop p out) (\<lambda>b. False) a"
  "achieves ve p Stuck Q a" "achieves ve p Timeout Q a"
  by (simp_all add: achieves_def)

lemma achieves_after:
  assumes "leads ve overflow (achieves ve p r Q) a"
  shows "achieves ve p r Q a"
proof (cases r)
  case (Ok x)
  show ?thesis using leads_trans [OF assms, of overflow "Q x"] by (simp add: Ok)
next
  case (Div_By_Zero out)
  show ?thesis
    using leads_trans [OF assms, of "div_stop p out" "\<lambda>b. False"] by (simp add: Div_By_Zero div_stop_def)
qed simp_all

lemma achieves_bind:
  assumes "achieves ve p r Q a" "\<And>x b. r = Ok x \<Longrightarrow> Q x b \<Longrightarrow> achieves ve p (f x) R b"
  shows "achieves ve p (sbind r f) R a"
proof (cases r)
  case (Ok x)
  have "achieves ve p (f x) R a"
    by (rule achieves_after, rule leads_trans [where Q = "Q x" and T = overflow])
      (use assms Ok in \<open>auto intro: leads.here\<close>)
  with Ok show ?thesis by simp
qed (use assms in auto)

lemma achieves_bind2:
  assumes "achieves ve p r (\<lambda>(x, out). Q x out) a"
    and "\<And>x out b. r = Ok (x, out) \<Longrightarrow> Q x out b \<Longrightarrow> achieves ve p (f x out) R b"
  shows "achieves ve p (sbind r (\<lambda>(x, out). f x out)) R a"
  by (rule achieves_bind [OF assms(1)]) (use assms(2) in \<open>auto split: prod.splits\<close>)

lemma achieves_mono:
  assumes "achieves ve p r Q a" "\<And>x b. r = Ok x \<Longrightarrow> Q x b \<Longrightarrow> R x b"
  shows "achieves ve p r R a"
proof (cases r)
  case (Ok x)
  then show ?thesis using assms leads_trans [of ve overflow "Q x" a overflow "R x"] by (auto intro: leads.here)
qed (use assms in auto)

section \<open>Code in the code segment\<close>

definition code_in :: "u32 list \<Rightarrow> nat \<Rightarrow> code_elem list \<Rightarrow> bool" where
  "code_in W base code \<longleftrightarrow>
     base + code_size code < length W \<and> take (code_size code) (drop base W) = code_words code"

lemma code_words_append [simp]: "code_words (xs @ ys) = code_words xs @ code_words ys"
  by (simp add: code_words_def)

lemma code_in_append: "code_in W base (xs @ ys) \<longleftrightarrow> code_in W base xs \<and> code_in W (base + code_size xs) ys"
  unfolding code_in_def
  by (auto simp: take_add length_code_words append_eq_append_conv add.commute add.left_commute)

lemma code_in_Cons: "code_in W base (e # ys) \<longleftrightarrow> code_in W base [e] \<and> code_in W (base + elem_size e) ys"
  using code_in_append [of W base "[e]" ys] by simp

lemma code_in_end: "code_in W base code \<Longrightarrow> base + code_size code < length W"
  by (simp add: code_in_def)

lemma code_in_elem:
  assumes "code_in W pc [e]"
  shows "W ! pc = opcode (ce_instr e)" "has_arg (ce_instr e) \<Longrightarrow> W ! (pc + 1) = ce_arg e"
    "pc + elem_size e < length W"
proof -
  have words: "take (elem_size e) (drop pc W) = elem_words e" and len: "pc + elem_size e < length W"
    using assms by (simp_all add: code_in_def code_words_def)
  show "pc + elem_size e < length W" by (rule len)
  have nth: "i < elem_size e \<Longrightarrow> W ! (pc + i) = elem_words e ! i" for i
    using words len by (metis (no_types, lifting) add_lessD1 less_imp_le nat_add_left_cancel_less nth_drop nth_take order.strict_trans)
  from nth [of 0] show "W ! pc = opcode (ce_instr e)" by (simp add: elem_size_def elem_words_def)
  assume "has_arg (ce_instr e)"
  with nth [of 1] show "W ! (pc + 1) = ce_arg e" by (simp add: elem_size_def elem_words_def)
qed

section \<open>Instructions\<close>

lemma elem_sizes [simp]:
  "elem_size (elem INSTR_PUSH a) = 2" "elem_size (elem INSTR_LOAD a) = 2" "elem_size (elem INSTR_STORE a) = 2"
  "elem_size (elem INSTR_JMP a) = 2" "elem_size (elem INSTR_CALL a) = 2" "elem_size (elem INSTR_PROLOG a) = 2"
  "elem_size (elem INSTR_EPILOG a) = 2" "elem_size (elem INSTR_ARGLOAD a) = 2"
  "elem_size (elem INSTR_PRINT a) = 1" "elem_size (elem INSTR_RET a) = 1" "elem_size (elem INSTR_FINISH a) = 1"
  by (simp_all add: elem_size_def info_of_def instr_info_table_def)

lemma has_args [simp]:
  "has_arg INSTR_PUSH" "has_arg INSTR_LOAD" "has_arg INSTR_STORE" "has_arg INSTR_JMP" "has_arg INSTR_CALL"
  "has_arg INSTR_PROLOG" "has_arg INSTR_EPILOG" "has_arg INSTR_ARGLOAD"
  by (simp_all add: info_of_def instr_info_table_def)

lemma vm_next_at [simp]:
  "vm_next ve (vm_at pc S C p) = (if pc + 1 < length (ve_code ve) then Running (vm_at (pc + 1) S C p) else Wild)"
  by (simp add: vm_next_def)

lemma vm_word_at [simp]: "vm_word ve (vm_at pc S C p) = ve_code ve ! pc"
  by (simp add: vm_word_def)

lemma leads_exec:
  assumes "code_in (ve_code ve) pc [elem i x]"
    and "\<And>junk. (\<exists>b. vm_exec junk ve i (vm_at pc S C p) = Running b \<and> Q b) \<or>
      (\<exists>c b. vm_exec junk ve i (vm_at pc S C p) = Trap c b \<and> T c b)"
  shows "leads ve T Q (vm_at pc S C p)"
proof (rule leads.move)
  fix junk
  have "vm_step junk ve (vm_at pc S C p) = vm_exec junk ve i (vm_at pc S C p)"
    using code_in_elem(1) [OF assms(1)] by (simp add: vm_step_def decode_opcode)
  then show "(\<exists>b. vm_step junk ve (vm_at pc S C p) = Running b \<and> leads ve T Q b) \<or>
      (\<exists>c b. vm_step junk ve (vm_at pc S C p) = Trap c b \<and> T c b)"
    using assms(2) [of junk] by (auto intro: leads.here)
qed

text \<open>The slot \<open>d\<close> words below the top of the call stack.\<close>

definition slot :: "u32 list \<Rightarrow> nat \<Rightarrow> u32" where
  "slot C d = C ! (length C - 1 - d)"

definition set_slot :: "u32 list \<Rightarrow> nat \<Rightarrow> u32 \<Rightarrow> u32 list" where
  "set_slot C d v = C[length C - 1 - d := v]"

lemma displacement_of_nat: "d < 2 ^ 30 \<Longrightarrow> displacement (of_nat d) = int d"
proof -
  assume "d < 2 ^ 30"
  then have "uint (push_bit 2 (of_nat d :: u32)) = int (d * 4)"
    by (simp add: push_bit_eq_mult uint_mult_lem unsigned_of_nat take_bit_nat_eq_self uint_word_ariths mod_pos_pos_trivial)
  then show ?thesis by (simp add: displacement_def)
qed

lemma pop_two:
  "vm_pop (vm_at pc (S @ [v, w]) C p) = Running (vm_at pc (S @ [v]) C p)"
  by (simp add: vm_pop_def butlast_append)

lemma pop_one: "S \<noteq> [] \<Longrightarrow> vm_pop (vm_at pc (S @ [v]) C p) = Running (vm_at pc S C p)"
  by (cases S) (simp_all add: vm_pop_def butlast_append)

lemma exec_push:
  assumes "code_in (ve_code ve) pc [elem INSTR_PUSH v]" "Q (vm_at (pc + 2) (S @ [v]) C p)"
  shows "leads ve overflow Q (vm_at pc S C p)"
  using code_in_elem [OF assms(1)] assms(2)
  by (intro leads_exec [OF assms(1)]) (auto simp: vm_imm_def vm_push_def overflow_def)

lemma exec_print:
  assumes "code_in (ve_code ve) pc [elem INSTR_PRINT x]" "S \<noteq> []" "Q (vm_at (pc + 1) S C (print_word p v))"
  shows "leads ve overflow Q (vm_at pc (S @ [v]) C p)"
  using code_in_elem [OF assms(1)] assms(2,3)
  by (intro leads_exec [OF assms(1)]) (auto simp: vm_top_def pop_one)

lemma exec_load:
  assumes "code_in (ve_code ve) pc [elem INSTR_LOAD (of_nat d)]" "d < 2 ^ 30" "d < length C"
    "Q (vm_at (pc + 2) (S @ [slot C d]) C p)"
  shows "leads ve overflow Q (vm_at pc S C p)"
  using code_in_elem [OF assms(1)] assms(2-4)
  by (intro leads_exec [OF assms(1)])
    (auto simp: vm_imm_def vm_push_def vm_load_def vm_slot_def displacement_of_nat slot_def overflow_def)

lemma exec_store:
  assumes "code_in (ve_code ve) pc [elem INSTR_STORE (of_nat d)]" "d < 2 ^ 30" "d < length C" "S \<noteq> []"
    "Q (vm_at (pc + 2) S (set_slot C d v) p)"
  shows "leads ve overflow Q (vm_at pc (S @ [v]) C p)"
  using code_in_elem [OF assms(1)] assms(2-5)
  by (intro leads_exec [OF assms(1)])
    (auto simp: vm_imm_def vm_store_def vm_slot_def displacement_of_nat set_slot_def vm_top_def pop_one)

lemma uint_of_nat_less: "n < length (W :: u32 list) \<Longrightarrow> length W < 2 ^ 32 \<Longrightarrow> uint (of_nat n :: u32) = int n"
  by (simp add: unsigned_of_nat take_bit_nat_eq_self flip: of_nat_take_bit)

lemma vm_target_at:
  assumes "t < length (ve_code ve)" "length (ve_code ve) < 2 ^ 32"
  shows "vm_target ve (of_nat t) a = Running t"
  using assms uint_of_nat_less [of t "ve_code ve"] by (simp add: vm_target_def)

lemma exec_jmp:
  assumes "code_in (ve_code ve) pc [elem INSTR_JMP (of_nat t)]" "t < length (ve_code ve)" "length (ve_code ve) < 2 ^ 32"
    "Q (vm_at t S C p)"
  shows "leads ve overflow Q (vm_at pc S C p)"
  using code_in_elem [OF assms(1)] assms(2-4)
  by (intro leads_exec [OF assms(1)]) (auto simp: vm_jmp_def vm_jump_def vm_target_at)

lemma exec_call:
  assumes "code_in (ve_code ve) pc [elem INSTR_CALL (of_nat t)]" "t < length (ve_code ve)" "length (ve_code ve) < 2 ^ 32"
    "Q (vm_at t S (C @ [of_nat (pc + 2)]) p)"
  shows "leads ve overflow Q (vm_at pc S C p)"
  using code_in_elem [OF assms(1)] assms(2-4)
  by (intro leads_exec [OF assms(1)])
    (auto simp: vm_imm_def vm_target_at vm_grow_def vm_store_def vm_slot_def displacement_of_nat [of 0, simplified]
      overflow_def list_update_append)

lemma exec_ret:
  assumes "code_in (ve_code ve) pc [elem INSTR_RET x]" "t < length (ve_code ve)" "length (ve_code ve) < 2 ^ 32" "C \<noteq> []"
    "Q (vm_at t S C p)"
  shows "leads ve overflow Q (vm_at pc S (C @ [of_nat t]) p)"
  using assms(2-5)
  by (intro leads_exec [OF assms(1)]) (auto simp: vm_load_def vm_slot_def vm_target_at vm_shrink_def Suc_le_eq)

lemma exec_prolog:
  assumes "code_in (ve_code ve) pc [elem INSTR_PROLOG (of_nat n)]" "n < 2 ^ 30"
    "\<And>xs. length xs = n \<Longrightarrow> Q (vm_at (pc + 2) S (C @ xs) p)"
  shows "leads ve overflow Q (vm_at pc S C p)"
  using code_in_elem [OF assms(1)] assms(2,3)
  by (intro leads_exec [OF assms(1)]) (auto simp: vm_imm_def vm_grow_def displacement_of_nat overflow_def)

lemma exec_epilog:
  assumes "code_in (ve_code ve) pc [elem INSTR_EPILOG (of_nat n)]" "n < 2 ^ 30" "length xs = n" "C \<noteq> []"
    "Q (vm_at (pc + 2) S C p)"
  shows "leads ve overflow Q (vm_at pc S (C @ xs) p)"
  using code_in_elem [OF assms(1)] assms(2-5)
  by (intro leads_exec [OF assms(1)]) (auto simp: vm_imm_def vm_shrink_def displacement_of_nat)

lemma exec_finish:
  assumes "code_in (ve_code ve) pc [elem INSTR_FINISH x]"
  shows "vm_step junk ve (vm_at pc S C p) = Halted (vm_at pc S C p)"
  using code_in_elem(1) [OF assms] by (simp add: vm_step_def decode_opcode)

text \<open>Operators on the two topmost values.\<close>

lemma exec_numop:
  assumes "numop_instr op = Some i" "code_in (ve_code ve) pc [elem i x]"
  shows "achieves ve p (numop_value op v w out) (\<lambda>r b. b = vm_at (pc + 1) (S @ [r]) C (printed p out))
    (vm_at pc (S @ [v, w]) C (printed p out))"
proof -
  have "op \<in> {TOK_PLUS, TOK_MINUS, TOK_STAR, TOK_SLASH, TOK_PERCENT}"
    using assms(1) by (auto simp: numop_instr_def split: if_splits)
  moreover have "pc + 1 < length (ve_code ve)"
    using code_in_elem(3) [OF assms(2)] by (simp add: elem_size_def split: if_splits)
  ultimately show ?thesis
    using assms(1)
    by (auto simp: numop_instr_def vm_arith_def vm_divmod_def pop_two vm_top_def vm_set_top_def div_stop_def
        intro!: leads_exec [OF assms(2)])
qed

end
