(* ===== verification/Codegen_Proofs.thy ===== *)
theory Codegen_Proofs
  imports Codegen
begin

text \<open>The generator produces the code of the reference compiler.\<close>

section \<open>Emitting leaves the tables alone\<close>

lemma emit_tables [simp]:
  "node_var v (emit code g) = node_var v g" "node_func v (emit code g) = node_func v g"
  "current_func (emit code g) = current_func g" "func_addr func (emit code g) = func_addr func g"
  unfolding node_var_def node_func_def current_func_def func_addr_def emit_simps by (rule refl)+

lemma layout_of_emit [simp]: "layout_of (emit code g) = layout_of g"
  unfolding layout_of_def emit_tables by (rule refl)

lemma current_elem_emit:
  "code \<noteq> [] \<Longrightarrow> current_elem (emit code g) = Ret (length (gs_code g) + (length code - Suc 0))"
  by (cases code) (simp_all add: current_elem_def)

lemma nth_last: "code \<noteq> [] \<Longrightarrow> code ! (length code - Suc 0) = last code"
  by (simp add: last_conv_nth)

lemma set_arg_aim:
  assumes "code \<noteq> []"
  shows "set_arg (length (gs_code g) + (length code - Suc 0)) (of_nat a) (emit (code @ rest) g) = emit (aim a code @ rest) g"
proof -
  have "length code - Suc 0 < length (code @ rest)" using assms by (cases code) auto
  moreover have "(code @ rest)[length code - Suc 0 := ((code @ rest) ! (length code - Suc 0))\<lparr>ce_arg := of_nat a\<rparr>] = aim a code @ rest"
    using assms by (cases code rule: rev_cases) (simp_all add: aim_def nth_append list_update_append)
  ultimately show ?thesis by (simp add: set_arg_emit)
qed

lemma set_instr_negated:
  assumes "code \<noteq> []" "has_arg (neg_jmp_instr (ce_instr (last code))) = has_arg (ce_instr (last code))"
  shows "set_instr (length (gs_code g) + (length code - Suc 0)) (neg_jmp_instr (ce_instr (last code))) (emit code g) = emit (negated code) g"
proof (cases code rule: rev_cases)
  case (snoc xs x)
  then show ?thesis using assms
    by (simp add: set_instr_def emit_def negated_def list_update_append nth_append elem_size_def)
qed (use assms in simp)

lemma set_arg_elem:
  "set_arg (length (gs_code g)) a (emit (elem i b # rest) g) = emit (elem i a # rest) g"
  using set_arg_emit [of 0 "elem i b # rest" g a] by simp

lemma length_negated [simp]: "code \<noteq> [] \<Longrightarrow> length (negated code) = length code"
  by (simp add: negated_def)

lemma negated_Nil [simp]: "code \<noteq> [] \<Longrightarrow> negated code \<noteq> []"
  by (simp add: negated_def)

lemma aim_Nil [simp]: "aim a code \<noteq> []"
  by (simp add: aim_def)

lemma length_aim [simp]: "code \<noteq> [] \<Longrightarrow> length (aim a code) = length code"
  by (simp add: aim_def)

lemma code_size_aim [simp]: "code \<noteq> [] \<Longrightarrow> code_size (aim a code) = code_size code"
  by (cases code rule: rev_cases) (simp_all add: aim_def elem_size_def)

lemma code_size_negated:
  "code \<noteq> [] \<Longrightarrow> has_arg (neg_jmp_instr (ce_instr (last code))) = has_arg (ce_instr (last code)) \<Longrightarrow>
   code_size (negated code) = code_size code"
  by (cases code rule: rev_cases) (simp_all add: negated_def elem_size_def)

section \<open>Emitted pieces\<close>

lemma push_stores_emit: "push_stores n g = emit (map (\<lambda>i. elem INSTR_STORE (of_nat i)) (rev [0..<n])) g"
  by (induction n arbitrary: g) (simp_all add: push_elem_emit)

lemma push_argloads_emit: "push_argloads n g = emit (map (\<lambda>i. elem INSTR_ARGLOAD (of_nat i)) [0..<n]) g"
  unfolding push_argloads_def by (induction n arbitrary: g) (simp_all add: push_elem_emit)

lemma push_fcall_emit:
  "node_func v g = Ret func \<Longrightarrow> push_fcall func g = emit (comp_call (layout_of g) v) g"
  by (simp add: push_fcall_def push_stores_emit push_elem_emit comp_call_def layout_of_def)

lemma push_numop_emit:
  "push_numop ty g = emit (case numop_instr ty of Some i \<Rightarrow> [elem i 0] | None \<Rightarrow> []) g"
  by (simp add: push_numop_def numop_instr_def push_elem_emit)

lemma push_return_emit:
  "current_func g = Ret func \<Longrightarrow>
   emit [elem INSTR_RET 0] (push_func_epilog func (emit code g)) = emit (code @ comp_return (layout_of g)) g"
  by (simp add: push_func_epilog_def push_elem_emit comp_return_def layout_of_def)

section \<open>Conditions\<close>

lemma neg_jmp_has_arg:
  "has_arg (neg_jmp_instr (boolop_to_jmp_instr ty)) = has_arg (boolop_to_jmp_instr ty)"
  by (cases ty) (simp_all add: info_of_def instr_info_table_def)

lemma is_boolop_cases:
  assumes "is_boolop n"
  obtains v ty l1 m1 r1 where "n = Node AST_BOOLOP v (Node AST_BOOLOP_LEAF (Val_Type ty) l1 m1 r1) NULL_NODE NULL_NODE"
  using assms by (cases n rule: is_boolop.cases) auto

lemma comp_boolop: 
  "comp ly base (Node AST_BOOLOP v (Node AST_BOOLOP_LEAF (Val_Type ty) l1 m1 r1) NULL_NODE NULL_NODE) = [elem (boolop_to_jmp_instr ty) 0]"
  by simp

lemma comp_cond:
  assumes "is_cond n"
  obtains ops ty where "comp ly base n = ops @ [elem (boolop_to_jmp_instr ty) 0]"
proof -
  obtain v l m r where n: "n = Node AST_CONDITION v l m r" and m: "is_boolop m"
    using assms by (cases n rule: is_cond.cases) auto
  from m obtain v' ty l1 m1 r1
    where m': "m = Node AST_BOOLOP v' (Node AST_BOOLOP_LEAF (Val_Type ty) l1 m1 r1) NULL_NODE NULL_NODE"
    by (rule is_boolop_cases)
  show thesis
    by (rule that [of "comp ly base l @ comp ly (base + code_size (comp ly base l)) r" ty]) (simp add: n m' Let_def)
qed

lemma comp_cond_facts:
  assumes "is_cond n"
  shows "comp ly base n \<noteq> []"
    "has_arg (neg_jmp_instr (ce_instr (last (comp ly base n)))) = has_arg (ce_instr (last (comp ly base n)))"
  by (rule comp_cond [OF assms, of ly base]; simp add: neg_jmp_has_arg)+

section \<open>The equivalence\<close>

definition gen_ready :: "gstate \<Rightarrow> node \<Rightarrow> bool" where
  "gen_ready g n \<longleftrightarrow>
     body_ok (\<lambda>v. \<exists>var. node_var v g = Ret var) (\<lambda>v. \<exists>func. node_func v g = Ret func) n \<and>
     (\<exists>func. current_func g = Ret func)"

lemma gen_ready_emit [simp]: "gen_ready (emit code g) n = gen_ready g n"
  by (simp add: gen_ready_def)

lemma la_pos_layout: "node_var v g = Ret var \<Longrightarrow> la_pos (layout_of g) v = of_nat (vi_pos var)"
  by (simp add: layout_of_def)

lemma set_arg_elem_at:
  assumes "i = length (gs_code g) + length pre"
  shows "set_arg i a (emit (pre @ elem c b # rest) g) = emit (pre @ elem c a # rest) g"
  using set_arg_elem [of "emit pre g" a c b rest] assms by simp

lemma set_arg_aim_at:
  assumes "i = length (gs_code g) + length pre + (length code - Suc 0)" "code \<noteq> []"
  shows "set_arg i (of_nat a) (emit (pre @ code) g) = emit (pre @ aim a code) g"
  using set_arg_aim [of code "emit pre g" a "[]"] assms by simp

text \<open>The two back-patched constructs, given the generation of their parts.\<close>

lemma generate_branch:
  assumes gen: "\<And>x h. x \<in> {l, m, r} \<Longrightarrow> layout_of h = ly \<Longrightarrow> P h \<Longrightarrow> generate_helper x h = Ret (emit (comp ly (gs_size h) x) h)"
    and P: "P g" "\<And>code h. P h \<Longrightarrow> P (emit code h)" and ly: "layout_of g = ly" and l: "is_cond l"
  shows "generate_helper (Node AST_BRANCH v l m r) g = Ret (emit (comp ly (gs_size g) (Node AST_BRANCH v l m r)) g)"
proof -
  let ?C = "comp ly (gs_size g) l"
  let ?th = "comp ly (gs_size g + code_size ?C) m"
  let ?b = "gs_size g + code_size ?C + code_size ?th + 2"
  note C = comp_cond_facts [OF l, of ly "gs_size g"]
  note gens = gen [of l] gen [of m] gen [of r]
  have jmp: "elem_size (elem INSTR_JMP a) = 2" for a
    by (simp add: elem_size_def info_of_def instr_info_table_def)
  show ?thesis
  proof (cases "r = NULL_NODE")
    case True
    then show ?thesis
      using C set_arg_aim [of "negated ?C" g "gs_size g + code_size ?C + code_size ?th" ?th]
      by (simp add: gens P ly current_elem_emit nth_last set_instr_negated code_size_negated Let_def add.assoc del: of_nat_add)
  next
    case False
    then show ?thesis
      using C set_arg_aim [of "negated ?C" g ?b "?th @ [elem INSTR_JMP 0]"]
        set_arg_elem_at [of _ g "aim ?b (negated ?C) @ ?th" _ INSTR_JMP 0]
      by (simp add: gens P ly current_elem_emit nth_last set_instr_negated code_size_negated push_elem_emit
          jmp Let_def add.assoc del: of_nat_add of_nat_Suc)
  qed
qed

definition loop_cond :: "node \<Rightarrow> node \<Rightarrow> node" where
  "loop_cond l m = (case kind_of l of While_Loop \<Rightarrow> l | For_Loop \<Rightarrow> sub_middle l | Do_While_Loop \<Rightarrow> m)"

definition loop_parts :: "node \<Rightarrow> node \<Rightarrow> node set" where
  "loop_parts l m =
     (case kind_of l of For_Loop \<Rightarrow> {sub_left l, sub_middle l, sub_right l, m} | _ \<Rightarrow> {l, m})"

lemma current_emit_cond:
  "code \<noteq> [] \<Longrightarrow> current_elem (emit (pre @ code) g) = Ret (length (gs_code g) + length pre + (length code - Suc 0))"
  by (cases code) (simp_all add: current_elem_def)

lemma generate_loop:
  assumes gen: "\<And>x h. x \<in> loop_parts l m \<Longrightarrow> layout_of h = ly \<Longrightarrow> P h \<Longrightarrow> generate_helper x h = Ret (emit (comp ly (gs_size h) x) h)"
    and P: "P g" "\<And>code h. P h \<Longrightarrow> P (emit code h)" and ly: "layout_of g = ly"
    and l: "l \<noteq> NULL_NODE" and cond: "is_cond (loop_cond l m)"
  shows "generate_helper (Node AST_LOOP v l m r) g = Ret (emit (comp ly (gs_size g) (Node AST_LOOP v l m r)) g)"
proof -
  have jmp: "elem_size (elem INSTR_JMP a) = 2" for a
    by (simp add: elem_size_def info_of_def instr_info_table_def)
  have kind: "loop_type l = Ret (kind_of l)"
    using l by (cases l) (simp_all add: kind_of_def loop_type_def)
  show ?thesis
  proof (cases "kind_of l")
    case While_Loop
    let ?body = "comp ly (gs_size g + 2) m"
    let ?b = "gs_size g + 2 + code_size ?body"
    have c: "comp ly ?b l \<noteq> []" using cond While_Loop by (simp add: loop_cond_def comp_cond_facts)
    note gens = gen [of l] gen [of m]
    show ?thesis
      using set_arg_elem [of g "of_nat ?b" INSTR_JMP 0 ?body]
        current_emit_cond [OF c, of "elem INSTR_JMP (of_nat ?b) # ?body" g]
        set_arg_aim_at [OF refl c, of g "elem INSTR_JMP (of_nat ?b) # ?body" "gs_size g + 2"]
      by (simp add: kind While_Loop gens loop_parts_def P ly push_elem_emit jmp Let_def add.assoc del: of_nat_add of_nat_Suc)
  next
    case For_Loop
    define I where "I = comp ly (gs_size g) (sub_left l)"
    define b0 where "b0 = gs_size g + code_size I + 2"
    define B where "B = comp ly b0 m"
    define C where "C = comp ly (b0 + code_size B) (sub_right l)"
    define b1 where "b1 = b0 + code_size B + code_size C"
    define D where "D = comp ly b1 (sub_middle l)"
    have D: "D \<noteq> []" using cond For_Loop by (simp add: loop_cond_def comp_cond_facts D_def)
    have "generate_helper (sub_left l) g = Ret (emit I g)"
      using gen [of "sub_left l" g] by (simp add: I_def For_Loop loop_parts_def P ly)
    moreover have "generate_helper m (emit (I @ [elem INSTR_JMP 0]) g) = Ret (emit (I @ elem INSTR_JMP 0 # B) g)"
      using gen [of m "emit (I @ [elem INSTR_JMP 0]) g"] by (simp add: B_def b0_def For_Loop loop_parts_def P ly jmp add.assoc)
    moreover have "generate_helper (sub_right l) (emit (I @ elem INSTR_JMP 0 # B) g) = Ret (emit (I @ elem INSTR_JMP 0 # B @ C) g)"
      using gen [of "sub_right l" "emit (I @ elem INSTR_JMP 0 # B) g"] by (simp add: C_def b0_def For_Loop loop_parts_def P ly jmp add.assoc)
    moreover have "set_arg (length (gs_code g) + length I) (of_nat b1) (emit (I @ elem INSTR_JMP 0 # B @ C) g) =
        emit (I @ elem INSTR_JMP (of_nat b1) # B @ C) g"
      by (simp add: set_arg_elem_at)
    moreover have "generate_helper (sub_middle l) (emit (I @ elem INSTR_JMP (of_nat b1) # B @ C) g) =
        Ret (emit (I @ elem INSTR_JMP (of_nat b1) # B @ C @ D) g)"
      using gen [of "sub_middle l" "emit (I @ elem INSTR_JMP (of_nat b1) # B @ C) g"]
      by (simp add: D_def b1_def b0_def For_Loop loop_parts_def P ly jmp add.assoc del: of_nat_add of_nat_Suc)
    moreover have "comp ly (gs_size g) (Node AST_LOOP v l m r) = I @ elem INSTR_JMP (of_nat b1) # B @ C @ aim b0 D"
      by (simp add: For_Loop Let_def I_def b0_def B_def C_def b1_def D_def)
    moreover have "Suc (Suc (gs_size g + code_size I)) = b0" "Suc (Suc (gs_size g + (code_size I + (code_size B + code_size C)))) = b1"
      by (simp_all add: b0_def b1_def)
    ultimately show ?thesis
      using current_emit_cond [OF D, of "I @ elem INSTR_JMP (of_nat b1) # B @ C" g]
        set_arg_aim_at [OF refl D, of g "I @ elem INSTR_JMP (of_nat b1) # B @ C" b0]
      by (simp add: kind For_Loop push_elem_emit jmp Let_def del: of_nat_add of_nat_Suc comp.simps)
  next
    case Do_While_Loop
    let ?body = "comp ly (gs_size g) l"
    have c: "comp ly (gs_size g + code_size ?body) m \<noteq> []" using cond Do_While_Loop by (simp add: loop_cond_def comp_cond_facts)
    note gens = gen [of l] gen [of m]
    show ?thesis
      using current_emit_cond [OF c, of ?body g] set_arg_aim_at [OF refl c, of g ?body "gs_size g"]
      by (simp add: kind Do_While_Loop gens loop_parts_def P ly Let_def add.assoc del: of_nat_add of_nat_Suc)
  qed
qed

text \<open>By induction on the size of the tree.\<close>

lemma generate_comp_lemma:
  "gen_ready g n \<Longrightarrow> generate_helper n g = Ret (emit (comp (layout_of g) (gs_size g) n) g)"
proof (induction n arbitrary: g rule: measure_induct_rule [where f = size])
  case (less n)
  show ?case
  proof (cases n)
    case (Node t v l m r)
    have gen: "generate_helper x h = Ret (emit (comp (layout_of h) (gs_size h) x) h)"
      if "size x < size n" "gen_ready h x" for x h using less.IH that by blast
    have small: "size l < size n" "size m < size n" "size r < size n"
      "size (sub_left l) < size n" "size (sub_middle l) < size n" "size (sub_right l) < size n"
      using sub_size [of l] Node by auto
    let ?ok = "body_ok (\<lambda>v. \<exists>var. node_var v g = Ret var) (\<lambda>v. \<exists>func. node_func v g = Ret func)"
    obtain func where func: "current_func g = Ret func" using less.prems by (auto simp: gen_ready_def)
    have ok: "?ok n" using less.prems by (simp add: gen_ready_def)
    have ready: "gen_ready g x" if "?ok x" for x using that func by (simp add: gen_ready_def)
    note gens = gen [OF small(1)] gen [OF small(2)] gen [OF small(3)]
      gen [OF small(4)] gen [OF small(5)] gen [OF small(6)]
    show ?thesis
    proof (cases t)
      case AST_BRANCH
      have parts: "?ok l" "?ok m" "?ok r" "is_cond l" using ok unfolding Node AST_BRANCH by simp_all
      show ?thesis unfolding Node AST_BRANCH
        by (rule generate_branch [where P = "\<lambda>h. \<forall>x\<in>{l, m, r}. gen_ready h x"]) (use parts ready gens in auto)
    next
      case AST_LOOP
      have parts: "l \<noteq> NULL_NODE" "\<forall>x\<in>loop_parts l m. ?ok x" "is_cond (loop_cond l m)"
        using ok unfolding Node AST_LOOP by (auto simp: loop_cond_def loop_parts_def split: loop_kind.splits)
      show ?thesis unfolding Node AST_LOOP
        by (rule generate_loop [where P = "\<lambda>h. \<forall>x\<in>loop_parts l m. gen_ready h x"])
          (use parts ready gens in \<open>auto simp: loop_parts_def split: loop_kind.splits\<close>)
    qed (use ok Node func in \<open>auto simp: gens ready push_elem_emit push_numop_emit push_fcall_emit push_return_emit Let_def add.assoc la_pos_layout\<close>)
  qed simp
qed

section \<open>Property\<close>

text \<open>C5 The code generator refines the reference compiler: on a function body of the parser's
  shape, whose variables and called functions are in the table, \<open>generate_helper\<close> returns and
  appends exactly the code of \<open>comp\<close>; the back-patched jumps have the targets that \<open>comp\<close> knows
  in advance, and nothing else of the state changes.\<close>

theorem generate_comp:
  assumes "gen_ready g n"
  shows "generate_helper n g = Ret (emit (comp (layout_of g) (gs_size g) n) g)"
  using assms by (rule generate_comp_lemma)

text \<open>\<open>if (1 < 2) { print(3); }\<close> in a function \<open>main\<close>.\<close>

definition sample_body :: node where
  "sample_body =
     Node AST_BRANCH Val_None
       (Node AST_CONDITION Val_None
          (Node AST_INTLITERAL (Val_Number 1) NULL_NODE NULL_NODE NULL_NODE)
          (Node AST_BOOLOP Val_None (Node AST_BOOLOP_LEAF (Val_Type TOK_LT) NULL_NODE NULL_NODE NULL_NODE) NULL_NODE NULL_NODE)
          (Node AST_INTLITERAL (Val_Number 2) NULL_NODE NULL_NODE NULL_NODE))
       (Node AST_PRINT Val_None (Node AST_INTLITERAL (Val_Number 3) NULL_NODE NULL_NODE NULL_NODE) NULL_NODE NULL_NODE)
       NULL_NODE"

definition sample_gstate :: gstate where
  "sample_gstate = (initial_gstate (snd (add_func ''main'' DTYPE_VOID initial_symbols)) 0)\<lparr>gs_current_func := Some ''main''\<rparr>"

lemma sample_current: "case current_func sample_gstate of Ret func \<Rightarrow> True | _ \<Rightarrow> False"
  by code_simp

theorem generate_comp_witness:
  "generate_helper sample_body sample_gstate =
     Ret (emit [elem INSTR_PUSH 1, elem INSTR_PUSH 2, elem INSTR_JGE 9, elem INSTR_PUSH 3, elem INSTR_PRINT 0] sample_gstate)"
proof -
  have "gen_ready sample_gstate sample_body"
    using sample_current by (auto simp: gen_ready_def sample_body_def split: outcome.splits)
  from generate_comp [OF this] show ?thesis
    by (simp add: sample_body_def sample_gstate_def initial_gstate_def Let_def negated_def aim_def elem_size_def
        info_of_def instr_info_table_def)
qed

end
