(* ===== verification/Correct.thy ===== *)
theory Correct
  imports Exec Codegen_Proofs
begin

text \<open>
  The code of a function body does what the body means: by induction on the constructs, the stack
  machine on the code of the reference compiler achieves the result of the evaluator, with the
  local variables in the slots of the frame.
\<close>

section \<open>Frames\<close>

text \<open>
  A function as the generator sees it: its layout, its variables and their slots, the number of
  its arguments and of the words it reserves for the arguments of calls.
\<close>

record unit_info =
  un_layout :: layout
  un_vars :: "string set"
  un_pos :: "string \<Rightarrow> nat"
  un_args :: nat
  un_max :: nat

abbreviation un_frame :: "unit_info \<Rightarrow> nat" where
  "un_frame u \<equiv> la_frame (un_layout u)"

definition unit_ok :: "string \<Rightarrow> unit_info \<Rightarrow> bool" where
  "unit_ok f u \<longleftrightarrow>
     un_frame u + un_args u < 2 ^ 30 \<and> un_max u \<le> un_frame u \<and> inj_on (un_pos u) (un_vars u) \<and>
     (\<forall>x \<in> un_vars u. un_max u \<le> un_pos u x \<and> un_pos u x \<noteq> un_frame u \<and> un_pos u x \<le> un_frame u + un_args u \<and>
        la_pos (un_layout u) (Val_Var f x) = of_nat (un_pos u x))"

text \<open>
  The call stack while the function runs: what was there before its arguments, the arguments,
  the return address, and the frame. Every variable with a value has it in its slot.
\<close>

definition frame_at :: "unit_info \<Rightarrow> u32 list \<Rightarrow> u32 \<Rightarrow> locals \<Rightarrow> u32 list \<Rightarrow> bool" where
  "frame_at u below ret loc C \<longleftrightarrow>
     (\<exists>xs ys. C = below @ xs @ ret # ys \<and> length xs = un_args u \<and> length ys = un_frame u) \<and>
     dom loc \<subseteq> un_vars u \<and> (\<forall>x v. loc x = Some v \<longrightarrow> slot C (un_pos u x) = v)"

lemma frame_length: "frame_at u below ret loc C \<Longrightarrow> length C = length below + un_args u + 1 + un_frame u"
  by (auto simp: frame_at_def)

lemma slot_set_slot:
  "d < length C \<Longrightarrow> d' < length C \<Longrightarrow> slot (set_slot C d v) d' = (if d = d' then v else slot C d')"
  by (auto simp: slot_def set_slot_def nth_list_update)

lemma set_slot_shape:
  assumes "C = below @ xs @ ret # ys" "d \<le> length ys + length xs" "d \<noteq> length ys"
  shows "\<exists>xs' ys'. set_slot C d v = below @ xs' @ ret # ys' \<and> length xs' = length xs \<and> length ys' = length ys"
proof (cases "d < length ys")
  case True
  let ?pre = "below @ xs @ [ret]"
  have "length C - 1 - d = length ?pre + (length ys - 1 - d)" using assms(1) True by simp
  moreover have "C = ?pre @ ys" using assms(1) by simp
  moreover have "(pre @ ys)[length pre + k := v] = pre @ ys[k := v]" for pre k
    by (simp add: list_update_append)
  ultimately have "set_slot C d v = ?pre @ ys[length ys - 1 - d := v]" unfolding set_slot_def by metis
  then show ?thesis by force
next
  case False
  then have "length C - 1 - d = length below + (length xs - (d - length ys))" "length xs - (d - length ys) < length xs"
    using assms by auto
  moreover have "k < length xs \<Longrightarrow> (below @ xs @ ret # ys)[length below + k := v] = below @ xs[k := v] @ ret # ys" for k
    by (simp add: list_update_append)
  ultimately have "set_slot C d v = below @ xs[length xs - (d - length ys) := v] @ ret # ys"
    unfolding set_slot_def assms(1) by metis
  then show ?thesis by force
qed

lemma frame_store:
  assumes "frame_at u below ret loc C" "unit_ok f u" "x \<in> un_vars u"
  shows "frame_at u below ret (loc(x \<mapsto> v)) (set_slot C (un_pos u x) v)"
proof -
  obtain xs ys where C: "C = below @ xs @ ret # ys" "length xs = un_args u" "length ys = un_frame u"
    using assms(1) by (auto simp: frame_at_def)
  have less: "un_pos u y < length C" if "y \<in> un_vars u" for y
    using that assms(2) C by (auto simp: unit_ok_def)
  have "slot (set_slot C (un_pos u x) v) (un_pos u y) = w" if "(loc(x \<mapsto> v)) y = Some w" for y w
  proof -
    have y: "y \<in> un_vars u" using that assms(1,3) by (auto simp: frame_at_def split: if_splits)
    show ?thesis
    proof (cases "y = x")
      case True
      then show ?thesis using that less [OF y] by (simp add: slot_set_slot)
    next
      case False
      then have "un_pos u x \<noteq> un_pos u y" using assms(2,3) y by (auto simp: unit_ok_def inj_on_def)
      then show ?thesis using that False assms(1) less [OF y] less [OF assms(3)] by (auto simp: slot_set_slot frame_at_def)
    qed
  qed
  moreover have "\<exists>xs' ys'. set_slot C (un_pos u x) v = below @ xs' @ ret # ys' \<and> length xs' = length xs \<and> length ys' = length ys"
    using assms(2,3) C by (intro set_slot_shape) (auto simp: unit_ok_def)
  ultimately show ?thesis using assms(1,3) C by (auto simp: frame_at_def)
qed

lemma frame_store_out:
  assumes "frame_at u below ret loc C" "unit_ok f u" "d < un_max u"
  shows "frame_at u below ret loc (set_slot C d v)"
proof -
  obtain xs ys where C: "C = below @ xs @ ret # ys" "length xs = un_args u" "length ys = un_frame u"
    using assms(1) by (auto simp: frame_at_def)
  have d: "d < un_frame u" "d < length C" using assms(2,3) C by (auto simp: unit_ok_def)
  have "slot (set_slot C d v) (un_pos u y) = w" if "loc y = Some w" for y w
  proof -
    have y: "y \<in> un_vars u" using that assms(1) by (auto simp: frame_at_def)
    then have "un_pos u y < length C" "un_pos u y \<noteq> d" using assms(2,3) C by (auto simp: unit_ok_def)
    then show ?thesis using that d assms(1) by (auto simp: slot_set_slot frame_at_def)
  qed
  moreover have "\<exists>xs' ys'. set_slot C d v = below @ xs' @ ret # ys' \<and> length xs' = length xs \<and> length ys' = length ys"
    using d C by (intro set_slot_shape) auto
  ultimately show ?thesis using assms(1) C by (auto simp: frame_at_def)
qed

definition in_frame ::
  "unit_info \<Rightarrow> u32 list \<Rightarrow> u32 \<Rightarrow> nat \<Rightarrow> u32 list \<Rightarrow> locals \<Rightarrow> printer \<Rightarrow> vm \<Rightarrow> bool" where
  "in_frame u below ret pc S loc p b \<longleftrightarrow> (\<exists>C. b = vm_at pc S C p \<and> frame_at u below ret loc C)"

lemma in_frame_at [intro]: "frame_at u below ret loc C \<Longrightarrow> in_frame u below ret pc S loc p (vm_at pc S C p)"
  by (auto simp: in_frame_def)

section \<open>The code of each construct\<close>

definition op_code :: "token_type \<Rightarrow> code_elem list" where
  "op_code op = (case numop_instr op of Some i \<Rightarrow> [elem i 0] | None \<Rightarrow> [])"

lemma comp_op_node: "comp ly b (op_node op) = op_code op"
  by (simp add: op_node_def op_code_def)

lemma comp_expr [simp]:
  "comp ly b (expr_node f (Single x)) = comp ly b (fac_node f x)"
  "comp ly b (expr_node f (Binop x op e)) =
     comp ly b (fac_node f x) @ comp ly (b + code_size (comp ly b (fac_node f x))) (expr_node f e) @ op_code op"
  by (simp_all add: Let_def comp_op_node)

lemma comp_fac [simp]:
  "comp ly b (fac_node f (Call_Fac g es)) = comp ly b (args_node f es) @ comp_call ly (Val_Func g)"
  "comp ly b (fac_node f (Var_Fac x)) = [elem INSTR_LOAD (la_pos ly (Val_Var f x))]"
  "comp ly b (fac_node f (Num_Fac n)) = [elem INSTR_PUSH n]"
  "comp ly b (fac_node f (Paren_Fac e)) = comp ly b (expr_node f e)"
  by simp_all

lemma comp_args [simp]:
  "comp ly b (args_node f No_Args) = []"
  "comp ly b (args_node f (Last_Arg e)) = comp ly b (expr_node f e)"
  "comp ly b (args_node f (Cons_Arg e es)) =
     comp ly b (expr_node f e) @ comp ly (b + code_size (comp ly b (expr_node f e))) (args_node f es)"
  by (simp_all add: Let_def create_empty_def)

declare expr_node.simps [simp del] fac_node.simps [simp del] args_node.simps [simp del]

text \<open>The store of the arguments, the last one first.\<close>

definition arg_stores :: "nat \<Rightarrow> code_elem list" where
  "arg_stores n = map (\<lambda>i. elem INSTR_STORE (of_nat i)) (rev [0..<n])"

lemma arg_stores_Suc [simp]: "arg_stores 0 = []" "arg_stores (Suc n) = elem INSTR_STORE (of_nat n) # arg_stores n"
  by (simp_all add: arg_stores_def)

lemma exec_arg_stores:
  assumes "code_in (ve_code ve) pc (arg_stores (length vs))" "S \<noteq> []" "unit_ok f u" "length vs \<le> un_max u"
    "frame_at u below ret loc C"
    "\<And>C'. frame_at u below ret loc C' \<Longrightarrow> (\<forall>i < length vs. slot C' i = vs ! i) \<Longrightarrow>
      (\<forall>i. length vs \<le> i \<longrightarrow> i < un_max u \<longrightarrow> slot C' i = slot C i) \<Longrightarrow>
      Q (vm_at (pc + code_size (arg_stores (length vs))) S C' p)"
  shows "leads ve overflow Q (vm_at pc (S @ vs) C p)"
  using assms(1,4,5,6)
proof (induction vs arbitrary: pc C rule: rev_induct)
  case Nil
  then show ?case by (auto intro!: leads.here)
next
  case (snoc v vs)
  let ?n = "length vs" and ?C = "set_slot C (length vs) v"
  have n: "?n < un_max u" "?n < length C" "?n < 2 ^ 30"
    using snoc.prems(2) frame_length [OF snoc.prems(3)] assms(3) by (auto simp: unit_ok_def)
  have code: "code_in (ve_code ve) pc [elem INSTR_STORE (of_nat ?n)]" "code_in (ve_code ve) (pc + 2) (arg_stores ?n)"
    using snoc.prems(1) code_in_Cons [of _ _ _ "arg_stores ?n"] by auto
  have C: "frame_at u below ret loc ?C" using frame_store_out [OF snoc.prems(3) assms(3) n(1)] .
  have slots: "i < un_max u \<Longrightarrow> slot ?C i = (if i = ?n then v else slot C i)" for i
    using n(2) frame_length [OF snoc.prems(3)] assms(3) by (auto simp: slot_set_slot unit_ok_def)
  have "leads ve overflow Q (vm_at (pc + 2) (S @ vs) ?C p)"
  proof (rule snoc.IH [OF code(2) _ C])
    fix C'
    assume C': "frame_at u below ret loc C'" "\<forall>i < ?n. slot C' i = vs ! i"
      "\<forall>i. ?n \<le> i \<longrightarrow> i < un_max u \<longrightarrow> slot C' i = slot ?C i"
    have "slot C' i = (vs @ [v]) ! i" if "i < Suc ?n" for i
      using that C'(2,3) slots [OF n(1)] n(1) by (auto simp: nth_append less_Suc_eq)
    moreover have "slot C' i = slot C i" if "Suc ?n \<le> i" "i < un_max u" for i
      using that C'(3) slots [OF that(2)] by auto
    ultimately have "Q (vm_at (pc + code_size (arg_stores (length (vs @ [v])))) S C' p)"
      by (intro snoc.prems(4) C'(1)) auto
    then show "Q (vm_at (pc + 2 + code_size (arg_stores ?n)) S C' p)" by (simp add: add.assoc)
  qed (use snoc.prems(2) in simp)
  then have "leads ve overflow (leads ve overflow Q) (vm_at pc ((S @ vs) @ [v]) C p)"
    using assms(2) n by (intro exec_store [OF code(1)]) auto
  then show ?case by (auto elim: leads_trans)
qed

section \<open>Calls\<close>

definition opt_word :: "u32 option \<Rightarrow> u32 list" where
  "opt_word r = (case r of Some v \<Rightarrow> [v] | None \<Rightarrow> [])"

lemma opt_word_simps [simp]: "opt_word None = []" "opt_word (Some v) = [v]"
  by (simp_all add: opt_word_def)

text \<open>
  What a caller relies on: with the arguments in the topmost slots and the return address on top
  of them, the code at the function's address comes back to the return address with the result on
  the operand stack, and leaves the call stack below the arguments alone.
\<close>

definition call_works :: "vm_env \<Rightarrow> printer \<Rightarrow> caller \<Rightarrow> (string \<Rightarrow> nat) \<Rightarrow> string \<Rightarrow> nat \<Rightarrow> bool" where
  "call_works ve p0 call addr g n \<longleftrightarrow>
     addr g < length (ve_code ve) \<and>
     (\<forall>vs out S C t. length vs = n \<longrightarrow> S \<noteq> [] \<longrightarrow> n < length C \<longrightarrow> t < length (ve_code ve) \<longrightarrow>
        (\<forall>i < n. slot C i = vs ! i) \<longrightarrow>
        achieves ve p0 (call g vs out)
          (\<lambda>(r, out') b. \<exists>C'. b = vm_at t (S @ opt_word r) C' (printed p0 out') \<and> length C' = length C \<and>
             take (length C - n) C' = take (length C - n) C)
          (vm_at (addr g) S (C @ [of_nat t]) (printed p0 out)))"

text \<open>A call of \<open>g\<close> with \<open>n\<close> arguments in the code of a function.\<close>

definition call_linked ::
  "vm_env \<Rightarrow> printer \<Rightarrow> caller \<Rightarrow> (string \<Rightarrow> nat) \<Rightarrow> unit_info \<Rightarrow> string \<Rightarrow> nat \<Rightarrow> bool" where
  "call_linked ve p0 call addr u g n \<longleftrightarrow>
     la_args (un_layout u) (Val_Func g) = n \<and> la_addr (un_layout u) (Val_Func g) = of_nat (addr g) \<and>
     n \<le> un_max u \<and> call_works ve p0 call addr g n"

lemma frame_after_call:
  assumes "frame_at u below ret loc C" "unit_ok f u" "n \<le> un_max u" "length C' = length C"
    "take (length C - n) C' = take (length C - n) C"
  shows "frame_at u below ret loc C'"
proof -
  obtain xs ys where C: "C = below @ xs @ ret # ys" "length xs = un_args u" "length ys = un_frame u"
    using assms(1) by (auto simp: frame_at_def)
  have n: "n \<le> length ys" using assms(2,3) C by (auto simp: unit_ok_def)
  have "take (length C - n) C' = below @ xs @ ret # take (length ys - n) ys"
    using assms(5) C n by (simp add: Suc_diff_le)
  then have "C' = below @ xs @ ret # (take (length ys - n) ys @ drop (length C - n) C')"
    using append_take_drop_id [of "length C - n" C'] by simp
  moreover have "length (take (length ys - n) ys @ drop (length C - n) C') = un_frame u"
    using n C assms(4) by simp
  moreover have "slot C' (un_pos u y) = w" if "loc y = Some w" for y w
  proof -
    have y: "y \<in> un_vars u" using that assms(1) by (auto simp: frame_at_def)
    then have "length C - 1 - un_pos u y < length C - n" using assms(2,3) C by (auto simp: unit_ok_def)
    then have "C' ! (length C - 1 - un_pos u y) = C ! (length C - 1 - un_pos u y)"
      using assms(5) by (metis nth_take)
    then show ?thesis using that assms(1,4) by (simp add: frame_at_def slot_def)
  qed
  ultimately show ?thesis
    unfolding frame_at_def using assms(1) C(2) by (intro conjI exI) (auto simp: frame_at_def)
qed

lemma comp_call_linked:
  "call_linked ve p0 call addr u g n \<Longrightarrow>
   comp_call (un_layout u) (Val_Func g) = arg_stores n @ [elem INSTR_CALL (of_nat (addr g))]"
  by (simp add: comp_call_def arg_stores_def call_linked_def)

lemma exec_call_site:
  assumes code: "code_in (ve_code ve) pc (comp_call (un_layout u) (Val_Func g))"
    and linked: "call_linked ve p0 call addr u g (length vs)"
    and u: "unit_ok f u" and W: "length (ve_code ve) < 2 ^ 32" and S: "S \<noteq> []"
    and start: "in_frame u below ret pc (S @ vs) loc (printed p0 out) a"
  shows "achieves ve p0 (call g vs out)
    (\<lambda>(r, out'). in_frame u below ret (pc + code_size (comp_call (un_layout u) (Val_Func g))) (S @ opt_word r) loc (printed p0 out')) a"
proof -
  let ?n = "length vs"
  let ?pc = "pc + code_size (arg_stores ?n)"
  obtain C where a: "a = vm_at pc (S @ vs) C (printed p0 out)" and C: "frame_at u below ret loc C"
    using start by (auto simp: in_frame_def)
  have codes: "code_in (ve_code ve) pc (arg_stores ?n)" "code_in (ve_code ve) ?pc [elem INSTR_CALL (of_nat (addr g))]"
    using code by (simp_all add: comp_call_linked [OF linked] code_in_append)
  have works: "call_works ve p0 call addr g ?n" and n: "?n \<le> un_max u"
    using linked by (simp_all add: call_linked_def)
  have size: "code_size (comp_call (un_layout u) (Val_Func g)) = code_size (arg_stores ?n) + 2"
    by (simp add: comp_call_linked [OF linked])
  show ?thesis
    unfolding a
  proof (rule achieves_after, rule exec_arg_stores [OF codes(1) S u n C])
    fix C'
    assume C': "frame_at u below ret loc C'" "\<forall>i < ?n. slot C' i = vs ! i"
    have len: "?n < length C'" using n u frame_length [OF C'(1)] by (auto simp: unit_ok_def)
    have t: "?pc + 2 < length (ve_code ve)" using code_in_end [OF codes(2)] by simp
    have called: "achieves ve p0 (call g vs out)
        (\<lambda>(r, out') b. \<exists>C''. b = vm_at (?pc + 2) (S @ opt_word r) C'' (printed p0 out') \<and> length C'' = length C' \<and>
           take (length C' - ?n) C'' = take (length C' - ?n) C')
        (vm_at (addr g) S (C' @ [of_nat (?pc + 2)]) (printed p0 out))"
      using works S len t C'(2) unfolding call_works_def by blast
    have return: "achieves ve p0 (call g vs out)
        (\<lambda>(r, out'). in_frame u below ret (?pc + 2) (S @ opt_word r) loc (printed p0 out'))
        (vm_at (addr g) S (C' @ [of_nat (?pc + 2)]) (printed p0 out))"
      using frame_after_call [OF C'(1) u n]
      by (intro achieves_mono [OF called]) auto
    show "achieves ve p0 (call g vs out)
        (\<lambda>(r, out'). in_frame u below ret (pc + code_size (comp_call (un_layout u) (Val_Func g))) (S @ opt_word r) loc (printed p0 out'))
        (vm_at ?pc S C' (printed p0 out))"
      unfolding size add.assoc [symmetric]
      by (rule achieves_after, rule exec_call [OF codes(2)]) (use return works W in \<open>auto simp: call_works_def\<close>)
  qed
qed

section \<open>Expressions\<close>

text \<open>Which variables a construct may use, and which calls with how many arguments.\<close>

fun arg_count :: "args \<Rightarrow> nat" where
  "arg_count No_Args = 0"
| "arg_count (Last_Arg e) = 1"
| "arg_count (Cons_Arg e es) = Suc (arg_count es)"

fun wf_expr :: "string set \<Rightarrow> (string \<Rightarrow> nat \<Rightarrow> bool) \<Rightarrow> expr \<Rightarrow> bool"
  and wf_fac :: "string set \<Rightarrow> (string \<Rightarrow> nat \<Rightarrow> bool) \<Rightarrow> fac \<Rightarrow> bool"
  and wf_args :: "string set \<Rightarrow> (string \<Rightarrow> nat \<Rightarrow> bool) \<Rightarrow> args \<Rightarrow> bool" where
  "wf_expr vs cf (Single x) = wf_fac vs cf x"
| "wf_expr vs cf (Binop x op e) = (wf_fac vs cf x \<and> wf_expr vs cf e)"
| "wf_fac vs cf (Call_Fac g es) = (cf g (arg_count es) \<and> wf_args vs cf es)"
| "wf_fac vs cf (Var_Fac x) = (x \<in> vs)"
| "wf_fac vs cf (Num_Fac n) = True"
| "wf_fac vs cf (Paren_Fac e) = wf_expr vs cf e"
| "wf_args vs cf No_Args = True"
| "wf_args vs cf (Last_Arg e) = wf_expr vs cf e"
| "wf_args vs cf (Cons_Arg e es) = (wf_expr vs cf e \<and> wf_args vs cf es)"

lemma eval_args_length: "eval_args call es loc out = Ok (vs, out') \<Longrightarrow> length vs = arg_count es"
proof (induction es arbitrary: out vs out' rule: arg_count.induct)
  case (2 e)
  then show ?case by (cases "eval_expr call e loc out") auto
next
  case (3 e es)
  then obtain v out1 where v: "eval_expr call e loc out = Ok (v, out1)"
    by (cases "eval_expr call e loc out") auto
  with "3.prems" show ?case
    using "3.IH" [of out1] by (cases "eval_args call es loc out1") auto
qed simp

lemma expr_achieves:
  assumes W: "length (ve_code ve) < 2 ^ 32" and u: "unit_ok f u"
    and calls: "\<And>g n. cf g n \<Longrightarrow> call_linked ve p0 call addr u g n"
  shows "wf_expr (un_vars u) cf e \<Longrightarrow> code_in (ve_code ve) base (comp (un_layout u) base (expr_node f e)) \<Longrightarrow> S \<noteq> [] \<Longrightarrow>
      in_frame u below ret base S loc (printed p0 out) a \<Longrightarrow>
      achieves ve p0 (eval_expr call e loc out)
        (\<lambda>(v, out'). in_frame u below ret (base + code_size (comp (un_layout u) base (expr_node f e))) (S @ [v]) loc (printed p0 out')) a"
    and "wf_fac (un_vars u) cf x \<Longrightarrow> code_in (ve_code ve) base (comp (un_layout u) base (fac_node f x)) \<Longrightarrow> S \<noteq> [] \<Longrightarrow>
      in_frame u below ret base S loc (printed p0 out) a \<Longrightarrow>
      achieves ve p0 (eval_fac call x loc out)
        (\<lambda>(v, out'). in_frame u below ret (base + code_size (comp (un_layout u) base (fac_node f x))) (S @ [v]) loc (printed p0 out')) a"
    and "wf_args (un_vars u) cf es \<Longrightarrow> code_in (ve_code ve) base (comp (un_layout u) base (args_node f es)) \<Longrightarrow> S \<noteq> [] \<Longrightarrow>
      in_frame u below ret base S loc (printed p0 out) a \<Longrightarrow>
      achieves ve p0 (eval_args call es loc out)
        (\<lambda>(vs, out'). in_frame u below ret (base + code_size (comp (un_layout u) base (args_node f es))) (S @ vs) loc (printed p0 out')) a"
proof (induction e and x and es arbitrary: base S out a and base S out a and base S out a)
  case (Binop x op e)
  let ?c1 = "comp (un_layout u) base (fac_node f x)"
  let ?b1 = "base + code_size ?c1"
  let ?c2 = "comp (un_layout u) ?b1 (expr_node f e)"
  let ?b2 = "?b1 + code_size ?c2"
  have codes: "code_in (ve_code ve) base ?c1" "code_in (ve_code ve) ?b1 ?c2" "code_in (ve_code ve) ?b2 (op_code op)"
    using Binop.prems(2) by (simp_all add: code_in_append add.assoc)
  have op: "achieves ve p0 (sbind (numop_value op v w out2) (\<lambda>r. Ok (r, out2)))
      (\<lambda>(v, out'). in_frame u below ret (?b2 + code_size (op_code op)) (S @ [v]) loc (printed p0 out')) b"
    if start: "in_frame u below ret ?b2 ((S @ [v]) @ [w]) loc (printed p0 out2) b" for v w out2 b
  proof (cases "numop_instr op")
    case None
    then have "numop_value op v w out2 = Stuck" by (cases op) (auto simp: numop_instr_def)
    then show ?thesis by simp
  next
    case (Some i)
    then have "code_size (op_code op) = 1" "code_in (ve_code ve) ?b2 [elem i 0]"
      using codes(3) by (auto simp: op_code_def elem_size_def numop_instr_def info_of_def instr_info_table_def split: if_splits)
    moreover obtain C where "b = vm_at ?b2 (S @ [v, w]) C (printed p0 out2)" "frame_at u below ret loc C"
      using start by (auto simp: in_frame_def)
    ultimately show ?thesis
      using exec_numop [OF Some, of ve ?b2 0 p0 v w out2 S C]
      by (intro achieves_bind [where Q = "\<lambda>r b. b = vm_at (?b2 + 1) (S @ [r]) C (printed p0 out2)"])
        (auto intro!: leads.here)
  qed
  have fac: "achieves ve p0 (eval_fac call x loc out) (\<lambda>(v, out'). in_frame u below ret ?b1 (S @ [v]) loc (printed p0 out')) a"
    using Binop.IH(1) [OF _ codes(1) Binop.prems(3,4)] Binop.prems(1) by simp
  have rest: "achieves ve p0 (eval_expr call e loc out1)
      (\<lambda>(w, out'). in_frame u below ret ?b2 ((S @ [v]) @ [w]) loc (printed p0 out')) b"
    if "in_frame u below ret ?b1 (S @ [v]) loc (printed p0 out1) b" for v out1 b
    using Binop.IH(2) [OF _ codes(2) _ that] Binop.prems(1) by simp
  show ?case
    unfolding comp_expr eval_expr.simps code_size_simps add.assoc [symmetric]
    by (rule achieves_bind2 [OF fac], rule achieves_bind2 [OF rest], assumption) (rule op)
next
  case (Call_Fac g es)
  let ?c = "comp (un_layout u) base (args_node f es)"
  have codes: "code_in (ve_code ve) base ?c" "code_in (ve_code ve) (base + code_size ?c) (comp_call (un_layout u) (Val_Func g))"
    using Call_Fac.prems(2) by (simp_all add: code_in_append)
  have args: "achieves ve p0 (eval_args call es loc out)
      (\<lambda>(vs, out'). in_frame u below ret (base + code_size ?c) (S @ vs) loc (printed p0 out')) a"
    using Call_Fac.IH [OF _ codes(1) Call_Fac.prems(3,4)] Call_Fac.prems(1) by simp
  show ?case
    unfolding comp_fac eval_fac.simps code_size_simps add.assoc [symmetric]
  proof (rule achieves_bind2 [OF args])
    fix vs out1 b
    assume "eval_args call es loc out = Ok (vs, out1)" and b: "in_frame u below ret (base + code_size ?c) (S @ vs) loc (printed p0 out1) b"
    then have "call_linked ve p0 call addr u g (length vs)"
      using Call_Fac.prems(1) calls eval_args_length by simp
    from exec_call_site [OF codes(2) this u W Call_Fac.prems(3) b]
    show "achieves ve p0 (sbind (call g vs out1) (\<lambda>(r, out2). case r of None \<Rightarrow> Stuck | Some v \<Rightarrow> Ok (v, out2)))
        (\<lambda>(v, out'). in_frame u below ret (base + code_size ?c + code_size (comp_call (un_layout u) (Val_Func g))) (S @ [v]) loc (printed p0 out')) b"
      by (rule achieves_bind2) (auto split: option.splits intro: leads.here)
  qed
next
  case (Var_Fac x)
  obtain C where C: "a = vm_at base S C (printed p0 out)" "frame_at u below ret loc C"
    using Var_Fac.prems(4) by (auto simp: in_frame_def)
  have x: "un_pos u x < length C" "un_pos u x < 2 ^ 30" "la_pos (un_layout u) (Val_Var f x) = of_nat (un_pos u x)"
    using Var_Fac.prems(1) u frame_length [OF C(2)] by (auto simp: unit_ok_def)
  show ?case
  proof (cases "loc x")
    case (Some v)
    then have "slot C (un_pos u x) = v" using C(2) by (simp add: frame_at_def)
    then show ?thesis
      using Var_Fac.prems(2) x C Some by (auto intro!: exec_load in_frame_at)
  qed simp
next
  case (Num_Fac v)
  then show ?case by (auto simp: in_frame_def intro!: exec_push)
next
  case (Cons_Arg e es)
  let ?c1 = "comp (un_layout u) base (expr_node f e)"
  let ?b1 = "base + code_size ?c1"
  let ?c2 = "comp (un_layout u) ?b1 (args_node f es)"
  have codes: "code_in (ve_code ve) base ?c1" "code_in (ve_code ve) ?b1 ?c2"
    using Cons_Arg.prems(2) by (simp_all add: code_in_append)
  have first: "achieves ve p0 (eval_expr call e loc out) (\<lambda>(v, out'). in_frame u below ret ?b1 (S @ [v]) loc (printed p0 out')) a"
    using Cons_Arg.IH(1) [OF _ codes(1) Cons_Arg.prems(3,4)] Cons_Arg.prems(1) by simp
  have rest: "achieves ve p0 (eval_args call es loc out1)
      (\<lambda>(vs, out'). in_frame u below ret (?b1 + code_size ?c2) ((S @ [v]) @ vs) loc (printed p0 out')) b"
    if "in_frame u below ret ?b1 (S @ [v]) loc (printed p0 out1) b" for v out1 b
    using Cons_Arg.IH(2) [OF _ codes(2) _ that] Cons_Arg.prems(1) by simp
  show ?case
    unfolding comp_args eval_args.simps code_size_simps add.assoc [symmetric]
    by (rule achieves_bind2 [OF first], rule achieves_bind2 [OF rest], assumption) (auto intro: leads.here)
next
  case (Last_Arg e)
  have first: "achieves ve p0 (eval_expr call e loc out)
      (\<lambda>(v, out'). in_frame u below ret (base + code_size (comp (un_layout u) base (expr_node f e))) (S @ [v]) loc (printed p0 out')) a"
    using Last_Arg.IH [OF _ _ Last_Arg.prems(3,4)] Last_Arg.prems(1,2) by simp
  show ?case unfolding comp_args eval_args.simps by (rule achieves_bind2 [OF first]) (auto intro: leads.here)
qed (auto intro: leads.here)

section \<open>Conditions\<close>

lemma jcc_at:
  assumes "code_in (ve_code ve) pc [elem i (of_nat t)]" "has_arg i" "S \<noteq> []" "t < length (ve_code ve)" "length (ve_code ve) < 2 ^ 32"
  shows "vm_jcc c ve (vm_at pc (S @ [v, w]) C p) = Running (vm_at (if c v w then t else pc + 2) S C p)"
proof -
  have W: "ve_code ve ! (pc + 1) = of_nat t" "pc + 2 < length (ve_code ve)"
    using code_in_elem [OF assms(1)] assms(2) by (simp_all add: elem_size_def)
  show ?thesis
    using W assms(3-5) by (simp add: vm_jcc_def pop_two pop_one vm_top_def vm_jmp_def vm_jump_def vm_target_at)
qed

lemma jcc_has_arg:
  "boolop_value op v w = Ok b \<Longrightarrow> has_arg (boolop_to_jmp_instr op) \<and> has_arg (neg_jmp_instr (boolop_to_jmp_instr op))"
  by (cases op) (simp_all add: info_of_def instr_info_table_def)

text \<open>The jump of a condition, negated or not.\<close>

definition cond_jump :: "bool \<Rightarrow> token_type \<Rightarrow> instr_type" where
  "cond_jump neg op = (if neg then neg_jmp_instr (boolop_to_jmp_instr op) else boolop_to_jmp_instr op)"

lemma exec_cond_jump:
  assumes "boolop_value op v w = Ok b" "code_in (ve_code ve) pc [elem (cond_jump neg op) (of_nat t)]"
    "S \<noteq> []" "t < length (ve_code ve)" "length (ve_code ve) < 2 ^ 32" "Q (vm_at (if b = neg then pc + 2 else t) S C p)"
  shows "leads ve overflow Q (vm_at pc (S @ [v, w]) C p)"
proof -
  have jcc: "vm_jcc c ve (vm_at pc (S @ [v, w]) C p) = Running (vm_at (if c v w then t else pc + 2) S C p)" for c
    using jcc_at [OF assms(2) _ assms(3-5)] jcc_has_arg [OF assms(1)] by (simp add: cond_jump_def)
  have "vm_exec junk ve (cond_jump neg op) (vm_at pc (S @ [v, w]) C p) = Running (vm_at (if b = neg then pc + 2 else t) S C p)" for junk
    using assms(1) by (cases op; cases neg) (auto simp: cond_jump_def jcc)
  then show ?thesis using assms(6) by (intro leads_exec [OF assms(2)]) simp
qed

fun wf_cond :: "string set \<Rightarrow> (string \<Rightarrow> nat \<Rightarrow> bool) \<Rightarrow> cond \<Rightarrow> bool" where
  "wf_cond vs cf (Cond e1 op e2) = (wf_expr vs cf e1 \<and> wf_expr vs cf e2)"

definition neg_code :: "bool \<Rightarrow> code_elem list \<Rightarrow> code_elem list" where
  "neg_code neg code = (if neg then negated code else code)"

lemma comp_cond_node:
  "comp ly b (cond_node f (Cond e1 op e2)) =
     comp ly b (expr_node f e1) @ comp ly (b + code_size (comp ly b (expr_node f e1))) (expr_node f e2) @
     [elem (boolop_to_jmp_instr op) 0]"
  by (simp add: boolop_node_def Let_def)

declare cond_node.simps [simp del]

lemma aim_neg_cond:
  "aim t (neg_code neg (comp ly b (cond_node f (Cond e1 op e2)))) =
     comp ly b (expr_node f e1) @ comp ly (b + code_size (comp ly b (expr_node f e1))) (expr_node f e2) @
     [elem (cond_jump neg op) (of_nat t)]"
  unfolding comp_cond_node by (simp add: aim_def neg_code_def negated_def cond_jump_def butlast_append)

lemma size_aim_neg_cond [simp]:
  "code_size (aim t (neg_code neg (comp ly b (cond_node f c)))) = code_size (comp ly b (cond_node f c))"
proof (cases c)
  case (Cond e1 op e2)
  show ?thesis unfolding Cond aim_neg_cond unfolding comp_cond_node using neg_jmp_has_arg [of op] by (simp add: cond_jump_def elem_size_def)
qed

lemma cond_achieves:
  assumes W: "length (ve_code ve) < 2 ^ 32" and u: "unit_ok f u"
    and calls: "\<And>g n. cf g n \<Longrightarrow> call_linked ve p0 call addr u g n"
    and wf: "wf_cond (un_vars u) cf c"
    and code: "code_in (ve_code ve) base (aim t (neg_code neg (comp (un_layout u) base (cond_node f c))))"
    and S: "S \<noteq> []" and t: "t < length (ve_code ve)"
    and start: "in_frame u below ret base S loc (printed p0 out) a"
  shows "achieves ve p0 (eval_cond call c loc out)
    (\<lambda>(b, out'). in_frame u below ret (if b = neg then base + code_size (comp (un_layout u) base (cond_node f c)) else t) S loc (printed p0 out')) a"
proof (cases c)
  case (Cond e1 op e2)
  let ?c1 = "comp (un_layout u) base (expr_node f e1)"
  let ?b1 = "base + code_size ?c1"
  let ?c2 = "comp (un_layout u) ?b1 (expr_node f e2)"
  let ?b2 = "?b1 + code_size ?c2"
  have codes: "code_in (ve_code ve) base ?c1" "code_in (ve_code ve) ?b1 ?c2"
      "code_in (ve_code ve) ?b2 [elem (cond_jump neg op) (of_nat t)]"
    using code unfolding Cond aim_neg_cond by (simp_all add: code_in_append add.assoc)
  have wfs: "wf_expr (un_vars u) cf e1" "wf_expr (un_vars u) cf e2" using wf by (simp_all add: Cond)
  have size: "base + code_size (comp (un_layout u) base (cond_node f c)) = ?b2 + elem_size (elem (boolop_to_jmp_instr op) 0)"
    unfolding Cond comp_cond_node by simp
  have first: "achieves ve p0 (eval_expr call e1 loc out) (\<lambda>(v, out'). in_frame u below ret ?b1 (S @ [v]) loc (printed p0 out')) a"
    using expr_achieves(1) [OF W u calls wfs(1) codes(1) S start] .
  have second: "achieves ve p0 (eval_expr call e2 loc out1)
      (\<lambda>(w, out'). in_frame u below ret ?b2 ((S @ [v]) @ [w]) loc (printed p0 out')) b"
    if "in_frame u below ret ?b1 (S @ [v]) loc (printed p0 out1) b" for v out1 b
    using expr_achieves(1) [OF W u calls wfs(2) codes(2) _ that] by simp
  have jump: "achieves ve p0 (sbind (boolop_value op v w) (\<lambda>b. Ok (b, out2)))
      (\<lambda>(b, out'). in_frame u below ret (if b = neg then base + code_size (comp (un_layout u) base (cond_node f c)) else t) S loc (printed p0 out')) b"
    if at: "in_frame u below ret ?b2 ((S @ [v]) @ [w]) loc (printed p0 out2) b" for v w out2 b
  proof (cases "boolop_value op v w")
    case (Ok r)
    obtain C where C: "b = vm_at ?b2 (S @ [v, w]) C (printed p0 out2)" "frame_at u below ret loc C"
      using at by (auto simp: in_frame_def)
    have "elem_size (elem (boolop_to_jmp_instr op) 0) = 2" using jcc_has_arg [OF Ok] by (simp add: elem_size_def)
    then show ?thesis
      unfolding size Ok C(1) using C(2) by (auto intro!: exec_cond_jump [OF Ok codes(3) S t W])
  qed (cases op; simp)+
  show ?thesis
    unfolding Cond eval_cond.simps
    by (rule achieves_bind2 [OF first], rule achieves_bind2 [OF second], assumption)
      (rule jump [unfolded Cond])
qed

end
