(* ===== verification/Correct_Body.thy ===== *)
theory Correct_Body
  imports Correct
begin

text \<open>
  Statements, branches, loops and whole functions: the second half of the proof that the code of
  a function achieves what its body means. The induction on the fuel of the evaluator is over the
  nesting of calls; loops have an inner induction over their turns.
\<close>

section \<open>The code of statements and items\<close>

lemma node_not_null [simp]:
  "expr_node f e \<noteq> NULL_NODE" "items_node f is \<noteq> NULL_NODE" "cond_node f c \<noteq> NULL_NODE"
proof -
  show "expr_node f e \<noteq> NULL_NODE" by (cases e) (simp_all add: expr_node.simps)
  show "items_node f is \<noteq> NULL_NODE" by (cases "is") (simp_all add: create_empty_def)
  show "cond_node f c \<noteq> NULL_NODE" by (cases c) (simp add: cond_node.simps)
qed

lemma comp_stat [simp]:
  "comp ly b (stat_node f (Var_Def x None)) = []"
  "comp ly b (stat_node f (Var_Def x (Some e))) = comp ly b (expr_node f e) @ [elem INSTR_STORE (la_pos ly (Val_Var f x))]"
  "comp ly b (stat_node f (Var_Assign x e)) = comp ly b (expr_node f e) @ [elem INSTR_STORE (la_pos ly (Val_Var f x))]"
  "comp ly b (stat_node f (Call_Stat g es)) = comp ly b (args_node f es) @ comp_call ly (Val_Func g)"
  "comp ly b (stat_node f (Print_Stat e)) = comp ly b (expr_node f e) @ [elem INSTR_PRINT 0]"
  "comp ly b (stat_node f (Return_Stat None)) = comp_return ly"
  "comp ly b (stat_node f (Return_Stat (Some e))) = comp ly b (expr_node f e) @ comp_return ly"
  by (simp_all add: opt_node_def)

lemma kind_of_nodes [simp]:
  "kind_of (cond_node f c) = While_Loop" "kind_of (items_node f is) = Do_While_Loop"
  "kind_of (Node AST_FOR_LOOP_HEAD v l m r) = For_Loop"
  by (cases c; cases "is"; simp add: kind_of_def loop_type_def cond_node.simps create_empty_def)+

lemma comp_branch:
  "comp ly b (item_node f (If_Item c is)) =
     (let b1 = b + code_size (comp ly b (cond_node f c));
          th = comp ly b1 (items_node f is)
      in aim (b1 + code_size th) (neg_code True (comp ly b (cond_node f c))) @ th)"
  "comp ly b (item_node f (If_Else_Item c is js)) =
     (let b1 = b + code_size (comp ly b (cond_node f c));
          th = comp ly b1 (items_node f is);
          b2 = b1 + code_size th + 2;
          el = comp ly b2 (items_node f js)
      in aim b2 (neg_code True (comp ly b (cond_node f c))) @ th @ elem INSTR_JMP (of_nat (b2 + code_size el)) # el)"
  by (simp_all add: Let_def neg_code_def)

lemma comp_loop:
  "comp ly b (item_node f (While_Item c is)) =
     (let body = comp ly (b + 2) (items_node f is);
          b1 = b + 2 + code_size body
      in elem INSTR_JMP (of_nat b1) # body @ aim (b + 2) (neg_code False (comp ly b1 (cond_node f c))))"
  "comp ly b (item_node f (For_Item s c t is)) =
     (let init = comp ly b (stat_node f s);
          b0 = b + code_size init + 2;
          body = comp ly b0 (items_node f is);
          inc = comp ly (b0 + code_size body) (stat_node f t);
          b1 = b0 + code_size body + code_size inc
      in init @ elem INSTR_JMP (of_nat b1) # body @ inc @ aim b0 (neg_code False (comp ly b1 (cond_node f c))))"
  "comp ly b (item_node f (Do_Item is c)) =
     (let body = comp ly b (items_node f is)
      in body @ aim b (neg_code False (comp ly (b + code_size body) (cond_node f c))))"
  by (simp_all add: Let_def neg_code_def)

lemma comp_items [simp]:
  "comp ly b (item_node f (Stat_Item s)) = comp ly b (stat_node f s)"
  "comp ly b (items_node f []) = []"
  "comp ly b (items_node f (i # is)) = comp ly b (item_node f i) @ comp ly (b + code_size (comp ly b (item_node f i))) (items_node f is)"
  by (simp_all add: Let_def create_empty_def)

declare stat_node.simps [simp del] item_node.simps [simp del] items_node.simps [simp del]

section \<open>Well-formed bodies\<close>

text \<open>The calls that a body makes as statements are counted apart.\<close>

fun wf_stat :: "string set \<Rightarrow> (string \<Rightarrow> nat \<Rightarrow> bool) \<Rightarrow> (string \<Rightarrow> nat \<Rightarrow> bool) \<Rightarrow> stat \<Rightarrow> bool" where
  "wf_stat vs cf cs (Var_Def x None) = (x \<in> vs)"
| "wf_stat vs cf cs (Var_Def x (Some e)) = (x \<in> vs \<and> wf_expr vs cf e)"
| "wf_stat vs cf cs (Var_Assign x e) = (x \<in> vs \<and> wf_expr vs cf e)"
| "wf_stat vs cf cs (Call_Stat g es) = (cs g (arg_count es) \<and> wf_args vs cf es)"
| "wf_stat vs cf cs (Print_Stat e) = wf_expr vs cf e"
| "wf_stat vs cf cs (Return_Stat None) = True"
| "wf_stat vs cf cs (Return_Stat (Some e)) = wf_expr vs cf e"

fun wf_item :: "string set \<Rightarrow> (string \<Rightarrow> nat \<Rightarrow> bool) \<Rightarrow> (string \<Rightarrow> nat \<Rightarrow> bool) \<Rightarrow> item \<Rightarrow> bool"
  and wf_items :: "string set \<Rightarrow> (string \<Rightarrow> nat \<Rightarrow> bool) \<Rightarrow> (string \<Rightarrow> nat \<Rightarrow> bool) \<Rightarrow> item list \<Rightarrow> bool" where
  "wf_item vs cf cs (Stat_Item s) = wf_stat vs cf cs s"
| "wf_item vs cf cs (If_Item c is) = (wf_cond vs cf c \<and> wf_items vs cf cs is)"
| "wf_item vs cf cs (If_Else_Item c is js) = (wf_cond vs cf c \<and> wf_items vs cf cs is \<and> wf_items vs cf cs js)"
| "wf_item vs cf cs (While_Item c is) = (wf_cond vs cf c \<and> wf_items vs cf cs is)"
| "wf_item vs cf cs (For_Item s c t is) =
     (wf_stat vs cf cs s \<and> wf_cond vs cf c \<and> wf_stat vs cf cs t \<and> wf_items vs cf cs is)"
| "wf_item vs cf cs (Do_Item is c) = (wf_items vs cf cs is \<and> wf_cond vs cf c)"
| "wf_items vs cf cs [] = True"
| "wf_items vs cf cs (i # is) = (wf_item vs cf cs i \<and> wf_items vs cf cs is)"

section \<open>Statements\<close>

text \<open>
  The state after a construct: in the frame behind its code, or back at the return address with
  the returned value on the operand stack.
\<close>

definition flow_post ::
  "unit_info \<Rightarrow> u32 list \<Rightarrow> nat \<Rightarrow> nat \<Rightarrow> u32 list \<Rightarrow> printer \<Rightarrow> flow \<Rightarrow> u32 list \<Rightarrow> vm \<Rightarrow> bool" where
  "flow_post u below t pc S p0 fl out =
     (case fl of
        Next loc \<Rightarrow> in_frame u below (of_nat t) pc S loc (printed p0 out)
      | Returned r \<Rightarrow> (\<lambda>b. \<exists>xs. length xs = un_args u \<and> b = vm_at t (S @ opt_word r) (below @ xs) (printed p0 out)))"

lemma flow_post_simps [simp]:
  "flow_post u below t pc S p0 (Next loc) out = in_frame u below (of_nat t) pc S loc (printed p0 out)"
  "flow_post u below t pc S p0 (Returned r) out =
     (\<lambda>b. \<exists>xs. length xs = un_args u \<and> b = vm_at t (S @ opt_word r) (below @ xs) (printed p0 out))"
  by (simp_all add: flow_post_def)

text \<open>What the code of a body is run with.\<close>

definition body_env ::
  "vm_env \<Rightarrow> printer \<Rightarrow> caller \<Rightarrow> (string \<Rightarrow> nat) \<Rightarrow> string \<Rightarrow> unit_info \<Rightarrow> u32 list \<Rightarrow> nat \<Rightarrow>
   (string \<Rightarrow> nat \<Rightarrow> bool) \<Rightarrow> (string \<Rightarrow> nat \<Rightarrow> bool) \<Rightarrow> bool" where
  "body_env ve p0 call addr f u below t cf cs \<longleftrightarrow>
     length (ve_code ve) < 2 ^ 32 \<and> unit_ok f u \<and> t < length (ve_code ve) \<and> 0 < length below + un_args u \<and>
     (\<forall>g n. cf g n \<longrightarrow> call_linked ve p0 call addr u g n) \<and>
     (\<forall>g n. cs g n \<longrightarrow> call_linked ve p0 call addr u g n \<and> (\<forall>vs out r out'. call g vs out = Ok (r, out') \<longrightarrow> r = None))"

lemma exec_return:
  assumes env: "body_env ve p0 call addr f u below t cf cs" and code: "code_in (ve_code ve) pc (comp_return (un_layout u))"
    and start: "in_frame u below (of_nat t) pc S loc p a"
  shows "leads ve overflow (\<lambda>b. \<exists>xs. length xs = un_args u \<and> b = vm_at t S (below @ xs) p) a"
proof -
  obtain xs ys where a: "a = vm_at pc S ((below @ xs @ [of_nat t]) @ ys) p" and len: "length xs = un_args u" "length ys = un_frame u"
    using start by (auto simp: in_frame_def frame_at_def)
  have env': "t < length (ve_code ve)" "length (ve_code ve) < 2 ^ 32" "un_frame u < 2 ^ 30" "below @ xs \<noteq> []"
    using env len by (auto simp: body_env_def unit_ok_def)
  let ?Q = "\<lambda>b. \<exists>xs. length xs = un_args u \<and> b = vm_at t S (below @ xs) p"
  have ret: "leads ve overflow ?Q (vm_at pc' S ((below @ xs) @ [of_nat t]) p)"
    if "code_in (ve_code ve) pc' [elem INSTR_RET 0]" for pc'
    by (rule exec_ret [OF that env'(1,2,4)]) (use len in auto)
  show ?thesis
  proof (cases "un_frame u = 0")
    case True
    then show ?thesis using ret [of pc] code len by (simp add: a comp_return_def)
  next
    case False
    then have codes: "code_in (ve_code ve) pc [elem INSTR_EPILOG (of_nat (un_frame u))]" "code_in (ve_code ve) (pc + 2) [elem INSTR_RET 0]"
      using code code_in_Cons [of _ _ _ "[elem INSTR_RET 0]"] by (simp_all add: comp_return_def)
    have "leads ve overflow (leads ve overflow ?Q) a"
      unfolding a by (rule exec_epilog [OF codes(1) env'(3) len(2)]) (use ret [OF codes(2)] in auto)
    then show ?thesis by (auto elim: leads_trans)
  qed
qed

lemma exec_store_var:
  assumes "code_in (ve_code ve) pc [elem INSTR_STORE (la_pos (un_layout u) (Val_Var f x))]" "unit_ok f u" "x \<in> un_vars u" "S \<noteq> []"
    and "in_frame u below ret pc (S @ [v]) loc p a"
  shows "leads ve overflow (in_frame u below ret (pc + 2) S (loc(x \<mapsto> v)) p) a"
proof -
  obtain C where a: "a = vm_at pc (S @ [v]) C p" and C: "frame_at u below ret loc C"
    using assms(5) by (auto simp: in_frame_def)
  have x: "un_pos u x < length C" "un_pos u x < 2 ^ 30" "la_pos (un_layout u) (Val_Var f x) = of_nat (un_pos u x)"
    using assms(2,3) frame_length [OF C] by (auto simp: unit_ok_def)
  show ?thesis
    unfolding a using assms(1) x frame_store [OF C assms(2,3)] by (intro exec_store [OF _ x(2,1) assms(4)]) auto
qed

lemma stat_achieves:
  assumes env: "body_env ve p0 call addr f u below t cf cs" and S: "S \<noteq> []"
    and wf: "wf_stat (un_vars u) cf cs s" and code: "code_in (ve_code ve) base (comp (un_layout u) base (stat_node f s))"
    and start: "in_frame u below (of_nat t) base S loc (printed p0 out) a"
  shows "achieves ve p0 (exec_stat call s loc out)
    (\<lambda>(fl, out'). flow_post u below t (base + code_size (comp (un_layout u) base (stat_node f s))) S p0 fl out') a"
proof -
  have W: "length (ve_code ve) < 2 ^ 32" and u: "unit_ok f u" and calls: "\<And>g n. cf g n \<Longrightarrow> call_linked ve p0 call addr u g n"
    using env by (auto simp: body_env_def)
  have expr: "achieves ve p0 (eval_expr call e loc out)
      (\<lambda>(v, out'). in_frame u below (of_nat t) (base + code_size (comp (un_layout u) base (expr_node f e))) (S @ [v]) loc (printed p0 out')) a"
    if "wf_expr (un_vars u) cf e" "code_in (ve_code ve) base (comp (un_layout u) base (expr_node f e))" for e
    using expr_achieves(1) [OF W u calls that S start] .
  have store: "achieves ve p0 (sbind (eval_expr call e loc out) (\<lambda>(v, out1). Ok (Next (loc(x \<mapsto> v)), out1)))
      (\<lambda>(fl, out'). flow_post u below t (base + code_size (comp (un_layout u) base (expr_node f e)) + 2) S p0 fl out') a"
    if "wf_expr (un_vars u) cf e" "x \<in> un_vars u" "code_in (ve_code ve) base (comp (un_layout u) base (expr_node f e))"
      "code_in (ve_code ve) (base + code_size (comp (un_layout u) base (expr_node f e))) [elem INSTR_STORE (la_pos (un_layout u) (Val_Var f x))]" for e x
    by (rule achieves_bind2 [OF expr [OF that(1,3)]])
      (simp only: achieves_simps prod.case flow_post_simps, rule exec_store_var [OF that(4) u that(2) S])
  show ?thesis
  proof (cases s)
    case (Var_Def x eo)
    then show ?thesis
      using store wf code start by (cases eo) (auto simp: code_in_append add.assoc intro!: leads.here)
  next
    case (Var_Assign x e)
    then show ?thesis using store wf code by (auto simp: code_in_append add.assoc)
  next
    case (Call_Stat g es)
    let ?c = "comp (un_layout u) base (args_node f es)"
    have codes: "code_in (ve_code ve) base ?c" "code_in (ve_code ve) (base + code_size ?c) (comp_call (un_layout u) (Val_Func g))"
      using code Call_Stat by (simp_all add: code_in_append)
    have wfs: "wf_args (un_vars u) cf es" "cs g (arg_count es)" using wf Call_Stat by simp_all
    have args: "achieves ve p0 (eval_args call es loc out)
        (\<lambda>(vs, out'). in_frame u below (of_nat t) (base + code_size ?c) (S @ vs) loc (printed p0 out')) a"
      using expr_achieves(3) [OF W u calls wfs(1) codes(1) S start] .
    have "achieves ve p0 (sbind (eval_args call es loc out) (\<lambda>(vs, out1). sbind (call g vs out1) (\<lambda>(r, out2). Ok (Next loc, out2))))
        (\<lambda>(fl, out'). flow_post u below t (base + code_size ?c + code_size (comp_call (un_layout u) (Val_Func g))) S p0 fl out') a"
    proof (rule achieves_bind2 [OF args])
      fix vs out1 b
      assume vs: "eval_args call es loc out = Ok (vs, out1)" and b: "in_frame u below (of_nat t) (base + code_size ?c) (S @ vs) loc (printed p0 out1) b"
      have linked: "call_linked ve p0 call addr u g (length vs)"
        using env wfs(2) eval_args_length [OF vs] by (auto simp: body_env_def)
      have void: "call g vs out1 = Ok (r, out') \<Longrightarrow> r = None" for r out'
        using env wfs(2) unfolding body_env_def by blast
      from exec_call_site [OF codes(2) linked u W S b]
      show "achieves ve p0 (sbind (call g vs out1) (\<lambda>(r, out2). Ok (Next loc, out2)))
          (\<lambda>(fl, out'). flow_post u below t (base + code_size ?c + code_size (comp_call (un_layout u) (Val_Func g))) S p0 fl out') b"
        by (rule achieves_bind2) (use void in \<open>auto intro!: leads.here\<close>)
    qed
    then show ?thesis unfolding Call_Stat by (simp add: add.assoc)
  next
    case (Print_Stat e)
    have codes: "code_in (ve_code ve) base (comp (un_layout u) base (expr_node f e))"
        "code_in (ve_code ve) (base + code_size (comp (un_layout u) base (expr_node f e))) [elem INSTR_PRINT 0]"
      using code Print_Stat by (simp_all add: code_in_append)
    have "wf_expr (un_vars u) cf e" using wf Print_Stat by simp
    note e = expr [OF this codes(1)]
    show ?thesis
      unfolding Print_Stat exec_stat.simps comp_stat code_size_simps elem_sizes add_0_right add.assoc [symmetric]
      by (rule achieves_bind2 [OF e]) (auto simp: in_frame_def intro!: exec_print [OF codes(2) S])
  next
    case (Return_Stat eo)
    show ?thesis
    proof (cases eo)
      case None
      then show ?thesis
        using exec_return [OF env _ start] code Return_Stat by simp
    next
      case (Some e)
      have codes: "code_in (ve_code ve) base (comp (un_layout u) base (expr_node f e))"
          "code_in (ve_code ve) (base + code_size (comp (un_layout u) base (expr_node f e))) (comp_return (un_layout u))"
        using code Return_Stat Some by (simp_all add: code_in_append)
      have "wf_expr (un_vars u) cf e" using wf Return_Stat Some by simp
      note e = expr [OF this codes(1)]
      show ?thesis
        unfolding Return_Stat Some exec_stat.simps
        by (rule achieves_bind2 [OF e]) (use exec_return [OF env codes(2)] in auto)
    qed
  qed
qed

section \<open>Items\<close>

lemma achieves_then_next:
  assumes "achieves ve p0 m (\<lambda>(fl, out'). flow_post u below t pc S p0 fl out') a"
    and "\<And>loc out b. in_frame u below (of_nat t) pc S loc (printed p0 out) b \<Longrightarrow>
      achieves ve p0 (k loc out) (\<lambda>(fl, out'). flow_post u below t pc' S p0 fl out') b"
  shows "achieves ve p0 (then_next m k) (\<lambda>(fl, out'). flow_post u below t pc' S p0 fl out') a"
  unfolding then_next_def
  by (rule achieves_bind2 [OF assms(1)]) (use assms(2) in \<open>auto intro: leads.here split: flow.splits\<close>)

lemma loop_achieves:
  assumes test: "\<And>loc out b. in_frame u below (of_nat t) b1 S loc (printed p0 out) b \<Longrightarrow>
      achieves ve p0 (test loc out) (\<lambda>(r, out'). in_frame u below (of_nat t) (if r then b0 else b2) S loc (printed p0 out')) b"
    and body: "\<And>loc out b. in_frame u below (of_nat t) b0 S loc (printed p0 out) b \<Longrightarrow>
      achieves ve p0 (body loc out) (\<lambda>(fl, out'). flow_post u below t b1 S p0 fl out') b"
  shows "in_frame u below (of_nat t) b1 S loc (printed p0 out) a \<Longrightarrow>
    achieves ve p0 (loop_turns n test body loc out) (\<lambda>(fl, out'). flow_post u below t b2 S p0 fl out') a"
proof (induction n arbitrary: loc out a)
  case (Suc n)
  have turn: "achieves ve p0 (if r then then_next (body loc out1) (loop_turns n test body) else Ok (Next loc, out1))
      (\<lambda>(fl, out'). flow_post u below t b2 S p0 fl out') b"
    if "in_frame u below (of_nat t) (if r then b0 else b2) S loc (printed p0 out1) b" for r out1 b
    using that Suc.IH by (cases r) (auto intro: leads.here achieves_then_next [OF body])
  show ?case
    unfolding loop_turns.simps by (rule achieves_bind2 [OF test [OF Suc.prems]]) (rule turn)
qed simp

lemma jmp_first:
  assumes "length (ve_code ve) < 2 ^ 32" "code_in (ve_code ve) pc [elem INSTR_JMP (of_nat t')]" "t' < length (ve_code ve)"
    and "in_frame u below ret pc S loc p a" "\<And>b. in_frame u below ret t' S loc p b \<Longrightarrow> achieves ve p0 r Q b"
  shows "achieves ve p0 r Q a"
proof -
  obtain C where a: "a = vm_at pc S C p" "frame_at u below ret loc C" using assms(4) by (auto simp: in_frame_def)
  show ?thesis
    unfolding a(1) by (rule achieves_after, rule exec_jmp [OF assms(2,3,1)]) (use a(2) assms(5) in auto)
qed

lemma cond_in:
  assumes env: "body_env ve p0 call addr f u below t cf cs" and S: "S \<noteq> []" and wf: "wf_cond (un_vars u) cf c"
    and code: "code_in (ve_code ve) base (aim t' (neg_code neg (comp (un_layout u) base (cond_node f c))))"
    and t': "t' < length (ve_code ve)" and start: "in_frame u below ret base S loc (printed p0 out) a"
  shows "achieves ve p0 (eval_cond call c loc out)
    (\<lambda>(b, out'). in_frame u below ret (if b = neg then base + code_size (comp (un_layout u) base (cond_node f c)) else t') S loc (printed p0 out')) a"
proof -
  have W: "length (ve_code ve) < 2 ^ 32" and u: "unit_ok f u" and calls: "\<And>g n. cf g n \<Longrightarrow> call_linked ve p0 call addr u g n"
    using env by (auto simp: body_env_def)
  show ?thesis using cond_achieves [OF W u calls wf code S t' start] .
qed

lemma cond_back:
  assumes "body_env ve p0 call addr f u below t cf cs" "S \<noteq> []" "wf_cond (un_vars u) cf c"
    and "code_in (ve_code ve) base (aim t' (neg_code False (comp (un_layout u) base (cond_node f c))))"
    and "t' < length (ve_code ve)" "in_frame u below ret base S loc (printed p0 out) a"
  shows "achieves ve p0 (eval_cond call c loc out)
    (\<lambda>(b, out'). in_frame u below ret (if b then t' else base + code_size (comp (un_layout u) base (cond_node f c))) S loc (printed p0 out')) a"
proof -
  have "(if b = False then x else y) = (if b then y else x)" for b and x y :: nat by simp
  with cond_in [OF assms] show ?thesis by (simp only:)
qed

lemma item_achieves:
  assumes env: "body_env ve p0 call addr f u below t cf cs" and S: "S \<noteq> []"
  shows "wf_item (un_vars u) cf cs i \<Longrightarrow> code_in (ve_code ve) base (comp (un_layout u) base (item_node f i)) \<Longrightarrow>
      in_frame u below (of_nat t) base S loc (printed p0 out) a \<Longrightarrow>
      achieves ve p0 (exec_item call n i loc out)
        (\<lambda>(fl, out'). flow_post u below t (base + code_size (comp (un_layout u) base (item_node f i))) S p0 fl out') a"
    and "wf_items (un_vars u) cf cs is \<Longrightarrow> code_in (ve_code ve) base (comp (un_layout u) base (items_node f is)) \<Longrightarrow>
      in_frame u below (of_nat t) base S loc (printed p0 out) a \<Longrightarrow>
      achieves ve p0 (exec_items call n is loc out)
        (\<lambda>(fl, out'). flow_post u below t (base + code_size (comp (un_layout u) base (items_node f is))) S p0 fl out') a"
proof (induction i and "is" arbitrary: base loc out a and base loc out a rule: items_induct)
  case (Stat s)
  then show ?case using stat_achieves [OF env S] by simp
next
  case (If c "is")
  let ?L = "un_layout u"
  let ?c = "comp ?L base (cond_node f c)"
  let ?b1 = "base + code_size ?c"
  let ?th = "comp ?L ?b1 (items_node f is)"
  have codes: "code_in (ve_code ve) base (aim (?b1 + code_size ?th) (neg_code True ?c))" "code_in (ve_code ve) ?b1 ?th"
    using If.prems(2) unfolding comp_branch Let_def by (simp_all add: code_in_append)
  have size: "base + code_size (comp ?L base (item_node f (If_Item c is))) = ?b1 + code_size ?th"
    unfolding comp_branch Let_def by simp
  have test: "achieves ve p0 (eval_cond call c loc out)
      (\<lambda>(b, out'). in_frame u below (of_nat t) (if b = True then ?b1 else ?b1 + code_size ?th) S loc (printed p0 out')) a"
    using cond_in [OF env S _ codes(1) code_in_end [OF codes(2)] If.prems(3)] If.prems(1) by simp
  show ?case
    unfolding exec_item.simps size
    by (rule achieves_bind2 [OF test]) (use If.IH [OF _ codes(2)] If.prems(1) in \<open>auto intro: leads.here split: if_splits\<close>)
next
  case (If_Else c "is" js)
  let ?L = "un_layout u"
  let ?c = "comp ?L base (cond_node f c)"
  let ?b1 = "base + code_size ?c"
  let ?th = "comp ?L ?b1 (items_node f is)"
  let ?b2 = "?b1 + code_size ?th + 2"
  let ?el = "comp ?L ?b2 (items_node f js)"
  let ?fin = "?b2 + code_size ?el"
  have codes: "code_in (ve_code ve) base (aim ?b2 (neg_code True ?c))" "code_in (ve_code ve) ?b1 ?th"
      "code_in (ve_code ve) (?b1 + code_size ?th) [elem INSTR_JMP (of_nat ?fin)]" "code_in (ve_code ve) ?b2 ?el"
    using If_Else.prems(2) code_in_Cons [of _ _ _ ?el] unfolding comp_branch Let_def by (simp_all add: code_in_append add.assoc)
  have size: "base + code_size (comp ?L base (item_node f (If_Else_Item c is js))) = ?fin"
    unfolding comp_branch Let_def by simp
  have ends: "?b2 < length (ve_code ve)" "?fin < length (ve_code ve)"
    using code_in_end [OF codes(4)] by auto
  have test: "achieves ve p0 (eval_cond call c loc out)
      (\<lambda>(b, out'). in_frame u below (of_nat t) (if b = True then ?b1 else ?b2) S loc (printed p0 out')) a"
    using cond_in [OF env S _ codes(1) ends(1) If_Else.prems(3)] If_Else.prems(1) by simp
  have W: "length (ve_code ve) < 2 ^ 32" using env by (simp add: body_env_def)
  have th: "achieves ve p0 (exec_items call n is loc out1) (\<lambda>(fl, out'). flow_post u below t ?fin S p0 fl out') b"
    if at: "in_frame u below (of_nat t) ?b1 S loc (printed p0 out1) b" for out1 b
  proof -
    have "achieves ve p0 (exec_items call n is loc out1)
        (\<lambda>(fl, out'). flow_post u below t (?b1 + code_size ?th) S p0 fl out') b"
      using If_Else.IH(1) [OF _ codes(2) at] If_Else.prems(1) by simp
    then have "achieves ve p0 (then_next (exec_items call n is loc out1) (\<lambda>loc out. Ok (Next loc, out)))
        (\<lambda>(fl, out'). flow_post u below t ?fin S p0 fl out') b"
      by (rule achieves_then_next) (rule jmp_first [OF W codes(3) ends(2)], assumption, simp add: leads.here)
    moreover have "then_next m (\<lambda>loc out. Ok (Next loc, out)) = m" for m
      unfolding then_next_def by (cases m) (auto split: flow.splits)
    ultimately show ?thesis by simp
  qed
  show ?case
    unfolding exec_item.simps size
    by (rule achieves_bind2 [OF test]) (use th If_Else.IH(2) [OF _ codes(4)] If_Else.prems(1) in \<open>auto split: if_splits\<close>)
next
  case (While c "is")
  let ?L = "un_layout u"
  let ?body = "comp ?L (base + 2) (items_node f is)"
  let ?b1 = "base + 2 + code_size ?body"
  let ?c = "comp ?L ?b1 (cond_node f c)"
  have codes: "code_in (ve_code ve) base [elem INSTR_JMP (of_nat ?b1)]" "code_in (ve_code ve) (base + 2) ?body"
      "code_in (ve_code ve) ?b1 (aim (base + 2) (neg_code False ?c))"
    using While.prems(2) code_in_Cons [of _ base _ "?body @ _"] unfolding comp_loop Let_def by (simp_all add: code_in_append)
  have size: "base + code_size (comp ?L base (item_node f (While_Item c is))) = ?b1 + code_size ?c"
    unfolding comp_loop Let_def by simp
  have W: "length (ve_code ve) < 2 ^ 32" using env by (simp add: body_env_def)
  have ends: "base + 2 < length (ve_code ve)" "?b1 < length (ve_code ve)"
    using code_in_end [OF codes(2)] by auto
  have test: "achieves ve p0 (eval_cond call c loc out)
      (\<lambda>(b, out'). in_frame u below (of_nat t) (if b then base + 2 else ?b1 + code_size ?c) S loc (printed p0 out')) b"
    if "in_frame u below (of_nat t) ?b1 S loc (printed p0 out) b" for loc out b
    using cond_back [OF env S _ codes(3) ends(1) that] While.prems(1) by simp
  show ?case
    unfolding exec_item.simps size
    by (rule jmp_first [OF W codes(1) ends(2) While.prems(3)], rule loop_achieves [OF test], assumption)
      (use While.IH [OF _ codes(2)] While.prems(1) in auto)
next
  case (For s c t' "is")
  let ?L = "un_layout u"
  let ?init = "comp ?L base (stat_node f s)"
  let ?b0 = "base + code_size ?init + 2"
  let ?body = "comp ?L ?b0 (items_node f is)"
  let ?bi = "?b0 + code_size ?body"
  let ?inc = "comp ?L ?bi (stat_node f t')"
  let ?b1 = "?bi + code_size ?inc"
  let ?c = "comp ?L ?b1 (cond_node f c)"
  have codes: "code_in (ve_code ve) base ?init" "code_in (ve_code ve) (base + code_size ?init) [elem INSTR_JMP (of_nat ?b1)]"
      "code_in (ve_code ve) ?b0 ?body" "code_in (ve_code ve) ?bi ?inc" "code_in (ve_code ve) ?b1 (aim ?b0 (neg_code False ?c))"
    using For.prems(2) code_in_Cons [of _ "base + code_size ?init" _ "?body @ _"] unfolding comp_loop Let_def
    by (simp_all add: code_in_append add.assoc)
  have size: "base + code_size (comp ?L base (item_node f (For_Item s c t' is))) = ?b1 + code_size ?c"
    unfolding comp_loop Let_def by simp
  have W: "length (ve_code ve) < 2 ^ 32" using env by (simp add: body_env_def)
  have ends: "?b0 < length (ve_code ve)" "?b1 < length (ve_code ve)"
    using code_in_end [OF codes(4)] by auto
  have test: "achieves ve p0 (eval_cond call c loc out)
      (\<lambda>(b, out'). in_frame u below (of_nat t) (if b then ?b0 else ?b1 + code_size ?c) S loc (printed p0 out')) b"
    if "in_frame u below (of_nat t) ?b1 S loc (printed p0 out) b" for loc out b
    using cond_back [OF env S _ codes(5) ends(1) that] For.prems(1) by simp
  have body: "achieves ve p0 (then_next (exec_items call n is loc out) (exec_stat call t'))
      (\<lambda>(fl, out'). flow_post u below t ?b1 S p0 fl out') b"
    if "in_frame u below (of_nat t) ?b0 S loc (printed p0 out) b" for loc out b
    by (rule achieves_then_next [where pc = ?bi])
      (use For.IH [OF _ codes(3) that] stat_achieves [OF env S _ codes(4)] For.prems(1) in auto)
  have init: "achieves ve p0 (exec_stat call s loc out)
      (\<lambda>(fl, out'). flow_post u below t (base + code_size ?init) S p0 fl out') a"
    using stat_achieves [OF env S _ codes(1) For.prems(3)] For.prems(1) by simp
  show ?case
    unfolding exec_item.simps size
    by (rule achieves_then_next [OF init], rule jmp_first [OF W codes(2) ends(2)], assumption,
        rule loop_achieves [OF test body])
next
  case (Do c "is")
  let ?L = "un_layout u"
  let ?body = "comp ?L base (items_node f is)"
  let ?b1 = "base + code_size ?body"
  let ?c = "comp ?L ?b1 (cond_node f c)"
  have codes: "code_in (ve_code ve) base ?body" "code_in (ve_code ve) ?b1 (aim base (neg_code False ?c))"
    using Do.prems(2) unfolding comp_loop Let_def by (simp_all add: code_in_append)
  have size: "base + code_size (comp ?L base (item_node f (Do_Item is c))) = ?b1 + code_size ?c"
    unfolding comp_loop Let_def by simp
  have ends: "base < length (ve_code ve)" using code_in_end [OF codes(1)] by auto
  have test: "achieves ve p0 (eval_cond call c loc out)
      (\<lambda>(b, out'). in_frame u below (of_nat t) (if b then base else ?b1 + code_size ?c) S loc (printed p0 out')) b"
    if "in_frame u below (of_nat t) ?b1 S loc (printed p0 out) b" for loc out b
    using cond_back [OF env S _ codes(2) ends that] Do.prems(1) by simp
  have body: "achieves ve p0 (exec_items call n is loc out) (\<lambda>(fl, out'). flow_post u below t ?b1 S p0 fl out') b"
    if "in_frame u below (of_nat t) base S loc (printed p0 out) b" for loc out b
    using Do.IH [OF _ codes(1) that] Do.prems(1) by simp
  show ?case
    unfolding exec_item.simps size
    by (rule achieves_then_next [OF body [OF Do.prems(3)]], rule loop_achieves [OF test body])
next
  case Nil
  then show ?case by (auto intro: leads.here)
next
  case (Cons i "is")
  let ?c1 = "comp (un_layout u) base (item_node f i)"
  have codes: "code_in (ve_code ve) base ?c1" "code_in (ve_code ve) (base + code_size ?c1) (comp (un_layout u) (base + code_size ?c1) (items_node f is))"
    using Cons.prems(2) by (simp_all add: code_in_append)
  show ?case
    unfolding exec_items.simps comp_items code_size_simps add.assoc [symmetric]
    by (rule achieves_then_next) (use Cons.IH(1) [OF _ codes(1) Cons.prems(3)] Cons.IH(2) [OF _ codes(2)] Cons.prems(1) in auto)
qed

section \<open>Functions\<close>

text \<open>The code of a function: its prolog, its body, and its end, unless the code ends with a return already.\<close>

definition func_start :: "layout \<Rightarrow> nat \<Rightarrow> node \<Rightarrow> code_elem list" where
  "func_start ly base body =
     (let prolog = (if la_frame ly > 0 then [elem INSTR_PROLOG (of_nat (la_frame ly))] else [])
      in prolog @ comp ly (base + code_size prolog) body)"

definition func_code :: "layout \<Rightarrow> nat \<Rightarrow> node \<Rightarrow> code_elem list" where
  "func_code ly base body =
     (let start = func_start ly base body
      in start @ (if start \<noteq> [] \<and> ce_instr (last start) = INSTR_RET then [] else comp_return ly))"

text \<open>
  A function's end is sound when something is emitted for it, and when a return as the last
  instruction comes from a return statement at the end of the body.
\<close>

definition end_ok :: "code_elem list \<Rightarrow> item list \<Rightarrow> bool" where
  "end_ok start is \<longleftrightarrow>
     start \<noteq> [] \<and> (ce_instr (last start) = INSTR_RET \<longrightarrow> (\<exists>js eo. is = js @ [Stat_Item (Return_Stat eo)]))"

definition callable :: "program \<Rightarrow> (string \<Rightarrow> nat) \<Rightarrow> unit_info \<Rightarrow> string \<Rightarrow> nat \<Rightarrow> bool" where
  "callable P addr u g n \<longleftrightarrow>
     (\<exists>fd. P g = Some fd \<and> length (fd_params fd) = n) \<and>
     la_args (un_layout u) (Val_Func g) = n \<and> la_addr (un_layout u) (Val_Func g) = of_nat (addr g) \<and> n \<le> un_max u"

definition callable_void :: "program \<Rightarrow> (string \<Rightarrow> nat) \<Rightarrow> unit_info \<Rightarrow> string \<Rightarrow> nat \<Rightarrow> bool" where
  "callable_void P addr u g n \<longleftrightarrow> callable P addr u g n \<and> (\<forall>fd. P g = Some fd \<longrightarrow> fd_void fd)"

text \<open>The functions of a program stand in the code segment, each at its address.\<close>

definition func_linked :: "u32 list \<Rightarrow> program \<Rightarrow> (string \<Rightarrow> nat) \<Rightarrow> string \<Rightarrow> func_def \<Rightarrow> unit_info \<Rightarrow> bool" where
  "func_linked W P addr f fd u \<longleftrightarrow>
     unit_ok f u \<and> un_args u = length (fd_params fd) \<and> distinct (fd_params fd) \<and>
     (\<forall>i < length (fd_params fd). fd_params fd ! i \<in> un_vars u \<and> un_pos u (fd_params fd ! i) = un_frame u + 1 + i) \<and>
     code_in W (addr f) (func_code (un_layout u) (addr f) (items_node f (fd_body fd))) \<and>
     end_ok (func_start (un_layout u) (addr f) (items_node f (fd_body fd))) (fd_body fd) \<and>
     wf_items (un_vars u) (callable P addr u) (callable_void P addr u) (fd_body fd)"

definition linked :: "u32 list \<Rightarrow> program \<Rightarrow> (string \<Rightarrow> nat) \<Rightarrow> (string \<Rightarrow> unit_info) \<Rightarrow> bool" where
  "linked W P addr un \<longleftrightarrow> length W < 2 ^ 32 \<and> (\<forall>f fd. P f = Some fd \<longrightarrow> func_linked W P addr f fd (un f))"

lemma exec_return_last:
  "exec_items call n (js @ [Stat_Item (Return_Stat eo)]) loc out \<noteq> Ok (Next loc', out')"
proof (induction js arbitrary: loc out)
  case Nil
  show ?case
    by (cases eo; cases "eval_expr call (the eo) loc out") (auto simp: then_next_def)
next
  case (Cons i js)
  then show ?case
    by (cases "exec_item call n i loc out") (auto simp: then_next_def split: flow.splits)
qed

lemma call_func_void:
  "call_func P n g vs out = Ok (r, out') \<Longrightarrow> P g = Some fd \<Longrightarrow> fd_void fd \<Longrightarrow> r = None"
proof (cases n)
  case (Suc k)
  assume *: "call_func P n g vs out = Ok (r, out')" "P g = Some fd" "fd_void fd"
  then obtain fl o1 where "call_result True (fl, o1) = Ok (r, out')"
    using Suc by (cases "exec_items (call_func P k) k (fd_body fd) (bind_params (fd_params fd) vs) out") (auto split: if_splits)
  then show "r = None" by (cases fl) (auto split: option.splits elim: call_result.elims)
qed simp

lemma call_result_cases:
  "call_result void (fl, out) = Ok (r, out') \<longleftrightarrow>
     out' = out \<and> ((\<exists>loc. fl = Next loc \<and> void \<and> r = None) \<or> fl = Returned r \<and> (void \<longleftrightarrow> r = None))"
  by (cases fl; cases r) (auto split: option.splits if_splits elim!: call_result.elims)

end
