(* ===== verification/Source_Text.thy ===== *)
theory Source_Text
  imports Correct_Body
begin

text \<open>
  How the constructs of the language are written, as tokens, and which tree the parser builds of
  each before names are resolved: identifiers are strings there, a definition of a variable has
  its type and name as children.
\<close>

section \<open>Texts\<close>

definition arith_op :: "token_type \<Rightarrow> bool" where
  "arith_op ty \<longleftrightarrow> ty \<in> {TOK_PLUS, TOK_MINUS, TOK_STAR, TOK_SLASH, TOK_PERCENT}"

definition compare_op :: "token_type \<Rightarrow> bool" where
  "compare_op ty \<longleftrightarrow> ty \<in> {TOK_EQEQ, TOK_NEQ, TOK_GT, TOK_LT, TOK_GE, TOK_LE}"

definition is_type :: "token_type \<Rightarrow> bool" where
  "is_type ty \<longleftrightarrow> ty \<in> {TOK_VOID, TOK_INT}"

definition ident_token :: "string \<Rightarrow> token \<Rightarrow> bool" where
  "ident_token x t \<longleftrightarrow> tok_type t = TOK_IDENTIFIER \<and> tok_val t = Some x"

text \<open>A literal stands for the number that \<open>strtol\<close> reads; a minus in front negates it.\<close>

definition num_text :: "u32 \<Rightarrow> token list \<Rightarrow> bool" where
  "num_text n w \<longleftrightarrow>
     (\<exists>t. w = [t] \<and> tok_type t = TOK_INTLITERAL \<and> create_intliteral t = Ret (leaf AST_INTLITERAL (Val_Number n))) \<or>
     (\<exists>m t. w = [m, t] \<and> tok_type m = TOK_MINUS \<and> tok_type t = TOK_INTLITERAL \<and>
        create_neg_intliteral t = Ret (leaf AST_INTLITERAL (Val_Number n)))"

fun expr_text :: "expr \<Rightarrow> token list \<Rightarrow> bool" and fac_text :: "fac \<Rightarrow> token list \<Rightarrow> bool"
  and args_text :: "args \<Rightarrow> token list \<Rightarrow> bool" where
  "expr_text (Single x) w = fac_text x w"
| "expr_text (Binop x op e) w =
     (\<exists>u t v. w = u @ t # v \<and> fac_text x u \<and> tok_type t = op \<and> arith_op op \<and> expr_text e v)"
| "fac_text (Call_Fac g es) w =
     (\<exists>t1 t2 u t3. w = t1 # t2 # u @ [t3] \<and> ident_token g t1 \<and> tok_type t2 = TOK_OPENPA \<and> args_text es u \<and>
        tok_type t3 = TOK_CLOSEPA)"
| "fac_text (Var_Fac x) w = (\<exists>t. w = [t] \<and> ident_token x t)"
| "fac_text (Num_Fac n) w = num_text n w"
| "fac_text (Paren_Fac e) w =
     (\<exists>t1 u t2. w = t1 # u @ [t2] \<and> tok_type t1 = TOK_OPENPA \<and> expr_text e u \<and> tok_type t2 = TOK_CLOSEPA)"
| "args_text No_Args w = (w = [])"
| "args_text (Last_Arg e) w = expr_text e w"
| "args_text (Cons_Arg e es) w = (\<exists>u t v. w = u @ t # v \<and> expr_text e u \<and> tok_type t = TOK_COMMA \<and> args_text es v)"

fun cond_text :: "cond \<Rightarrow> token list \<Rightarrow> bool" where
  "cond_text (Cond e1 op e2) w =
     (\<exists>u t v. w = u @ t # v \<and> expr_text e1 u \<and> tok_type t = op \<and> compare_op op \<and> expr_text e2 v)"

fun stat_text :: "stat \<Rightarrow> token list \<Rightarrow> bool" where
  "stat_text (Var_Def x None) w = (\<exists>t1 t2. w = [t1, t2] \<and> is_type (tok_type t1) \<and> ident_token x t2)"
| "stat_text (Var_Def x (Some e)) w =
     (\<exists>t1 t2 t3 u. w = t1 # t2 # t3 # u \<and> is_type (tok_type t1) \<and> ident_token x t2 \<and> tok_type t3 = TOK_EQ \<and> expr_text e u)"
| "stat_text (Var_Assign x e) w = (\<exists>t1 t2 u. w = t1 # t2 # u \<and> ident_token x t1 \<and> tok_type t2 = TOK_EQ \<and> expr_text e u)"
| "stat_text (Call_Stat g es) w =
     (\<exists>t1 t2 u t3. w = t1 # t2 # u @ [t3] \<and> ident_token g t1 \<and> tok_type t2 = TOK_OPENPA \<and> args_text es u \<and>
        tok_type t3 = TOK_CLOSEPA)"
| "stat_text (Print_Stat e) w = (\<exists>t u. w = t # u \<and> tok_type t = TOK_PRINT \<and> expr_text e u)"
| "stat_text (Return_Stat None) w = (\<exists>t. w = [t] \<and> tok_type t = TOK_RETURN)"
| "stat_text (Return_Stat (Some e)) w = (\<exists>t u. w = t # u \<and> tok_type t = TOK_RETURN \<and> expr_text e u)"

text \<open>A word of tokens of given types.\<close>

abbreviation toks :: "token_type list \<Rightarrow> token list \<Rightarrow> bool" where
  "toks tys w \<equiv> map tok_type w = tys"

text \<open>The parts of a for loop's head that are not the condition are definitions and assignments.\<close>

fun is_assign :: "stat \<Rightarrow> bool" where
  "is_assign (Var_Assign x e) = True"
| "is_assign _ = False"

fun is_def :: "stat \<Rightarrow> bool" where
  "is_def (Var_Def x eo) = True"
| "is_def _ = False"

fun item_text :: "item \<Rightarrow> token list \<Rightarrow> bool" and items_text :: "item list \<Rightarrow> token list \<Rightarrow> bool" where
  "item_text (Stat_Item s) w = (\<exists>u t. w = u @ [t] \<and> stat_text s u \<and> tok_type t = TOK_SEMICL)"
| "item_text (If_Item c is) w =
     (\<exists>a u b v d. w = a @ u @ b @ v @ d \<and> toks [TOK_IF, TOK_OPENPA] a \<and> cond_text c u \<and>
        toks [TOK_CLOSEPA, TOK_OPENBR] b \<and> items_text is v \<and> toks [TOK_CLOSEBR] d)"
| "item_text (If_Else_Item c is js) w =
     (\<exists>a u b v d x f. w = a @ u @ b @ v @ d @ x @ f \<and> toks [TOK_IF, TOK_OPENPA] a \<and> cond_text c u \<and>
        toks [TOK_CLOSEPA, TOK_OPENBR] b \<and> items_text is v \<and> toks [TOK_CLOSEBR, TOK_ELSE, TOK_OPENBR] d \<and>
        items_text js x \<and> toks [TOK_CLOSEBR] f)"
| "item_text (While_Item c is) w =
     (\<exists>a u b v d. w = a @ u @ b @ v @ d \<and> toks [TOK_WHILE, TOK_OPENPA] a \<and> cond_text c u \<and>
        toks [TOK_CLOSEPA, TOK_OPENBR] b \<and> items_text is v \<and> toks [TOK_CLOSEBR] d)"
| "item_text (For_Item s c t is) w =
     (\<exists>a u b v d x f y h. w = a @ u @ b @ v @ d @ x @ f @ y @ h \<and> toks [TOK_FOR, TOK_OPENPA] a \<and>
        (is_def s \<or> is_assign s) \<and> stat_text s u \<and> toks [TOK_SEMICL] b \<and> cond_text c v \<and> toks [TOK_SEMICL] d \<and>
        is_assign t \<and> stat_text t x \<and> toks [TOK_CLOSEPA, TOK_OPENBR] f \<and> items_text is y \<and> toks [TOK_CLOSEBR] h)"
| "item_text (Do_Item is c) w =
     (\<exists>a u b v d. w = a @ u @ b @ v @ d \<and> toks [TOK_DO, TOK_OPENBR] a \<and> items_text is u \<and>
        toks [TOK_CLOSEBR, TOK_WHILE, TOK_OPENPA] b \<and> cond_text c v \<and> toks [TOK_CLOSEPA, TOK_SEMICL] d)"
| "items_text [] w = (w = [])"
| "items_text (i # is) w = (\<exists>u v. w = u @ v \<and> item_text i u \<and> items_text is v)"

text \<open>An empty list of parameters is written as a void, which may also end a list.\<close>

fun params_text :: "string list \<Rightarrow> token list \<Rightarrow> bool" where
  "params_text [] w = toks [TOK_VOID] w"
| "params_text (x # xs) w =
     (\<exists>t1 t2 u. w = t1 # t2 # u \<and> is_type (tok_type t1) \<and> ident_token x t2 \<and>
        (xs = [] \<and> u = [] \<or> (\<exists>t3 v. u = t3 # v \<and> tok_type t3 = TOK_COMMA \<and> params_text xs v)))"

section \<open>Trees with unresolved names\<close>

abbreviation ident_node :: "string \<Rightarrow> node" where
  "ident_node x \<equiv> leaf AST_IDENTIFIER (Val_Str (Some x))"

definition type_node :: "token_type \<Rightarrow> node" where
  "type_node ty = node1 AST_TYPE Val_None (leaf AST_TYPELEAF (Val_Type ty))"

fun raw_expr :: "expr \<Rightarrow> node" and raw_fac :: "fac \<Rightarrow> node" and raw_args :: "args \<Rightarrow> node" where
  "raw_expr (Single x) = node1 AST_EXPRESSION Val_None (raw_fac x)"
| "raw_expr (Binop x op e) = Node AST_EXPRESSION Val_None (raw_fac x) (op_node op) (raw_expr e)"
| "raw_fac (Call_Fac g es) = node1 AST_EXPRESSION1 Val_None (node1 AST_RET_FCALL (Val_Func g) (raw_args es))"
| "raw_fac (Var_Fac x) = node1 AST_EXPRESSION1 Val_None (ident_node x)"
| "raw_fac (Num_Fac n) = node1 AST_EXPRESSION1 Val_None (leaf AST_INTLITERAL (Val_Number n))"
| "raw_fac (Paren_Fac e) = node1 AST_EXPRESSION1 Val_None (raw_expr e)"
| "raw_args No_Args = create_empty"
| "raw_args (Last_Arg e) = node1 AST_FCALL_ARGLIST Val_None (raw_expr e)"
| "raw_args (Cons_Arg e es) = Node AST_FCALL_ARGLIST Val_None (raw_expr e) (raw_args es) NULL_NODE"

fun raw_cond :: "cond \<Rightarrow> node" where
  "raw_cond (Cond e1 op e2) = Node AST_CONDITION Val_None (raw_expr e1) (boolop_node op) (raw_expr e2)"

definition raw_opt :: "expr option \<Rightarrow> node" where
  "raw_opt eo = (case eo of None \<Rightarrow> NULL_NODE | Some e \<Rightarrow> raw_expr e)"

text \<open>The type in a definition of a variable is not part of the construct.\<close>

fun raw_stat :: "stat \<Rightarrow> node \<Rightarrow> bool" where
  "raw_stat (Var_Def x eo) n = (\<exists>ty. n = Node AST_VAR_DEF Val_None (type_node ty) (ident_node x) (raw_opt eo))"
| "raw_stat (Var_Assign x e) n = (n = Node AST_VAR_ASSIGN Val_None (ident_node x) (raw_expr e) NULL_NODE)"
| "raw_stat (Call_Stat g es) n = (n = node1 AST_FCALL (Val_Func g) (raw_args es))"
| "raw_stat (Print_Stat e) n = (n = node1 AST_PRINT Val_None (raw_expr e))"
| "raw_stat (Return_Stat eo) n = (n = node1 AST_RETURN Val_None (raw_opt eo))"

fun raw_item :: "item \<Rightarrow> node \<Rightarrow> bool" and raw_items :: "item list \<Rightarrow> node \<Rightarrow> bool" where
  "raw_item (Stat_Item s) n = (\<exists>m. n = node1 AST_STATEMENT Val_None m \<and> raw_stat s m)"
| "raw_item (If_Item c is) n = (\<exists>m. n = Node AST_BRANCH Val_None (raw_cond c) m NULL_NODE \<and> raw_items is m)"
| "raw_item (If_Else_Item c is js) n =
     (\<exists>m r. n = Node AST_BRANCH Val_None (raw_cond c) m r \<and> raw_items is m \<and> raw_items js r)"
| "raw_item (While_Item c is) n = (\<exists>m. n = Node AST_LOOP Val_None (raw_cond c) m NULL_NODE \<and> raw_items is m)"
| "raw_item (For_Item s c t is) n =
     (\<exists>a b m. n = Node AST_LOOP Val_None (Node AST_FOR_LOOP_HEAD Val_None a (raw_cond c) b) m NULL_NODE \<and>
        raw_stat s a \<and> raw_stat t b \<and> raw_items is m)"
| "raw_item (Do_Item is c) n = (\<exists>m. n = Node AST_LOOP Val_None m (raw_cond c) NULL_NODE \<and> raw_items is m)"
| "raw_items [] n = (n = create_empty)"
| "raw_items (i # is) n = (\<exists>l m. n = Node AST_SEQUENCE Val_None l m NULL_NODE \<and> raw_item i l \<and> raw_items is m)"

fun raw_params :: "string list \<Rightarrow> node \<Rightarrow> bool" where
  "raw_params [] n = (n = leaf AST_ARGDEFLIST Val_None)"
| "raw_params (x # xs) n =
     (\<exists>ty m. n = Node AST_ARGDEFLIST Val_None (Node AST_ARGDEF Val_None (type_node ty) (ident_node x) NULL_NODE) m NULL_NODE \<and>
        (m = NULL_NODE \<and> xs = [] \<or> raw_params xs m))"

lemma raw_not_null [simp]:
  "raw_expr e \<noteq> NULL_NODE" "raw_cond c \<noteq> NULL_NODE" "raw_fac x \<noteq> NULL_NODE" "raw_args es \<noteq> NULL_NODE"
proof -
  show "raw_expr e \<noteq> NULL_NODE" by (cases e) simp_all
  show "raw_cond c \<noteq> NULL_NODE" by (cases c) simp
  show "raw_fac x \<noteq> NULL_NODE" by (cases x) simp_all
  show "raw_args es \<noteq> NULL_NODE" by (cases es) (simp_all add: create_empty_def)
qed

lemma count_raw_args [simp]: "count_fcall_args (raw_args es) = arg_count es"
  by (induction es) (simp_all add: create_empty_def)

end
