(* ===== verification/Correct_Prog.thy ===== *)
theory Correct_Prog
  imports Correct_Body
begin

text \<open>
  Whole programs: calls of linked functions, by induction on the fuel of the evaluator.
\<close>

section \<open>Calls of linked functions\<close>

lemma func_code_split:
  assumes "code_in W base (func_code ly base body)"
  defines "prolog \<equiv> if la_frame ly > 0 then [elem INSTR_PROLOG (of_nat (la_frame ly))] else []"
  defines "code \<equiv> comp ly (base + code_size prolog) body"
  shows "code_in W base prolog" "code_in W (base + code_size prolog) code" "func_start ly base body = prolog @ code"
    and "ce_instr (last (func_start ly base body)) \<noteq> INSTR_RET \<Longrightarrow>
      code_in W (base + code_size prolog + code_size code) (comp_return ly)"
  using assms(1) unfolding func_code_def func_start_def Let_def prolog_def [symmetric] code_def [symmetric]
  by (auto simp: code_in_append add.assoc split: if_splits)

lemma params_in_frame:
  assumes linked: "func_linked W P addr f fd u" and vs: "length vs = length (fd_params fd)"
    and C: "length vs < length C" "\<forall>i < length vs. slot C i = vs ! i" and ys: "length ys = un_frame u"
  shows "frame_at u (take (length C - length vs) C) ret (bind_params (fd_params fd) vs) ((C @ [ret]) @ ys)"
proof -
  let ?ps = "fd_params fd" and ?n = "length vs"
  have ps: "distinct ?ps" "un_args u = ?n"
    and pos: "\<And>i. i < ?n \<Longrightarrow> ?ps ! i \<in> un_vars u \<and> un_pos u (?ps ! i) = un_frame u + 1 + i"
    using linked vs by (auto simp: func_linked_def)
  have bound: "\<exists>i < ?n. x = ?ps ! i \<and> v = vs ! i" if "bind_params ?ps vs x = Some v" for x v
    using that vs by (auto simp: bind_params_def map_of_zip_nth dest!: map_of_SomeD) (auto simp: set_zip)
  have "slot ((C @ [ret]) @ ys) (un_frame u + 1 + i) = slot C i" if "i < ?n" for i
    using that C(1) ys by (auto simp: slot_def nth_append)
  then have "slot ((C @ [ret]) @ ys) (un_pos u x) = v" if "bind_params ?ps vs x = Some v" for x v
    using bound [OF that] pos C(2) by auto
  moreover have "dom (bind_params ?ps vs) \<subseteq> un_vars u" using bound pos by fastforce
  moreover have "(C @ [ret]) @ ys = take (length C - ?n) C @ drop (length C - ?n) C @ ret # ys" by simp
  moreover have "length (drop (length C - ?n) C) = un_args u" using C(1) ps(2) by simp
  ultimately show ?thesis unfolding frame_at_def using ys by blast
qed

lemma call_works_linked:
  assumes linked: "linked (ve_code ve) P addr un"
  shows "P g = Some fd \<Longrightarrow> call_works ve p0 (call_func P n) addr g (length (fd_params fd))"
proof (induction n arbitrary: g fd)
  case 0
  then have "func_linked (ve_code ve) P addr g fd (un g)" using linked by (simp add: linked_def)
  then show ?case
    by (auto simp: call_works_def func_linked_def code_in_def)
next
  case (Suc n)
  let ?u = "un g" and ?k = "length (fd_params fd)"
  let ?ly = "un_layout ?u" and ?body = "items_node g (fd_body fd)"
  have W: "length (ve_code ve) < 2 ^ 32" and f: "func_linked (ve_code ve) P addr g fd ?u"
    using linked Suc.prems by (auto simp: linked_def)
  have u: "unit_ok g ?u" and k: "un_args ?u = ?k" using f by (auto simp: func_linked_def)
  define prolog where "prolog = (if un_frame ?u > 0 then [elem INSTR_PROLOG (of_nat (un_frame ?u))] else [])"
  let ?b = "addr g + code_size prolog"
  let ?code = "comp ?ly ?b ?body"
  have codes: "code_in (ve_code ve) (addr g) prolog" "code_in (ve_code ve) ?b ?code" "func_start ?ly (addr g) ?body = prolog @ ?code"
    "ce_instr (last (func_start ?ly (addr g) ?body)) \<noteq> INSTR_RET \<Longrightarrow> code_in (ve_code ve) (?b + code_size ?code) (comp_return ?ly)"
    using f func_code_split [of "ve_code ve" "addr g" ?ly ?body] unfolding prolog_def func_linked_def by blast+
  have addr: "addr g < length (ve_code ve)" using code_in_end [OF codes(1)] by simp
  have run: "achieves ve p0 (call_func P (Suc n) g vs out)
      (\<lambda>(r, out') b. \<exists>C'. b = vm_at t (S @ opt_word r) C' (printed p0 out') \<and> length C' = length C \<and>
         take (length C - ?k) C' = take (length C - ?k) C)
      (vm_at (addr g) S (C @ [of_nat t]) (printed p0 out))"
    if vs: "length vs = ?k" and S: "S \<noteq> []" and C: "?k < length C" "\<forall>i < ?k. slot C i = vs ! i"
      and t: "t < length (ve_code ve)" for vs out S C t
  proof -
    let ?below = "take (length C - ?k) C" and ?loc = "bind_params (fd_params fd) vs"
    let ?Q = "\<lambda>(r, out') b. \<exists>C'. b = vm_at t (S @ opt_word r) C' (printed p0 out') \<and> length C' = length C \<and>
         take (length C - ?k) C' = ?below"
    have env: "body_env ve p0 (call_func P n) addr g ?u ?below t (callable P addr ?u) (callable_void P addr ?u)"
      using W u t C(1) Suc.IH call_func_void
      by (fastforce simp: body_env_def callable_def callable_void_def call_linked_def)
    have frame: "frame_at ?u ?below (of_nat t) ?loc ((C @ [of_nat t]) @ ys)" if "length ys = un_frame ?u" for ys
      using params_in_frame [OF f vs _ _ that, of C "of_nat t"] C vs by simp
    have entered: "leads ve overflow (in_frame ?u ?below (of_nat t) ?b S ?loc (printed p0 out))
        (vm_at (addr g) S (C @ [of_nat t]) (printed p0 out))"
    proof (cases "un_frame ?u > 0")
      case True
      have F: "un_frame ?u < 2 ^ 30" using u by (auto simp: unit_ok_def)
      have pc: "?b = addr g + 2" "code_in (ve_code ve) (addr g) [elem INSTR_PROLOG (of_nat (un_frame ?u))]"
        using True codes(1) by (simp_all add: prolog_def)
      show ?thesis unfolding pc(1) by (rule exec_prolog [OF pc(2) F]) (intro in_frame_at frame)
    next
      case False
      then show ?thesis
        using in_frame_at [OF frame [of "[]"], of "addr g" S "printed p0 out"] by (simp add: prolog_def leads.here)
    qed
    have finish: "achieves ve p0 (call_result (fd_void fd) (fl, out1)) ?Q b"
      if ex: "exec_items (call_func P n) n (fd_body fd) ?loc out = Ok (fl, out1)"
        and b: "flow_post ?u ?below t (?b + code_size ?code) S p0 fl out1 b" for fl out1 b
    proof (cases fl)
      case (Next loc)
      have "ce_instr (last (func_start ?ly (addr g) ?body)) \<noteq> INSTR_RET"
        using f exec_return_last ex unfolding func_linked_def end_ok_def Next by metis
      from exec_return [OF env codes(4) [OF this], of S loc "printed p0 out1" b] b Next
      have "leads ve overflow (\<lambda>b. \<exists>xs. length xs = un_args ?u \<and> b = vm_at t S (?below @ xs) (printed p0 out1)) b"
        by simp
      then have "leads ve overflow (?Q (None, out1)) b"
        by (rule leads_trans) (use C(1) k in \<open>auto intro!: leads.here\<close>)
      then show ?thesis by (simp add: Next)
    next
      case (Returned r)
      then show ?thesis using b C(1) k by (cases r) (auto intro!: leads.here)
    qed
    have "achieves ve p0 (sbind (exec_items (call_func P n) n (fd_body fd) ?loc out) (\<lambda>(fl, out1). call_result (fd_void fd) (fl, out1))) ?Q b"
      if "in_frame ?u ?below (of_nat t) ?b S ?loc (printed p0 out) b" for b
      by (rule achieves_bind2, rule item_achieves(2) [OF env S _ codes(2) that])
        (use f finish in \<open>auto simp: func_linked_def\<close>)
    then have "achieves ve p0 (sbind (exec_items (call_func P n) n (fd_body fd) ?loc out) (call_result (fd_void fd))) ?Q
        (vm_at (addr g) S (C @ [of_nat t]) (printed p0 out))"
      by (intro achieves_after leads_trans [OF entered]) (auto intro!: leads.here)
    then show ?thesis using Suc.prems vs by simp
  qed
  then show ?case using addr by (simp add: call_works_def)
qed

end
