(* ===== verification/Frame.thy ===== *)
theory Frame
  imports Ast
begin

text \<open>
  The stack frame that the passes of ast.c lay out. Seen from the top of the call stack, a
  function's frame of size \<open>F = var_count + max_call_size\<close> has its outgoing arguments at
  0 .. max_call_size - 1, its local variables above them up to F - 1, the return address at F,
  and its own arguments at F + 1 .. F + arg_count. The theorems show that
  \<open>register_function\<close> gives every variable of the function its place in this layout.
\<close>

section \<open>Arguments\<close>

text \<open>The names of an argument list, in order.\<close>

fun arg_names :: "node \<Rightarrow> string list" where
  "arg_names NULL_NODE = []"
| "arg_names (Node t v l m r) =
    (if t = AST_ARGDEF then (case val_str m of Ret name \<Rightarrow> [name] | _ \<Rightarrow> [])
     else arg_names l @ arg_names m)"

text \<open>The positions in a function's variable table.\<close>

definition var_pos :: "func_info \<Rightarrow> string \<Rightarrow> nat option" where
  "var_pos f n = map_option vi_pos (get_var n f)"

lemma var_pos_fields [simp]:
  "var_pos (f\<lparr>fi_var_count := c\<rparr>) = var_pos f" "var_pos (f\<lparr>fi_arg_count := c\<rparr>) = var_pos f"
  "var_pos (f\<lparr>fi_max_call_size := c\<rparr>) = var_pos f" "var_pos (f\<lparr>fi_prototyped := b\<rparr>) = var_pos f"
  by (simp_all add: var_pos_def fun_eq_iff)

text \<open>A declaration: \<open>add_var\<close>, then a write to \<open>pos\<close>.\<close>

lemma declare_var:
  assumes inv: "table_inv (fi_var_table f)" and add: "add_var name t (Some f) = Some f1"
  shows "var_pos f name = None" "var_pos (set_var_pos name p f1) = (var_pos f)(name \<mapsto> p)"
    "table_inv (fi_var_table f1)" "fi_name f1 = fi_name f" "fi_arg_count f1 = fi_arg_count f"
    "fi_var_count f1 = fi_var_count f" "fi_max_call_size f1 = fi_max_call_size f"
proof -
  have f1: "f1 = f\<lparr>fi_var_table := sglib_hashed_add vi_name (new_var_info name t) (fi_var_table f)\<rparr>"
    and "get_var name f = None"
    using add add_var_cases(1) [OF inv] by (auto split: if_splits)
  then show "var_pos f name = None" by (simp add: var_pos_def)
  show inv1: "table_inv (fi_var_table f1)" unfolding f1 using add_var_cases(3) [OF inv] by simp
  have "get_var n f1 = (if n = name then Some (new_var_info name t) else get_var n f)" for n
    unfolding f1 by (rule add_var_cases(2) [OF inv])
  then show "var_pos (set_var_pos name p f1) = (var_pos f)(name \<mapsto> p)"
    by (simp add: var_pos_def fun_eq_iff get_var_set_pos [OF inv1])
qed (use add add_var_cases(1) [OF inv] in \<open>auto split: if_splits\<close>)

lemma map_of_zip_snoc:
  assumes "length xs = length ps" "n \<notin> set xs"
  shows "map_of (zip (xs @ [n]) (ps @ [p])) = (map_of (zip xs ps))(n \<mapsto> p)"
  using assms by (induction xs ps rule: list_induct2) (auto simp: fun_eq_iff)

lemma map_of_zip_None: "length xs = length ps \<Longrightarrow> map_of (zip xs ps) n = None \<longleftrightarrow> n \<notin> set xs"
  by (induction xs ps rule: list_induct2) auto

lemma map_of_zip_mid:
  assumes "length pre = length ps" "n \<notin> set pre"
  shows "(map_of (zip (pre @ n # post) (ps @ q # rs)))(n \<mapsto> p) = map_of (zip (pre @ n # post) (ps @ p # rs))"
    and "map_of (zip (pre @ n # post) (ps @ q # rs)) n = Some q"
  using assms by (simp_all add: dom_map_of_zip map_add_upd_left map_add_dom_app_simps)

text \<open>\<open>k\<close> slots from \<open>a\<close> on.\<close>

definition slots :: "nat \<Rightarrow> nat \<Rightarrow> nat list" where
  "slots a k = [a..<a + k]"

lemma slots_simps [simp]: "length (slots a k) = k" "slots a 0 = []" "slots a (Suc k) = slots a k @ [a + k]"
  by (simp_all add: slots_def)

text \<open>The entry after the arguments \<open>xs\<close> have been registered.\<close>

definition args_entered :: "func_info \<Rightarrow> string list \<Rightarrow> bool" where
  "args_entered f xs \<longleftrightarrow>
     table_inv (fi_var_table f) \<and> distinct xs \<and> fi_arg_count f = length xs \<and> fi_var_count f = 0 \<and>
     var_pos f = map_of (zip xs (slots 1 (length xs)))"

lemma args_entered_new: "args_entered (new_func_info name t) []"
  by (simp add: args_entered_def new_func_info_def var_pos_def get_var_def vars.find_empty fun_eq_iff)

lemma args_entered_snoc:
  assumes f: "args_entered f xs" and add: "add_var name t (Some f) = Some f1"
  shows "args_entered ((set_var_pos name (fi_arg_count f1 + 1) f1)
      \<lparr>fi_arg_count := fi_arg_count (set_var_pos name (fi_arg_count f1 + 1) f1) + 1\<rparr>) (xs @ [name])"
proof -
  have inv: "table_inv (fi_var_table f)" using f by (simp add: args_entered_def)
  note d = declare_var [OF inv add]
  have "name \<notin> set xs" using f d(1) by (simp add: args_entered_def map_of_zip_None)
  then show ?thesis
    using f d map_of_zip_snoc [of xs "slots 1 (length xs)" name "length xs + 1"]
    by (simp add: args_entered_def set_var_pos_inv)
qed

lemma register_args_entered:
  "args_entered f xs \<Longrightarrow> register_args f n = Ret (True, f') \<Longrightarrow>
    args_entered f' (xs @ arg_names n) \<and> fi_name f' = fi_name f"
proof (induction f n arbitrary: xs f' rule: register_args.induct)
  case (2 func t v l m r)
  show ?case
  proof (cases "t = AST_ARGDEF")
    case True
    then obtain ty name func1 where p: "val_str m = Ret name"
        "add_var name (tok_type_to_dtype ty) (Some func) = Some func1"
        "f' = (set_var_pos name (fi_arg_count func1 + 1) func1)
           \<lparr>fi_arg_count := fi_arg_count (set_var_pos name (fi_arg_count func1 + 1) func1) + 1\<rparr>"
      using "2.prems"(2) by (auto simp: obind_Ret_iff Let_def split: option.splits)
    have "table_inv (fi_var_table func)" using "2.prems"(1) by (simp add: args_entered_def)
    then show ?thesis
      using p True args_entered_snoc [OF "2.prems"(1) p(2)] declare_var(4) [OF _ p(2)] by auto
  next
    case False
    then obtain f1 where f1: "register_args func l = Ret (True, f1)" "register_args f1 m = Ret (True, f')"
      using "2.prems"(2) by (auto simp: obind_Ret_iff split: if_splits)
    have "args_entered f1 (xs @ arg_names l) \<and> fi_name f1 = fi_name func"
      using "2.IH"(1) [OF False "2.prems"(1) f1(1)] .
    then show ?thesis
      using "2.IH"(2) [OF False f1(1) refl _ _ f1(2), of "xs @ arg_names l"] False by simp
  qed
qed simp

section \<open>Local variables\<close>

text \<open>
  The entry while the body is walked: the arguments \<open>xs\<close> as registered, and the local
  variables \<open>ys\<close> in the slots from \<open>max_call_size\<close> on.
\<close>

definition locals_entered :: "func_info \<Rightarrow> string list \<Rightarrow> bool" where
  "locals_entered f xs \<longleftrightarrow>
     table_inv (fi_var_table f) \<and> fi_arg_count f = length xs \<and>
     (\<exists>ys. distinct (xs @ ys) \<and> length ys = fi_var_count f \<and>
        var_pos f = map_of (zip (xs @ ys) (slots 1 (length xs) @
          slots (fi_max_call_size f) (fi_var_count f))))"

lemma locals_entered_start: "args_entered f xs \<Longrightarrow> locals_entered (f\<lparr>fi_max_call_size := k\<rparr>) xs"
  by (auto simp: args_entered_def locals_entered_def)

lemma locals_entered_define:
  assumes f: "locals_entered f xs" and add: "add_var name t (Some f) = Some f1"
  shows "locals_entered ((set_var_pos name (fi_max_call_size f1 + fi_var_count f1) f1)
      \<lparr>fi_var_count := fi_var_count (set_var_pos name (fi_max_call_size f1 + fi_var_count f1) f1) + 1\<rparr>) xs"
proof -
  let ?M = "fi_max_call_size f" and ?V = "fi_var_count f"
  have inv: "table_inv (fi_var_table f)" using f by (simp add: locals_entered_def)
  note d = declare_var [OF inv add]
  obtain ys where ys: "distinct (xs @ ys)" "length ys = ?V"
      "var_pos f = map_of (zip (xs @ ys) (slots 1 (length xs) @ slots ?M ?V))"
    using f by (auto simp: locals_entered_def)
  let ?ps = "slots 1 (length xs) @ slots ?M ?V"
  have len: "length (xs @ ys) = length ?ps" using ys(2) by simp
  have new: "name \<notin> set (xs @ ys)"
    using d(1) unfolding ys(3) map_of_zip_None [OF len] .
  have "(var_pos f)(name \<mapsto> ?M + ?V) = map_of (zip (xs @ ys @ [name]) (?ps @ [?M + ?V]))"
    unfolding ys(3) using map_of_zip_snoc [OF len new] by simp
  then show ?thesis
    using f ys new d by (auto simp: locals_entered_def set_var_pos_inv intro!: exI [where x = "ys @ [name]"])
qed

lemma register_loc_vars_entered:
  "locals_entered f xs \<Longrightarrow> register_loc_vars f n = Ret (ok, f', n') \<Longrightarrow>
    locals_entered f' xs \<and> fi_name f' = fi_name f \<and> fi_max_call_size f' = fi_max_call_size f"
proof (induction f n arbitrary: ok f' n' rule: register_loc_vars.induct)
  case (2 func t v l m r)
  consider (vdef) "t = AST_VAR_DEF" | (assign) "t = AST_VAR_ASSIGN" | (ident) "t = AST_IDENTIFIER"
    | (other) "t \<noteq> AST_VAR_DEF" "t \<noteq> AST_VAR_ASSIGN" "t \<noteq> AST_IDENTIFIER"
    by blast
  then show ?case
  proof cases
    case vdef
    then obtain ll ty name where p: "node_left l = Ret ll" "val_type ll = Ret ty" "val_str m = Ret name"
      using "2.prems"(2) by (auto simp: obind_Ret_iff)
    show ?thesis
    proof (cases "add_var name (tok_type_to_dtype ty) (Some func)")
      case None
      then show ?thesis using "2.prems" p vdef by auto
    next
      case (Some f1)
      have inv: "table_inv (fi_var_table func)" using "2.prems"(1) by (simp add: locals_entered_def)
      note d = declare_var(4,7) [OF inv Some]
      from "2.IH"(1) [OF vdef p Some refl refl locals_entered_define [OF "2.prems"(1) Some]]
      show ?thesis using "2.prems"(2) p vdef Some d by (auto simp: obind_Ret_iff Let_def)
    qed
  next
    case assign
    then show ?thesis
      using "2.prems" "2.IH"(2) [OF _ assign] by (auto simp: obind_Ret_iff split: option.splits)
  next
    case ident
    then show ?thesis using "2.prems" by (auto simp: obind_Ret_iff split: option.splits)
  next
    case other
    then obtain b1 f1 l1 where s1: "register_loc_vars func l = Ret (b1, f1, l1)"
      using "2.prems"(2) by (auto simp: obind_Ret_iff)
    have e1: "locals_entered f1 xs \<and> fi_name f1 = fi_name func \<and> fi_max_call_size f1 = fi_max_call_size func"
      using "2.IH"(3) [OF other "2.prems"(1) s1] .
    show ?thesis
    proof (cases b1)
      case False
      then show ?thesis using "2.prems"(2) other s1 e1 by simp
    next
      case True
      then obtain b2 f2 m1 where s2: "register_loc_vars f1 m = Ret (b2, f2, m1)"
        using "2.prems"(2) other s1 by (auto simp: obind_Ret_iff)
      have e2: "locals_entered f2 xs \<and> fi_name f2 = fi_name f1 \<and> fi_max_call_size f2 = fi_max_call_size f1"
        using "2.IH"(4) [OF other s1 refl refl _ _ s2] e1 True by simp
      show ?thesis
      proof (cases b2)
        case False
        then show ?thesis using "2.prems"(2) other s1 s2 e1 e2 True by simp
      next
        case b2: True
        then obtain b3 r1 where s3: "register_loc_vars f2 r = Ret (b3, f', r1)"
          using "2.prems"(2) other s1 s2 True by (auto simp: obind_Ret_iff)
        have "locals_entered f' xs \<and> fi_name f' = fi_name f2 \<and> fi_max_call_size f' = fi_max_call_size f2"
          using "2.IH"(5) [OF other s1 refl refl _ s2 refl refl _ _ s3] e2 True b2 by simp
        then show ?thesis using e1 e2 by simp
      qed
    qed
  qed
qed simp

section \<open>Moving the arguments above the frame\<close>

lemma calculate_arg_addresses_moves:
  assumes "calculate_arg_addresses f n = Ret f'" "table_inv (fi_var_table f)"
    and "var_pos f = map_of (zip (pre @ arg_names n @ post) (ps @ qs @ rs))"
    and "distinct (pre @ arg_names n @ post)" "length pre = length ps" "length (arg_names n) = length qs"
      "length post = length rs"
  shows "table_inv (fi_var_table f') \<and> fi_name f' = fi_name f \<and> fi_arg_count f' = fi_arg_count f \<and>
    fi_var_count f' = fi_var_count f \<and> fi_max_call_size f' = fi_max_call_size f \<and>
    var_pos f' = map_of (zip (pre @ arg_names n @ post)
      (ps @ map (\<lambda>q. q + (fi_var_count f + fi_max_call_size f)) qs @ rs))"
  using assms
proof (induction f n arbitrary: f' pre post ps qs rs rule: calculate_arg_addresses.induct)
  case (2 func t v l m r)
  show ?case
  proof (cases "t = AST_ARGDEF")
    case True
    then obtain name var where p: "val_str m = Ret name" "get_var name func = Some var"
        "f' = set_var_pos name (vi_pos var + fi_var_count func + fi_max_call_size func) func"
      using "2.prems"(1) by (auto simp: obind_Ret_iff split: option.splits)
    have names: "arg_names (Node t v l m r) = [name]" using True p(1) by simp
    then obtain q where q: "qs = [q]" using "2.prems"(6) by (cases qs) auto
    have new: "name \<notin> set pre" using "2.prems"(4) names by simp
    note mid = map_of_zip_mid [OF "2.prems"(5) new]
    have "var_pos func name = Some q"
      using "2.prems"(3) mid(2) unfolding names q by simp
    then have "vi_pos var = q" using p(2) by (simp add: var_pos_def)
    then have "var_pos f' = (var_pos func)(name \<mapsto> q + (fi_var_count func + fi_max_call_size func))"
      using p(2) by (auto simp: p(3) var_pos_def fun_eq_iff get_var_set_pos [OF "2.prems"(2)] add.assoc)
    also have "\<dots> = map_of (zip (pre @ [name] @ post) (ps @ [q + (fi_var_count func + fi_max_call_size func)] @ rs))"
      using "2.prems"(3) mid(1) unfolding names q by simp
    finally show ?thesis
      using "2.prems"(2) unfolding names q by (simp add: p(3) set_var_pos_inv)
  next
    case False
    then have names: "arg_names (Node t v l m r) = arg_names l @ arg_names m" by simp
    obtain f1 where f1: "calculate_arg_addresses func l = Ret f1" "calculate_arg_addresses f1 m = Ret f'"
      using "2.prems"(1) False by (auto simp: obind_Ret_iff)
    let ?k = "length (arg_names l)" and ?d = "fi_var_count func + fi_max_call_size func"
    obtain q1 q2 where q: "qs = q1 @ q2" and len: "length q1 = ?k" "length q2 = length (arg_names m)"
      using "2.prems"(6) unfolding names by (metis append_eq_conv_conj length_append append_take_drop_id add_diff_cancel_left' length_drop length_take min.absorb2 le_add1)
    have dist: "distinct (pre @ arg_names l @ arg_names m @ post)"
      using "2.prems"(4) unfolding names by (simp only: append_assoc)
    have var: "var_pos func = map_of (zip (pre @ arg_names l @ arg_names m @ post) (ps @ q1 @ q2 @ rs))"
      using "2.prems"(3) unfolding names q by (simp only: append_assoc)
    have l2: "length (arg_names m @ post) = length (q2 @ rs)" "length (pre @ arg_names l) = length (ps @ map (\<lambda>q. q + ?d) q1)"
      using "2.prems"(5,7) len(1,2) by (simp_all only: length_append length_map)
    note s1 = "2.IH"(1) [OF False f1(1) "2.prems"(2) var dist "2.prems"(5) len(1) [symmetric] l2(1)]
    then have var1: "var_pos f1 = map_of (zip ((pre @ arg_names l) @ arg_names m @ post)
        ((ps @ map (\<lambda>q. q + ?d) q1) @ q2 @ rs))" and inv1: "table_inv (fi_var_table f1)"
      by (simp_all only: append_assoc)
    have dist1: "distinct ((pre @ arg_names l) @ arg_names m @ post)"
      using dist by (simp only: append_assoc)
    note s2 = "2.IH"(2) [OF False f1 inv1 var1 dist1 l2(2) len(2) [symmetric] "2.prems"(7)]
    show ?thesis
      unfolding names q using s1 s2 by (simp only: append_assoc map_append simp_thms)
  qed
qed simp

section \<open>A registered function\<close>

definition frame_laid_out :: "func_info \<Rightarrow> string list \<Rightarrow> bool" where
  "frame_laid_out f xs \<longleftrightarrow>
     (\<exists>ys. distinct (ys @ xs) \<and> length ys = fi_var_count f \<and> fi_arg_count f = length xs \<and>
        var_pos f = map_of (zip (ys @ xs)
          (slots (fi_max_call_size f) (fi_var_count f) @
           slots (fi_var_count f + fi_max_call_size f + 1) (length xs))))"

lemma map_of_zip_swap:
  assumes "distinct (xs @ ys)" "length xs = length ps" "length ys = length qs"
  shows "map_of (zip (xs @ ys) (ps @ qs)) = map_of (zip (ys @ xs) (qs @ ps))"
  using assms by (simp add: map_add_comm dom_map_of_zip Int_commute)

lemma slots_move: "map (\<lambda>q. q + d) (slots 1 k) = slots (d + 1) k"
  by (induction k) simp_all

lemma calculate_arg_addresses_frame:
  assumes f: "locals_entered f (arg_names n)" and r: "calculate_arg_addresses f n = Ret f'"
  shows "frame_laid_out f' (arg_names n) \<and> table_inv (fi_var_table f') \<and> fi_name f' = fi_name f \<and>
    fi_max_call_size f' = fi_max_call_size f"
proof -
  let ?xs = "arg_names n" and ?M = "fi_max_call_size f" and ?V = "fi_var_count f"
  obtain ys where ys: "distinct (?xs @ ys)" "length ys = ?V" "fi_arg_count f = length ?xs"
      "var_pos f = map_of (zip (?xs @ ys) (slots 1 (length ?xs) @ slots ?M ?V))" "table_inv (fi_var_table f)"
    using f by (auto simp: locals_entered_def)
  have moved: "table_inv (fi_var_table f') \<and> fi_name f' = fi_name f \<and> fi_arg_count f' = length ?xs \<and>
      fi_var_count f' = ?V \<and> fi_max_call_size f' = ?M \<and>
      var_pos f' = map_of (zip (?xs @ ys) (slots (?V + ?M + 1) (length ?xs) @ slots ?M ?V))"
    using calculate_arg_addresses_moves [where pre = "[]" and ps = "[]" and post = ys and rs = "slots ?M ?V"
        and qs = "slots 1 (length ?xs)", OF r ys(5)] ys(1-4)
    by (simp add: slots_move [simplified] del: zip_append map_of_append)
  have "map_of (zip (?xs @ ys) (slots (?V + ?M + 1) (length ?xs) @ slots ?M ?V))
      = map_of (zip (ys @ ?xs) (slots ?M ?V @ slots (?V + ?M + 1) (length ?xs)))"
    using ys(1,2) by (intro map_of_zip_swap) simp_all
  moreover have "distinct (ys @ ?xs)" using ys(1) by auto
  ultimately have "frame_laid_out f' ?xs"
    unfolding frame_laid_out_def using moved ys(2) by (intro exI [where x = ys]) (simp only: simp_thms)
  then show ?thesis using moved by blast
qed

lemma store_func_cases:
  assumes "symbols_ok (as_symbols s)" "get_func (fi_name f) (as_symbols s) \<noteq> None" "table_inv (fi_var_table f)"
  shows "symbols_ok (as_symbols (store_func f s))"
    and "get_func n (as_symbols (store_func f s)) = (if n = fi_name f then Some f else get_func n (as_symbols s))"
proof -
  obtain f0 where f0: "get_func (fi_name f) (as_symbols s) = Some f0" using assms(2) by auto
  let ?g = "\<lambda>f'. if fi_name f' = fi_name f then f else f'"
  have find_eq: "update_first (\<lambda>p. fi_name p = fi_name f) (\<lambda>_. f) xs = update_first (\<lambda>p. fi_name p = fi_name f) ?g xs" for xs
    by (induction xs) auto
  then have "update_func (fi_name f) (\<lambda>_. f) (as_symbols s) = update_func (fi_name f) ?g (as_symbols s)"
    by (simp add: update_func_def sglib_hashed_update_def Let_def)
  then have st: "as_symbols (store_func f s) = update_func (fi_name f) ?g (as_symbols s)"
    by (simp add: store_func_def)
  show get: "get_func n (as_symbols (store_func f s)) = (if n = fi_name f then Some f else get_func n (as_symbols s))" for n
    using f0 get_func_name [OF f0] unfolding st by (simp add: get_func_update [OF assms(1)])
  show "symbols_ok (as_symbols (store_func f s))"
    using assms(1,3) f0 get unfolding symbols_ok_def
    by (auto simp: st update_func_def funcs.inv_update split: if_splits)
qed

text \<open>The entry a definition works on has its arguments registered.\<close>

lemma enter_function_cases:
  assumes ok: "symbols_ok (as_symbols s)"
    and proto: "\<And>f. get_func name (as_symbols s) = Some f \<Longrightarrow> fi_prototyped f \<Longrightarrow> args_entered f (arg_names arglist)"
    and r: "enter_function name t arglist s = Ret (Inr (f, s1))"
  shows "args_entered f (arg_names arglist) \<and> fi_name f = name \<and> symbols_ok (as_symbols s1) \<and>
    get_func name (as_symbols s1) \<noteq> None \<and> (\<forall>n. n \<noteq> name \<longrightarrow> get_func n (as_symbols s1) = get_func n (as_symbols s)) \<and>
    as_max_arg_count s1 = as_max_arg_count s"
proof (cases "get_func name (as_symbols s)")
  case None
  obtain syms where add: "add_func name t (as_symbols s) = (Some (new_func_info name t), syms)" "symbols_ok syms"
      "\<And>n. get_func n syms = (if n = name then Some (new_func_info name t) else get_func n (as_symbols s))"
    using add_func_cases [OF ok, of name t] None by auto
  have args: "register_args (new_func_info name t) arglist = Ret (True, f)"
    and s1: "s1 = store_func f (s\<lparr>as_symbols := syms\<rparr>)"
    using r None add(1) by (auto simp: enter_function_def obind_Ret_iff Let_def split: if_splits)
  from register_args_entered [OF args_entered_new args]
  have f: "args_entered f (arg_names arglist)" "fi_name f = name" by (simp_all add: new_func_info_def)
  then have "table_inv (fi_var_table f)" by (simp add: args_entered_def)
  then show ?thesis
    using store_func_cases [of "s\<lparr>as_symbols := syms\<rparr>" f] f add by (simp add: s1) (simp add: store_func_def)
next
  case (Some f0)
  then show ?thesis
    using r ok proto [OF Some] get_func_name [OF Some]
    by (auto simp: enter_function_def args_entered_def split: if_splits)
qed

lemma register_function_frame:
  assumes ok: "symbols_ok (as_symbols s)" and name: "val_str c1 = Ret name"
    and proto: "\<And>f. get_func name (as_symbols s) = Some f \<Longrightarrow> fi_prototyped f \<Longrightarrow> args_entered f (arg_names arglist)"
    and r: "register_function [c0, c1, arglist, body] s = Ret (node, s')" and "node \<noteq> NULL_NODE"
  shows "\<exists>f. get_func name (as_symbols s') = Some f \<and> frame_laid_out f (arg_names arglist) \<and>
    fi_max_call_size f = as_max_arg_count s \<and> symbols_ok (as_symbols s') \<and>
    (\<forall>n. n \<noteq> name \<longrightarrow> get_func n (as_symbols s') = get_func n (as_symbols s))"
proof -
  obtain t entered where e: "enter_function name t arglist s = Ret entered"
    and rest: "(case entered of Inl s1 \<Rightarrow> Ret (NULL_NODE, s1)
       | Inr (func, s1) \<Rightarrow>
           obind (register_loc_vars (func\<lparr>fi_max_call_size := as_max_arg_count s1\<rparr>) body)
             (\<lambda>(ok, func1, body').
               if \<not> ok then Ret (NULL_NODE, store_func func1 s1)
               else obind (calculate_arg_addresses func1 arglist) (\<lambda>func2.
                 if \<not> check_return_validity func2 body' then Ret (NULL_NODE, store_func func2 s1)
                 else Ret (Node AST_FUNCTION (Val_Func name) body' NULL_NODE NULL_NODE,
                           store_func func2 s1)))) = Ret (node, s')"
    using r name by (simp add: register_function_def child_def obind_Ret_iff) blast
  then obtain f s1 where "entered = Inr (f, s1)"
    using \<open>node \<noteq> NULL_NODE\<close> by (cases entered) auto
  with e rest obtain f1 body' f2 where p: "enter_function name t arglist s = Ret (Inr (f, s1))"
      "register_loc_vars (f\<lparr>fi_max_call_size := as_max_arg_count s1\<rparr>) body = Ret (True, f1, body')"
      "calculate_arg_addresses f1 arglist = Ret f2" "s' = store_func f2 s1"
    using \<open>node \<noteq> NULL_NODE\<close> by (auto simp: obind_Ret_iff split: if_splits)
  note e = enter_function_cases [OF ok proto p(1)]
  have "locals_entered (f\<lparr>fi_max_call_size := as_max_arg_count s1\<rparr>) (arg_names arglist)"
    using e by (intro locals_entered_start) simp
  from register_loc_vars_entered [OF this p(2)]
  have f1: "locals_entered f1 (arg_names arglist)" "fi_name f1 = name" "fi_max_call_size f1 = as_max_arg_count s"
    using e by simp_all
  from calculate_arg_addresses_frame [OF f1(1) p(3)]
  have f2: "frame_laid_out f2 (arg_names arglist)" "table_inv (fi_var_table f2)" "fi_name f2 = name"
    "fi_max_call_size f2 = as_max_arg_count s"
    using f1 by simp_all
  then show ?thesis
    using store_func_cases [of s1 f2] e unfolding p(4) by simp
qed

lemma register_prototype_args:
  assumes ok: "symbols_ok (as_symbols s)" and name: "val_str c1 = Ret name"
    and r: "register_function_prototype [c0, c1, arglist] s = Ret (node, s')" and "node \<noteq> NULL_NODE"
  shows "\<exists>f. get_func name (as_symbols s') = Some f \<and> args_entered f (arg_names arglist) \<and>
    symbols_ok (as_symbols s') \<and> (\<forall>n. n \<noteq> name \<longrightarrow> get_func n (as_symbols s') = get_func n (as_symbols s))"
proof -
  obtain t where r2: "(case add_func name t (as_symbols s) of
          (None, syms) \<Rightarrow> Ret (NULL_NODE, s\<lparr>as_symbols := syms\<rparr>)
        | (Some func, syms) \<Rightarrow>
            obind (register_args (func\<lparr>fi_prototyped := True\<rparr>) arglist) (\<lambda>(ok, func1).
              let s1 = store_func func1 (s\<lparr>as_symbols := syms\<rparr>)
              in if \<not> ok then Ret (NULL_NODE, s1)
                 else Ret (Node AST_INNER Val_None NULL_NODE NULL_NODE NULL_NODE, s1))) = Ret (node, s')"
    using r name by (simp add: register_function_prototype_def child_def obind_Ret_iff) blast
  obtain syms where add: "add_func name t (as_symbols s) = (if get_func name (as_symbols s) = None
        then Some (new_func_info name t) else None, syms)" "symbols_ok syms"
      "\<And>n. get_func n syms = (if get_func name (as_symbols s) = None \<and> n = name
        then Some (new_func_info name t) else get_func n (as_symbols s))"
    using add_func_cases [OF ok, of name t] by blast
  have new: "get_func name (as_symbols s) = None"
    using r2 add(1) \<open>node \<noteq> NULL_NODE\<close> by (auto split: if_splits)
  obtain f where f: "register_args ((new_func_info name t)\<lparr>fi_prototyped := True\<rparr>) arglist = Ret (True, f)"
    "s' = store_func f (s\<lparr>as_symbols := syms\<rparr>)"
    using r2 add(1) new \<open>node \<noteq> NULL_NODE\<close> by (auto simp: obind_Ret_iff Let_def split: if_splits)
  have "args_entered ((new_func_info name t)\<lparr>fi_prototyped := True\<rparr>) []"
    using args_entered_new [of name t] by (simp add: args_entered_def)
  from register_args_entered [OF this f(1)]
  have "args_entered f (arg_names arglist)" "fi_name f = name" by (simp_all add: new_func_info_def)
  moreover from this have "table_inv (fi_var_table f)" by (simp add: args_entered_def)
  ultimately show ?thesis
    using store_func_cases [of "s\<lparr>as_symbols := syms\<rparr>" f] add new unfolding f(2) by simp
qed

section \<open>Properties\<close>

text \<open>\<open>int f(int a, int b) { int c = a; }\<close>\<close>

definition sample_function :: "node list" where
  "sample_function =
    (let leaf = (\<lambda>t v. Node t v NULL_NODE NULL_NODE NULL_NODE);
         ty = Node AST_TYPE Val_None (leaf AST_TYPELEAF (Val_Type TOK_VOID)) NULL_NODE NULL_NODE;
         ident = (\<lambda>x. leaf AST_IDENTIFIER (Val_Str (Some x)));
         arg = (\<lambda>x. Node AST_ARGDEF Val_None ty (ident x) NULL_NODE)
     in [ty, ident ''f'',
         Node AST_ARGDEFLIST Val_None (arg ''a'')
           (Node AST_ARGDEFLIST Val_None (arg ''b'') NULL_NODE NULL_NODE) NULL_NODE,
         Node AST_VAR_DEF Val_None ty (ident ''c'') (ident ''a'')])"



text \<open>C18 A prototype that \<open>register_function_prototype\<close> accepts leaves an entry with the
  arguments numbered from 1 in the order of the list, which is what a later definition relies on.\<close>

theorem prototype_args:
  assumes "symbols_ok (as_symbols s)" "val_str c1 = Ret name"
    and "register_function_prototype [c0, c1, arglist] s = Ret (node, s')" "node \<noteq> NULL_NODE"
  shows "\<exists>f. get_func name (as_symbols s') = Some f \<and> args_entered f (arg_names arglist) \<and>
    symbols_ok (as_symbols s') \<and> (\<forall>n. n \<noteq> name \<longrightarrow> get_func n (as_symbols s') = get_func n (as_symbols s))"
  using assms by (rule register_prototype_args)

theorem prototype_args_witness:
  "case register_function_prototype (take 3 sample_function) initial_ast_state of
     Ret (node, s') \<Rightarrow> \<exists>f. get_func ''f'' (as_symbols s') = Some f \<and> args_entered f [''a'', ''b'']
   | _ \<Rightarrow> False"
proof -
  have "case register_function_prototype (take 3 sample_function) initial_ast_state of
      Ret (node, s') \<Rightarrow> node \<noteq> NULL_NODE | _ \<Rightarrow> False"
    by code_simp
  then obtain node s' where r: "register_function_prototype (take 3 sample_function) initial_ast_state = Ret (node, s')"
      "node \<noteq> NULL_NODE"
    by (cases "register_function_prototype (take 3 sample_function) initial_ast_state") auto
  have "symbols_ok (as_symbols initial_ast_state)" by (simp add: initial_ast_state_def initial_symbols_ok)
  from prototype_args [OF this _ r(1) [unfolded sample_function_def Let_def take.simps, simplified] r(2), of "''f''"]
  show ?thesis by (auto simp: r(1))
qed

end
