(* ===== verification/Program.thy ===== *)
theory Program
  imports Correct_Prog Frame
begin

text \<open>
  Whole programs: the tree of a program, the code that \<open>generate_code\<close> makes of it, and the
  run of that code from its first instruction.
\<close>

section \<open>Programs and their trees\<close>

text \<open>A prototype leaves an empty inner node; of a definition only the body is in the tree.\<close>

datatype decl =
    Proto_Decl dtype string "string list"
  | Func_Decl dtype string "string list" "item list"

fun decl_node :: "decl \<Rightarrow> node" where
  "decl_node (Proto_Decl ty f ps) = leaf AST_INNER Val_None"
| "decl_node (Func_Decl ty f ps is) = node1 AST_FUNCTION (Val_Func f) (items_node f is)"

fun decls_node :: "decl list \<Rightarrow> node" where
  "decls_node [] = create_empty"
| "decls_node (d # ds) = Node AST_INNER Val_None (decl_node d) (decls_node ds) NULL_NODE"

definition head_node :: "decl list \<Rightarrow> node" where
  "head_node ds = node1 AST_HEAD Val_None (decls_node ds)"

fun decl_funcs :: "decl list \<Rightarrow> (string \<times> func_def) list" where
  "decl_funcs [] = []"
| "decl_funcs (Proto_Decl ty f ps # ds) = decl_funcs ds"
| "decl_funcs (Func_Decl ty f ps is # ds) =
     (f, \<lparr>fd_params = ps, fd_void = (ty = DTYPE_VOID), fd_body = is\<rparr>) # decl_funcs ds"

definition program_of :: "decl list \<Rightarrow> program" where
  "program_of ds = map_of (decl_funcs ds)"

section \<open>Code of a function\<close>

lemma body_ok_expr:
  assumes "\<forall>x \<in> vs. pos_ok (Val_Var f x)" "\<forall>g n. cf g n \<longrightarrow> call_ok (Val_Func g)"
  shows "wf_expr vs cf e \<Longrightarrow> body_ok pos_ok call_ok (expr_node f e)"
    and "wf_fac vs cf x \<Longrightarrow> body_ok pos_ok call_ok (fac_node f x)"
    and "wf_args vs cf es \<Longrightarrow> body_ok pos_ok call_ok (args_node f es)"
  using assms
  by (induction e and x and es)
    (auto simp: expr_node.simps fac_node.simps args_node.simps op_node_def create_empty_def)

lemma body_ok_cond:
  assumes "\<forall>x \<in> vs. pos_ok (Val_Var f x)" "\<forall>g n. cf g n \<longrightarrow> call_ok (Val_Func g)" "wf_cond vs cf c"
  shows "body_ok pos_ok call_ok (cond_node f c)" "is_cond (cond_node f c)"
  using assms by (cases c; simp add: boolop_node_def body_ok_expr cond_node.simps)+

lemma body_ok_stat:
  assumes "\<forall>x \<in> vs. pos_ok (Val_Var f x)" "\<forall>g n. cf g n \<longrightarrow> call_ok (Val_Func g)" "\<forall>g n. cs g n \<longrightarrow> call_ok (Val_Func g)"
    "wf_stat vs cf cs s"
  shows "body_ok pos_ok call_ok (stat_node f s)"
  using assms(4) body_ok_expr [of vs pos_ok f cf call_ok, OF assms(1,2)] assms(1,3)
  by (cases "(vs, cf, cs, s)" rule: wf_stat.cases) (auto simp: opt_node_def stat_node.simps)

lemma body_ok_items:
  assumes "\<forall>x \<in> vs. pos_ok (Val_Var f x)" "\<forall>g n. cf g n \<longrightarrow> call_ok (Val_Func g)" "\<forall>g n. cs g n \<longrightarrow> call_ok (Val_Func g)"
  shows "wf_item vs cf cs i \<Longrightarrow> body_ok pos_ok call_ok (item_node f i)"
    and "wf_items vs cf cs is \<Longrightarrow> body_ok pos_ok call_ok (items_node f is)"
  using body_ok_cond [of vs pos_ok f cf call_ok, OF assms(1,2)] body_ok_stat [of vs pos_ok f cf call_ok cs, OF assms]
  by (induction i and "is" rule: items_induct) (auto simp: create_empty_def item_node.simps items_node.simps)

definition enter_func :: "string \<Rightarrow> gstate \<Rightarrow> gstate" where
  "enter_func f g = set_func_addr f (gs_size g) (g\<lparr>gs_current_func := Some f\<rparr>)"

lemma enter_func_simps [simp]:
  "gs_code (enter_func f g) = gs_code g" "gs_size (enter_func f g) = gs_size g"
  "gs_current_func (enter_func f g) = Some f" "gs_error (enter_func f g) = gs_error g" "gs_junk (enter_func f g) = gs_junk g"
  by (simp_all add: enter_func_def set_func_addr_def)

lemma enter_func_table:
  "symbols_ok (gs_symbols g) \<Longrightarrow> get_func n (gs_symbols (enter_func f g)) =
     (if n = f then map_option (\<lambda>func. func\<lparr>fi_addr := Some (gs_size g)\<rparr>) (get_func f (gs_symbols g)) else get_func n (gs_symbols g))"
  by (simp add: enter_func_def set_func_addr_def get_func_update)

lemma emit_comp_return:
  "current_func g = Ret func \<Longrightarrow> push_elem INSTR_RET 0 (push_func_epilog func g) = emit (comp_return (layout_of g)) g"
  using push_return_emit [of g func "[]"] by (simp add: push_elem_emit)

text \<open>Of a function with some code, \<open>generate_helper\<close> makes the code of the reference compiler.\<close>

lemma generate_function:
  assumes table: "symbols_ok (gs_symbols g)" "get_func f (gs_symbols g) = Some func"
    and ready: "gen_ready (enter_func f g) body"
    and start: "func_start (layout_of (enter_func f g)) (gs_size g) body \<noteq> []"
  shows "generate_helper (node1 AST_FUNCTION (Val_Func f) body) g =
    Ret (emit (func_code (layout_of (enter_func f g)) (gs_size g) body) (enter_func f g))"
proof -
  let ?g1 = "enter_func f g"
  let ?ly = "layout_of ?g1"
  let ?start = "func_start ?ly (gs_size g) body"
  let ?func = "func\<lparr>fi_addr := Some (gs_size g)\<rparr>"
  have func: "node_func (Val_Func f) g = Ret func" "fi_name func = f"
    using table get_func_name [OF table(2)] by (simp_all add: node_func_def)
  have cur: "current_func ?g1 = Ret ?func"
    using table by (simp add: current_func_def enter_func_table)
  have frame: "la_frame ?ly = frame_size ?func" by (simp add: layout_of_def cur)
  have prolog: "push_func_prolog ?func ?g1 = emit (if la_frame ?ly > 0 then [elem INSTR_PROLOG (of_nat (la_frame ?ly))] else []) ?g1"
    unfolding frame push_func_prolog_def by (simp add: push_elem_emit)
  have body: "generate_helper body (push_func_prolog ?func ?g1) = Ret (emit ?start ?g1)"
    using generate_comp_lemma [of "push_func_prolog ?func ?g1" body] ready
    unfolding prolog func_start_def Let_def by simp
  have cur_elem: "current_elem (emit ?start ?g1) = Ret (length (gs_code g) + (length ?start - Suc 0))"
    "gs_code (emit ?start ?g1) ! (length (gs_code g) + (length ?start - Suc 0)) = last ?start"
    using current_elem_emit [OF start, of ?g1] nth_last [OF start] by (simp_all add: nth_append)
  have "end_function (emit ?start ?g1) = Ret (emit (func_code ?ly (gs_size g) body) ?g1)"
  proof (cases "ce_instr (last ?start) = INSTR_RET")
    case True
    then show ?thesis using start cur_elem(2) unfolding end_function_def cur_elem(1) func_code_def Let_def by simp
  next
    case False
    have "push_elem INSTR_RET 0 (push_func_epilog ?func (emit ?start ?g1)) = emit (?start @ comp_return ?ly) ?g1"
      using emit_comp_return [of "emit ?start ?g1" ?func] cur by simp
    then show ?thesis using False start cur cur_elem(2) unfolding end_function_def cur_elem(1) func_code_def Let_def by simp
  qed
  then show ?thesis
    using func cur body unfolding enter_func_def by (simp add: Let_def)
qed

section \<open>What the symbol table must say of a program\<close>

text \<open>
  \<open>item_end\<close>: whether code is emitted at all, and if so, whether a return is its last
  instruction. The generator leaves the end of a function out when it is.
\<close>

fun stat_end :: "stat \<Rightarrow> bool option" where
  "stat_end (Var_Def x None) = None"
| "stat_end (Return_Stat eo) = Some True"
| "stat_end _ = Some False"

fun item_end :: "item \<Rightarrow> bool option" and items_end :: "item list \<Rightarrow> bool option" where
  "item_end (Stat_Item s) = stat_end s"
| "item_end (If_Item c is) = (case items_end is of None \<Rightarrow> Some False | Some b \<Rightarrow> Some b)"
| "item_end (If_Else_Item c is js) = (case items_end js of None \<Rightarrow> Some False | Some b \<Rightarrow> Some b)"
| "item_end (While_Item c is) = Some False"
| "item_end (For_Item s c t is) = Some False"
| "item_end (Do_Item is c) = Some False"
| "items_end [] = None"
| "items_end (i # is) = (case items_end is of None \<Rightarrow> item_end i | Some b \<Rightarrow> Some b)"

text \<open>A body is closed when a return that the generator sees last is the body's last statement.\<close>

fun last_return :: "item list \<Rightarrow> bool" where
  "last_return [] = False"
| "last_return [Stat_Item (Return_Stat eo)] = True"
| "last_return (i # is) = last_return is"

definition closed_body :: "item list \<Rightarrow> bool" where
  "closed_body is \<longleftrightarrow> (items_end is = Some True \<longrightarrow> last_return is)"

text \<open>Functions that are called have been defined before, or are being defined.\<close>

definition may_call :: "symbols \<Rightarrow> func_info \<Rightarrow> string set \<Rightarrow> string \<Rightarrow> nat \<Rightarrow> bool" where
  "may_call syms func known g n \<longleftrightarrow>
     g \<in> known \<and> (\<exists>h. get_func g syms = Some h \<and> fi_arg_count h = n) \<and> n \<le> fi_max_call_size func"

definition may_call_void :: "symbols \<Rightarrow> func_info \<Rightarrow> string set \<Rightarrow> string \<Rightarrow> nat \<Rightarrow> bool" where
  "may_call_void syms func known g n \<longleftrightarrow>
     may_call syms func known g n \<and> (\<forall>h. get_func g syms = Some h \<longrightarrow> fi_ret_type h = DTYPE_VOID)"

definition func_ok :: "symbols \<Rightarrow> string set \<Rightarrow> dtype \<Rightarrow> string \<Rightarrow> string list \<Rightarrow> item list \<Rightarrow> bool" where
  "func_ok syms known ty f ps is \<longleftrightarrow>
     (\<exists>func. get_func f syms = Some func \<and> fi_ret_type func = ty \<and> frame_laid_out func ps \<and>
        frame_size func + fi_arg_count func < 2 ^ 30 \<and>
        wf_items (dom (var_pos func)) (may_call syms func (insert f known)) (may_call_void syms func (insert f known)) is \<and>
        (frame_size func > 0 \<or> items_end is \<noteq> None) \<and> closed_body is)"

fun decls_ok :: "symbols \<Rightarrow> string set \<Rightarrow> decl list \<Rightarrow> bool" where
  "decls_ok syms known [] = True"
| "decls_ok syms known (Proto_Decl ty f ps # ds) = decls_ok syms known ds"
| "decls_ok syms known (Func_Decl ty f ps is # ds) =
     (f \<notin> known \<and> func_ok syms known ty f ps is \<and> decls_ok syms (insert f known) ds)"

section \<open>The ends of functions\<close>

lemma comp_return_last [simp]: "comp_return ly \<noteq> []" "ce_instr (last (comp_return ly)) = INSTR_RET"
  by (simp_all add: comp_return_def)

lemma comp_call_last [simp]: "comp_call ly v \<noteq> []" "ce_instr (last (comp_call ly v)) = INSTR_CALL"
  by (simp_all add: comp_call_def)

definition code_end :: "code_elem list \<Rightarrow> bool option" where
  "code_end code = (if code = [] then None else Some (ce_instr (last code) = INSTR_RET))"

lemma code_end_simps [simp]:
  "code_end [] = None" "ys \<noteq> [] \<Longrightarrow> code_end (xs @ ys) = code_end ys" "code_end (xs @ []) = code_end xs"
  by (simp_all add: code_end_def)

lemma code_end_append: "code_end (xs @ ys) = (case code_end ys of None \<Rightarrow> code_end xs | Some b \<Rightarrow> Some b)"
  by (simp add: code_end_def)

lemma code_end_jmp: "code_end (elem INSTR_JMP x # el) = (case code_end el of None \<Rightarrow> Some False | Some b \<Rightarrow> Some b)"
  by (simp add: code_end_def)

lemma code_end_stat: "code_end (comp ly b (stat_node f s)) = stat_end s"
proof (cases s)
  case (Var_Def x eo)
  then show ?thesis by (cases eo) (simp_all add: code_end_def)
next
  case (Return_Stat eo)
  then show ?thesis by (cases eo) (simp_all add: code_end_def)
qed (simp_all add: code_end_def)

lemma code_end_cond:
  "code_end (aim t (neg_code neg (comp ly b (cond_node f c)))) = Some False"
proof -
  have "is_cond (cond_node f c)" by (cases c) (simp add: cond_node.simps boolop_node_def)
  then obtain ops ty where "comp ly b (cond_node f c) = ops @ [elem (boolop_to_jmp_instr ty) 0]" by (rule comp_cond)
  moreover have "boolop_to_jmp_instr ty \<noteq> INSTR_RET" "neg_jmp_instr (boolop_to_jmp_instr ty) \<noteq> INSTR_RET" for ty
    by (cases ty; simp)+
  ultimately show ?thesis by (cases neg) (simp_all add: neg_code_def aim_def negated_def code_end_def)
qed

lemma code_end_items:
  "code_end (comp ly b (item_node f i)) = item_end i"
  "code_end (comp ly b (items_node f is)) = items_end is"
proof (induction i and "is" arbitrary: b and b rule: items_induct)
  case (If c "is")
  then show ?case unfolding comp_branch Let_def by (auto simp add: code_end_append code_end_cond split: option.splits)
next
  case (If_Else c "is" js)
  then show ?case unfolding comp_branch Let_def by (simp add: code_end_append code_end_jmp split: option.splits)
qed (simp_all add: comp_loop Let_def code_end_append code_end_jmp code_end_cond code_end_stat split: option.splits)

lemma last_return_split: "last_return is \<Longrightarrow> \<exists>js eo. is = js @ [Stat_Item (Return_Stat eo)]"
  by (induction "is" rule: last_return.induct) auto

lemma func_start_end:
  assumes "la_frame ly > 0 \<or> items_end is \<noteq> None" "closed_body is"
  shows "end_ok (func_start ly base (items_node f is)) is"
proof -
  let ?prolog = "if la_frame ly > 0 then [elem INSTR_PROLOG (of_nat (la_frame ly))] else []"
  have "code_end ?prolog = (if la_frame ly > 0 then Some False else None)" by (simp add: code_end_def)
  then have "code_end (func_start ly base (items_node f is)) =
      (case items_end is of None \<Rightarrow> (if la_frame ly > 0 then Some False else None) | Some b \<Rightarrow> Some b)"
    unfolding func_start_def Let_def code_end_append code_end_items by (simp only:)
  moreover have "end_ok start is \<longleftrightarrow> code_end start \<noteq> None \<and> (code_end start = Some True \<longrightarrow> (\<exists>js eo. is = js @ [Stat_Item (Return_Stat eo)]))" for start
    by (simp add: end_ok_def code_end_def)
  ultimately show ?thesis
    using assms last_return_split by (auto simp: closed_body_def split: option.splits if_splits)
qed

section \<open>Units of the program\<close>

definition unit_of :: "func_info \<Rightarrow> layout \<Rightarrow> unit_info" where
  "unit_of func ly =
     \<lparr>un_layout = ly, un_vars = dom (var_pos func), un_pos = (\<lambda>x. the (var_pos func x)),
      un_args = fi_arg_count func, un_max = fi_max_call_size func\<rparr>"

text \<open>
  The tables while code is generated: those of the parser, with addresses; the functions in
  \<open>known\<close> have theirs.
\<close>

definition agrees :: "symbols \<Rightarrow> (string \<Rightarrow> nat) \<Rightarrow> string set \<Rightarrow> gstate \<Rightarrow> bool" where
  "agrees syms addr known g \<longleftrightarrow>
     symbols_ok (gs_symbols g) \<and>
     (\<forall>n func. get_func n syms = Some func \<longrightarrow>
        (\<exists>a. get_func n (gs_symbols g) = Some (func\<lparr>fi_addr := a\<rparr>) \<and> (n \<in> known \<longrightarrow> a = Some (addr n))))"

lemma agrees_emit [simp]: "agrees syms addr known (emit code g) = agrees syms addr known g"
  by (simp add: agrees_def)

lemma agrees_enter:
  assumes "agrees syms addr known g" "addr f = gs_size g"
  shows "agrees syms addr (insert f known) (enter_func f g)"
proof -
  have ok: "symbols_ok (gs_symbols g)" using assms(1) by (simp add: agrees_def)
  have "func_table_init (gs_symbols (enter_func f g)) = func_table_init (gs_symbols g)"
    "table_inv (func_table (gs_symbols (enter_func f g)))"
    using ok by (simp_all add: enter_func_def set_func_addr_def update_func_def symbols_ok_def funcs.inv_update)
  then have "symbols_ok (gs_symbols (enter_func f g))"
    using ok by (auto simp: symbols_ok_def enter_func_table [OF ok] split: if_splits)
  then show ?thesis
    using assms by (auto simp: agrees_def enter_func_table) fastforce
qed

lemma frame_laid_out_slots:
  assumes "frame_laid_out func ps"
  shows "inj_on (\<lambda>x. the (var_pos func x)) (dom (var_pos func))" "distinct ps" "fi_arg_count func = length ps"
    and "\<And>x. x \<in> dom (var_pos func) \<Longrightarrow> fi_max_call_size func \<le> the (var_pos func x) \<and>
      the (var_pos func x) \<noteq> frame_size func \<and> the (var_pos func x) \<le> frame_size func + fi_arg_count func"
    and "\<And>i. i < length ps \<Longrightarrow> ps ! i \<in> dom (var_pos func) \<and> the (var_pos func (ps ! i)) = frame_size func + 1 + i"
proof -
  let ?M = "fi_max_call_size func" and ?V = "fi_var_count func"
  obtain ys where ys: "distinct (ys @ ps)" "length ys = ?V" "fi_arg_count func = length ps"
      "var_pos func = map_of (zip (ys @ ps) (slots ?M ?V @ slots (?V + ?M + 1) (length ps)))"
    using assms by (auto simp: frame_laid_out_def)
  let ?xs = "ys @ ps" and ?q = "slots ?M ?V @ slots (?V + ?M + 1) (length ps)"
  have slots: "slots a k = [a..<a + k]" for a k by (rule slots_def)
  have len: "length ?xs = length ?q" using ys(2) by simp
  have q: "distinct ?q" by (auto simp: slots)
  have nth: "var_pos func (?xs ! i) = Some (?q ! i)" if "i < length ?xs" for i
    unfolding ys(4) using len ys(1) that by (intro map_of_zip_nth) auto
  have dom: "dom (var_pos func) = set ?xs" unfolding ys(4) using len by simp
  have at: "\<exists>i < length ?xs. x = ?xs ! i \<and> the (var_pos func x) = ?q ! i" if "x \<in> dom (var_pos func)" for x
    using that nth unfolding dom by (fastforce simp only: in_set_conv_nth option.sel)
  show "distinct ps" "fi_arg_count func = length ps" using ys by simp_all
  show "inj_on (\<lambda>x. the (var_pos func x)) (dom (var_pos func))"
  proof (rule inj_onI)
    fix x y
    assume "x \<in> dom (var_pos func)" "y \<in> dom (var_pos func)" "the (var_pos func x) = the (var_pos func y)"
    then show "x = y" using at [of x] at [of y] q len by (metis nth_eq_iff_index_eq)
  qed
  have range: "set ?q = {?M..<?M + ?V} \<union> {?V + ?M + 1..<?V + ?M + 1 + length ps}" by (auto simp: slots)
  show "?M \<le> the (var_pos func x) \<and> the (var_pos func x) \<noteq> frame_size func \<and>
      the (var_pos func x) \<le> frame_size func + fi_arg_count func" if x: "x \<in> dom (var_pos func)" for x
  proof -
    from at [OF x] have "the (var_pos func x) \<in> set ?q" using len by (metis nth_mem)
    then show ?thesis unfolding range frame_size_def ys(3) by auto
  qed
  show "ps ! i \<in> dom (var_pos func) \<and> the (var_pos func (ps ! i)) = frame_size func + 1 + i" if "i < length ps" for i
    using that nth [of "length ys + i"] ys(2) by (auto simp: nth_append frame_size_def slots)
qed

text \<open>What the layout says of the function that is entered.\<close>

lemma layout_of_entered:
  assumes "agrees syms addr known g" "gs_current_func g = Some f" "get_func f syms = Some func"
  shows "la_frame (layout_of g) = frame_size func"
    and "x \<in> dom (var_pos func) \<Longrightarrow> la_pos (layout_of g) (Val_Var f x) = of_nat (the (var_pos func x))"
    and "x \<in> dom (var_pos func) \<Longrightarrow> \<exists>var. node_var (Val_Var f x) g = Ret var"
    and "get_func h syms = Some H \<Longrightarrow> la_args (layout_of g) (Val_Func h) = fi_arg_count H"
    and "get_func h syms = Some H \<Longrightarrow> \<exists>func. node_func (Val_Func h) g = Ret func"
    and "get_func h syms = Some H \<Longrightarrow> h \<in> known \<Longrightarrow> la_addr (layout_of g) (Val_Func h) = of_nat (addr h)"
    and "\<exists>func. current_func g = Ret func"
proof -
  obtain a where a: "get_func f (gs_symbols g) = Some (func\<lparr>fi_addr := a\<rparr>)"
    using assms by (auto simp: agrees_def)
  show "la_frame (layout_of g) = frame_size func" "\<exists>func. current_func g = Ret func"
    using a assms(2) by (simp_all add: layout_of_def current_func_def frame_size_def)
  show "la_pos (layout_of g) (Val_Var f x) = of_nat (the (var_pos func x))" "\<exists>var. node_var (Val_Var f x) g = Ret var"
    if "x \<in> dom (var_pos func)"
    using that a by (auto simp: layout_of_def node_var_def var_pos_def get_var_def)
  assume H: "get_func h syms = Some H"
  then obtain b where b: "get_func h (gs_symbols g) = Some (H\<lparr>fi_addr := b\<rparr>)" "h \<in> known \<longrightarrow> b = Some (addr h)"
    using assms(1) by (auto simp: agrees_def)
  show "la_args (layout_of g) (Val_Func h) = fi_arg_count H" "\<exists>func. node_func (Val_Func h) g = Ret func"
    using b(1) by (simp_all add: layout_of_def node_func_def)
  show "la_addr (layout_of g) (Val_Func h) = of_nat (addr h)" if "h \<in> known"
    using b that by (simp add: layout_of_def node_func_def func_addr_def)
qed

lemma wf_expr_mono:
  assumes "vs \<subseteq> vs'" "\<And>g n. cf g n \<Longrightarrow> cf' g n"
  shows "wf_expr vs cf e \<Longrightarrow> wf_expr vs' cf' e" "wf_fac vs cf x \<Longrightarrow> wf_fac vs' cf' x" "wf_args vs cf es \<Longrightarrow> wf_args vs' cf' es"
  using assms by (induction e and x and es) auto

lemma wf_stat_mono:
  assumes "vs \<subseteq> vs'" "\<And>g n. cf g n \<Longrightarrow> cf' g n" "\<And>g n. cs g n \<Longrightarrow> cs' g n"
  shows "wf_stat vs cf cs s \<Longrightarrow> wf_stat vs' cf' cs' s"
  using assms wf_expr_mono [OF assms(1,2), where cf = cf]
  by (cases "(vs, cf, cs, s)" rule: wf_stat.cases) auto

lemma wf_cond_mono:
  assumes "vs \<subseteq> vs'" "\<And>g n. cf g n \<Longrightarrow> cf' g n"
  shows "wf_cond vs cf c \<Longrightarrow> wf_cond vs' cf' c"
  using wf_expr_mono [OF assms, where cf = cf] by (cases c) auto

lemma wf_items_mono:
  assumes "vs \<subseteq> vs'" "\<And>g n. cf g n \<Longrightarrow> cf' g n" "\<And>g n. cs g n \<Longrightarrow> cs' g n"
  shows "wf_item vs cf cs i \<Longrightarrow> wf_item vs' cf' cs' i" "wf_items vs cf cs is \<Longrightarrow> wf_items vs' cf' cs' is"
  using wf_stat_mono [OF assms, where cf = cf and cs = cs] wf_cond_mono [OF assms(1,2), where cf = cf]
  by (induction i and "is" rule: items_induct) auto

text \<open>What is known of a function that has a definition: its entry and its meaning.\<close>

definition defined_as :: "symbols \<Rightarrow> program \<Rightarrow> string \<Rightarrow> bool" where
  "defined_as syms P g \<longleftrightarrow>
     (\<exists>fd h. P g = Some fd \<and> get_func g syms = Some h \<and> length (fd_params fd) = fi_arg_count h \<and>
        (fd_void fd \<longleftrightarrow> fi_ret_type h = DTYPE_VOID))"

lemma func_linked_ok:
  assumes g: "agrees syms addr (insert f known) g" "gs_current_func g = Some f"
    and ok: "func_ok syms known ty f ps is" and func: "get_func f syms = Some func"
    and defined: "\<forall>h \<in> insert f known. defined_as syms P h"
    and code: "code_in W (addr f) (func_code (layout_of g) (addr f) (items_node f is))"
  shows "func_linked W P addr f \<lparr>fd_params = ps, fd_void = (ty = DTYPE_VOID), fd_body = is\<rparr> (unit_of func (layout_of g))"
proof -
  let ?ly = "layout_of g" and ?u = "unit_of func (layout_of g)"
  note ly = layout_of_entered [OF g func]
  have F: "frame_laid_out func ps" "frame_size func + fi_arg_count func < 2 ^ 30"
      "wf_items (dom (var_pos func)) (may_call syms func (insert f known)) (may_call_void syms func (insert f known)) is"
      "frame_size func > 0 \<or> items_end is \<noteq> None" "closed_body is"
    using ok func by (auto simp: func_ok_def)
  note slots = frame_laid_out_slots [OF F(1)]
  have u: "unit_ok f ?u"
    using F(2) slots(1,4) ly(1,2) by (auto simp: unit_ok_def unit_of_def frame_size_def)
  have callable: "callable P addr ?u h n" if call: "may_call syms func (insert f known) h n" for h n
  proof -
    obtain H where H: "h \<in> insert f known" "get_func h syms = Some H" "fi_arg_count H = n" "n \<le> fi_max_call_size func"
      using call by (auto simp: may_call_def)
    moreover obtain hd where "P h = Some hd" "length (fd_params hd) = n"
      using H(1-3) bspec [OF defined H(1)] by (auto simp: defined_as_def)
    ultimately show ?thesis using ly(4,6) by (auto simp: callable_def unit_of_def)
  qed
  have void: "callable_void P addr ?u h n" if "may_call_void syms func (insert f known) h n" for h n
    using that callable [of h n] bspec [OF defined, of h]
    by (auto simp: callable_void_def may_call_void_def may_call_def defined_as_def)
  have "end_ok (func_start ?ly (addr f) (items_node f is)) is"
    using F(4,5) ly(1) by (intro func_start_end) auto
  moreover have "wf_items (un_vars ?u) (callable P addr ?u) (callable_void P addr ?u) is"
    using wf_items_mono(2) [OF _ callable void F(3), of "un_vars ?u"] by (simp add: unit_of_def)
  ultimately show ?thesis
    using u code slots(2,3,5) ly(1) by (simp add: func_linked_def) (simp add: unit_of_def)
qed

lemma gen_ready_func:
  assumes g: "agrees syms addr (insert f known) g" "gs_current_func g = Some f"
    and ok: "func_ok syms known ty f ps is" and func: "get_func f syms = Some func"
  shows "gen_ready g (items_node f is)" "func_start (layout_of g) base (items_node f is) \<noteq> []"
proof -
  note ly = layout_of_entered [OF g func]
  have F: "wf_items (dom (var_pos func)) (may_call syms func (insert f known)) (may_call_void syms func (insert f known)) is"
      "frame_size func > 0 \<or> items_end is \<noteq> None" "closed_body is"
    using ok func by (auto simp: func_ok_def)
  show "func_start (layout_of g) base (items_node f is) \<noteq> []"
    using func_start_end [of "layout_of g" "is" base] F(2,3) ly(1) by (simp add: end_ok_def)
  show "gen_ready g (items_node f is)"
    unfolding gen_ready_def
    by (intro conjI ly(7) body_ok_items(2) [OF _ _ _ F(1)])
      (use ly(3,5) in \<open>auto simp: may_call_def may_call_void_def\<close>)
qed

section \<open>Code of a program\<close>

fun link_decl :: "decl \<Rightarrow> gstate \<Rightarrow> gstate" where
  "link_decl (Proto_Decl ty f ps) g = g"
| "link_decl (Func_Decl ty f ps is) g =
     emit (func_code (layout_of (enter_func f g)) (gs_size g) (items_node f is)) (enter_func f g)"

fun decl_code :: "decl \<Rightarrow> gstate \<Rightarrow> code_elem list" where
  "decl_code (Proto_Decl ty f ps) g = []"
| "decl_code (Func_Decl ty f ps is) g = func_code (layout_of (enter_func f g)) (gs_size g) (items_node f is)"

fun link_decls :: "decl list \<Rightarrow> gstate \<Rightarrow> gstate" where
  "link_decls [] g = g"
| "link_decls (d # ds) g = link_decls ds (link_decl d g)"

fun decls_code :: "decl list \<Rightarrow> gstate \<Rightarrow> code_elem list" where
  "decls_code [] g = []"
| "decls_code (d # ds) g = decl_code d g @ decls_code ds (link_decl d g)"

text \<open>Where each function starts, and the layout its code was generated for.\<close>

fun decl_places :: "decl list \<Rightarrow> gstate \<Rightarrow> (string \<times> nat \<times> layout) list" where
  "decl_places [] g = []"
| "decl_places (Proto_Decl ty f ps # ds) g = decl_places ds g"
| "decl_places (Func_Decl ty f ps is # ds) g =
     (f, gs_size g, layout_of (enter_func f g)) # decl_places ds (link_decl (Func_Decl ty f ps is) g)"

lemma link_decl_emits:
  "gs_code (link_decl d g) = gs_code g @ decl_code d g" "gs_size (link_decl d g) = gs_size g + code_size (decl_code d g)"
  "gs_error (link_decl d g) = gs_error g" "gs_junk (link_decl d g) = gs_junk g"
  by (cases d; simp)+

lemma link_decls_emits:
  "gs_code (link_decls ds g) = gs_code g @ decls_code ds g \<and> gs_size (link_decls ds g) = gs_size g + code_size (decls_code ds g) \<and>
   gs_error (link_decls ds g) = gs_error g \<and> gs_junk (link_decls ds g) = gs_junk g"
  by (induction ds arbitrary: g) (auto simp: link_decl_emits)

lemma generate_decls:
  assumes "agrees syms addr known g" "decls_ok syms known ds" "\<forall>(f, a, ly) \<in> set (decl_places ds g). addr f = a"
  shows "generate_helper (decls_node ds) g = Ret (link_decls ds g) \<and>
    agrees syms addr (known \<union> fst ` set (decl_funcs ds)) (link_decls ds g)"
  using assms
proof (induction ds arbitrary: g known rule: decl_funcs.induct)
  case 1
  then show ?case by (simp add: create_empty_def)
next
  case (2 ty f ps ds)
  then show ?case by simp
next
  case (3 ty f ps "is" ds)
  obtain func where func: "get_func f syms = Some func" and ok: "func_ok syms known ty f ps is"
    using 3(3) by (auto simp: func_ok_def)
  have entered: "agrees syms addr (insert f known) (enter_func f g)"
    using 3(2,4) by (intro agrees_enter) auto
  obtain a where table: "symbols_ok (gs_symbols g)" "get_func f (gs_symbols g) = Some (func\<lparr>fi_addr := a\<rparr>)"
    using 3(2) func by (auto simp: agrees_def)
  have gen: "generate_helper (decl_node (Func_Decl ty f ps is)) g = Ret (link_decl (Func_Decl ty f ps is) g)"
    unfolding decl_node.simps link_decl.simps
    using gen_ready_func [OF entered _ ok func] by (intro generate_function [OF table]) simp_all
  have "generate_helper (decls_node ds) (link_decl (Func_Decl ty f ps is) g) = Ret (link_decls ds (link_decl (Func_Decl ty f ps is) g)) \<and>
      agrees syms addr (insert f known \<union> fst ` set (decl_funcs ds)) (link_decls ds (link_decl (Func_Decl ty f ps is) g))"
    using 3 entered by (intro "3.IH") auto
  then show ?case using gen by simp
qed

lemma decls_ok_names:
  assumes "decls_ok syms known ds"
  shows "distinct (map fst (decl_funcs ds))" "known \<inter> fst ` set (decl_funcs ds) = {}"
proof -
  have "distinct (map fst (decl_funcs ds)) \<and> known \<inter> fst ` set (decl_funcs ds) = {}"
    using assms by (induction ds arbitrary: known rule: decl_funcs.induct) force+
  then show "distinct (map fst (decl_funcs ds))" "known \<inter> fst ` set (decl_funcs ds) = {}" by simp_all
qed

lemma decls_ok_args:
  "decls_ok syms known ds \<Longrightarrow> get_func f syms = Some h \<Longrightarrow> f \<in> fst ` set (decl_funcs ds) \<Longrightarrow> fi_arg_count h < 2 ^ 30"
  by (induction ds arbitrary: known rule: decl_funcs.induct) (auto simp: func_ok_def)

lemma decls_ok_defined:
  assumes "decls_ok syms known ds" "\<forall>(f, fd) \<in> set (decl_funcs ds). P f = Some fd" "f \<in> fst ` set (decl_funcs ds)"
  shows "defined_as syms P f"
  using assms
proof (induction ds arbitrary: known rule: decl_funcs.induct)
  case (3 ty g ps "is" ds)
  show ?case
  proof (cases "f = g")
    case True
    then show ?thesis
      using 3(2,3) by (auto simp: func_ok_def defined_as_def dest: frame_laid_out_slots(3))
  next
    case False
    then show ?thesis using 3 by (intro "3.IH") auto
  qed
qed auto

lemma linked_decls:
  assumes "agrees syms addr known g" "decls_ok syms known ds" "\<forall>(f, a, ly) \<in> set (decl_places ds g). addr f = a"
    and "\<forall>h \<in> known \<union> fst ` set (decl_funcs ds). defined_as syms P h"
    and "code_in W (gs_size g) (decls_code ds g)" "(f, fd) \<in> set (decl_funcs ds)"
  shows "\<exists>u. func_linked W P addr f fd u"
  using assms
proof (induction ds arbitrary: g known rule: decl_funcs.induct)
  case (3 ty h ps "is" ds)
  let ?d = "Func_Decl ty h ps is"
  obtain func where func: "get_func h syms = Some func" and ok: "func_ok syms known ty h ps is"
    using 3(3) by (auto simp: func_ok_def)
  have entered: "agrees syms addr (insert h known) (enter_func h g)"
    using 3(2,4) by (intro agrees_enter) auto
  have codes: "code_in W (gs_size g) (decl_code ?d g)" "code_in W (gs_size (link_decl ?d g)) (decls_code ds (link_decl ?d g))"
    using 3(6) by (simp_all add: code_in_append)
  have addr: "addr h = gs_size g" using 3(4) by simp
  show ?case
  proof (cases "(f, fd) \<in> set (decl_funcs ds)")
    case True
    have "\<forall>(f, a, ly) \<in> set (decl_places ds (link_decl ?d g)). addr f = a" using 3(4) by simp
    moreover have "\<forall>k \<in> insert h known \<union> fst ` set (decl_funcs ds). defined_as syms P k" using 3(5) by simp
    moreover have "agrees syms addr (insert h known) (link_decl ?d g)" using entered by simp
    moreover have "decls_ok syms (insert h known) ds" using 3(3) by simp
    ultimately show ?thesis using codes(2) True by (intro "3.IH")
  next
    case False
    then have fd: "f = h" "fd = \<lparr>fd_params = ps, fd_void = (ty = DTYPE_VOID), fd_body = is\<rparr>" using 3(7) by simp_all
    have "func_linked W P addr h fd (unit_of func (layout_of (enter_func h g)))"
      unfolding fd(2)
      by (rule func_linked_ok [OF entered _ ok func]) (use 3(5) codes(1) addr in auto)
    then show ?thesis unfolding fd(1) by blast
  qed
qed auto

section \<open>The entry\<close>

definition entry_code :: "nat \<Rightarrow> u32 \<Rightarrow> code_elem list" where
  "entry_code n a =
     (if n > 0 then [elem INSTR_PROLOG (of_nat n)] else []) @ map (\<lambda>i. elem INSTR_ARGLOAD (of_nat i)) [0..<n] @
     [elem INSTR_CALL a, elem INSTR_FINISH 0]"

lemma push_entry_emit:
  "push_elem INSTR_FINISH 0 (push_elem INSTR_CALL a (push_entry n g)) = emit (entry_code n a) g"
  by (simp add: push_entry_def entry_code_def push_argloads_emit push_elem_emit)

lemma code_size_entry [simp]: "code_size (entry_code n a) = code_size (entry_code n b)"
  by (simp add: entry_code_def)

lemma generate_head:
  assumes syms: "symbols_ok syms" and main: "get_func ''main'' syms = Some m" "''main'' \<in> fst ` set (decl_funcs ds)"
    and ok: "decls_ok syms {} ds"
    and g: "g = emit (entry_code (fi_arg_count m) 0) (initial_gstate syms junk)"
    and addr: "\<forall>(f, a, ly) \<in> set (decl_places ds g). addr f = a"
  shows "generate_code (head_node ds) syms junk =
    Ret (Some (entry_code (fi_arg_count m) (of_nat (addr ''main'')) @ decls_code ds g))"
proof -
  let ?g0 = "initial_gstate syms junk" and ?n = "fi_arg_count m"
  have "\<exists>a. func = func\<lparr>fi_addr := a\<rparr>" for func
    by (rule exI [of _ "fi_addr func"]) simp
  then have agrees: "agrees syms addr {} g"
    using syms unfolding agrees_def g by (auto simp: initial_gstate_def)
  note gen = generate_decls [OF agrees ok addr]
  let ?g' = "link_decls ds g"
  have g': "gs_code ?g' = entry_code ?n 0 @ decls_code ds g" "gs_error ?g' = False"
    using link_decls_emits [of ds g] by (simp_all add: g initial_gstate_def)
  have "\<exists>a. get_func ''main'' (gs_symbols ?g') = Some (m\<lparr>fi_addr := a\<rparr>) \<and> a = Some (addr ''main'')"
    using gen main unfolding agrees_def by blast
  then obtain m' where m': "node_func (Val_Func ''main'') ?g' = Ret m'" "func_addr m' ?g' = of_nat (addr ''main'')"
    by (auto simp: node_func_def func_addr_def)
  have "entry_code ?n 0 @ decls_code ds g =
      ((if ?n > 0 then [elem INSTR_PROLOG (of_nat ?n)] else []) @ map (\<lambda>i. elem INSTR_ARGLOAD (of_nat i)) [0..<?n]) @
      elem INSTR_CALL 0 # [elem INSTR_FINISH 0] @ decls_code ds g" by (simp add: entry_code_def)
  moreover have "length (gs_code (push_entry ?n ?g0)) =
      length ((if ?n > 0 then [elem INSTR_PROLOG (of_nat ?n)] else []) @ map (\<lambda>i. elem INSTR_ARGLOAD (of_nat i)) [0..<?n])"
    by (simp add: push_entry_def push_argloads_emit push_elem_emit initial_gstate_def)
  ultimately have patch: "gs_code (set_arg (length (gs_code (push_entry ?n ?g0))) (of_nat (addr ''main'')) ?g') =
      entry_code ?n (of_nat (addr ''main'')) @ decls_code ds g"
    using g'(1) by (simp add: set_arg_def entry_code_def nth_append list_update_append)
  have "get_func ''main'' (gs_symbols ?g0) = Some m" using main by (simp add: initial_gstate_def)
  then have "generate_helper (head_node ds) ?g0 =
      Ret (set_arg (length (gs_code (push_entry ?n ?g0))) (of_nat (addr ''main'')) ?g')"
    using gen m' push_entry_emit [of 0 ?n ?g0] unfolding head_node_def by (simp add: Let_def g)
  then show ?thesis
    using patch g'(2) by (simp add: generate_code_def set_arg_def)
qed

section \<open>The linked program\<close>

lemma decl_places_names: "map fst (decl_places ds g) = map fst (decl_funcs ds)"
  by (induction ds g rule: decl_places.induct) simp_all

text \<open>The code that is generated links every function of the program, and starts with its entry.\<close>

lemma linked_program:
  assumes syms: "symbols_ok syms" and main: "get_func ''main'' syms = Some m" "''main'' \<in> fst ` set (decl_funcs ds)"
    and ok: "decls_ok syms {} ds"
  shows "\<exists>code. generate_code (head_node ds) syms junk = Ret (Some code) \<and>
    (\<forall>W. code_in W 0 code \<longrightarrow> length W < 2 ^ 32 \<longrightarrow>
      (\<exists>addr un. linked W (program_of ds) addr un \<and> code_in W 0 (entry_code (fi_arg_count m) (of_nat (addr ''main'')))))"
proof -
  let ?n = "fi_arg_count m"
  define g where "g = emit (entry_code ?n 0) (initial_gstate syms junk)"
  define addr where "addr f = (case map_of (decl_places ds g) f of Some (a, ly) \<Rightarrow> a | None \<Rightarrow> 0)" for f
  have dist: "distinct (map fst (decl_funcs ds))" using decls_ok_names [OF ok] by simp
  then have addr: "\<forall>(f, a, ly) \<in> set (decl_places ds g). addr f = a"
    by (auto simp: addr_def decl_places_names split: option.splits)
  note gen = generate_head [OF syms main ok g_def addr]
  have P: "\<forall>(f, fd) \<in> set (decl_funcs ds). program_of ds f = Some fd"
    using dist by (auto simp: program_of_def)
  have "\<exists>un. linked W (program_of ds) addr un \<and> code_in W 0 (entry_code ?n (of_nat (addr ''main'')))"
    if W: "code_in W 0 (entry_code ?n (of_nat (addr ''main'')) @ decls_code ds g)" "length W < 2 ^ 32" for W
  proof -
    have "code_size (entry_code ?n (of_nat (addr ''main''))) = gs_size g"
      using code_size_entry [of ?n _ 0] by (simp add: g_def initial_gstate_def)
    with W(1) have codes: "code_in W 0 (entry_code ?n (of_nat (addr ''main'')))" "code_in W (gs_size g) (decls_code ds g)"
      by (simp_all add: code_in_append)
    have "\<exists>a. func = func\<lparr>fi_addr := a\<rparr>" for func
      by (rule exI [of _ "fi_addr func"]) simp
    then have agrees: "agrees syms addr {} g"
      using syms unfolding agrees_def g_def by (auto simp: initial_gstate_def)
    have defined: "\<forall>h \<in> {} \<union> fst ` set (decl_funcs ds). defined_as syms (program_of ds) h"
      using decls_ok_defined [OF ok P] by simp
    have "\<exists>u. func_linked W (program_of ds) addr f fd u" if "program_of ds f = Some fd" for f fd
      using that unfolding program_of_def by (intro linked_decls [OF agrees ok addr defined [unfolded program_of_def] codes(2)] map_of_SomeD)
    then have "\<exists>u. \<forall>fd. program_of ds f = Some fd \<longrightarrow> func_linked W (program_of ds) addr f fd u" for f
      by (cases "program_of ds f") auto
    then obtain un where "\<forall>f fd. program_of ds f = Some fd \<longrightarrow> func_linked W (program_of ds) addr f fd (un f)"
      by metis
    then show ?thesis using W(2) codes(1) by (auto simp: linked_def)
  qed
  with gen show ?thesis by blast
qed

end
