(* ===== verification/Parser_Proofs.thy ===== *)
theory Parser_Proofs
  imports Parser
begin

text \<open>
  The parser of theory Parser: the contract every check function keeps (tokens are given back
  on failure, and consumed on success), proved once for the engine over an arbitrary check
  function with that contract and then interpreted for \<open>check n\<close>; the bound on the depth of
  calls, which makes \<open>parse_fuel\<close> enough; and soundness for the language of the productions.
\<close>

section \<open>The contract of the check functions\<close>

text \<open>Results in which every return satisfies \<open>P\<close>.\<close>

definition returns :: "('a \<Rightarrow> bool) \<Rightarrow> 'a outcome \<Rightarrow> bool" where
  "returns P m \<longleftrightarrow> (\<forall>x. m = Ret x \<longrightarrow> P x)"

lemma returns_simps [simp]:
  "returns P (Ret x) \<longleftrightarrow> P x" "returns P Exit_Failure" "returns P Segfault" "returns P No_Fuel"
  by (simp_all add: returns_def)

lemma returns_True [simp]: "returns (\<lambda>_. True) m"
  by (simp add: returns_def)

lemma returns_bind: "returns P m \<Longrightarrow> (\<And>x. P x \<Longrightarrow> returns Q (f x)) \<Longrightarrow> returns Q (obind m f)"
  by (cases m) auto

lemma returns_mono: "returns P m \<Longrightarrow> (\<And>x. P x \<Longrightarrow> Q x) \<Longrightarrow> returns Q m"
  by (simp add: returns_def)

lemma returns_conj: "returns P m \<Longrightarrow> returns Q m \<Longrightarrow> returns (\<lambda>x. P x \<and> Q x) m"
  by (simp add: returns_def)

lemma returnsD: "returns P m \<Longrightarrow> m = Ret x \<Longrightarrow> P x"
  by (simp add: returns_def)

text \<open>
  A check function gives the tokens back when it fails, and consumes some when it matches,
  unless the empty word matches.
\<close>

locale checker =
  fixes chk :: checker
  assumes chk_tokens: "returns (\<lambda>(node, s').
      suffix (ps_token s') (ps_token s) \<and>
      (node = NULL_NODE \<longrightarrow> ps_token s' = ps_token s) \<and>
      (node \<noteq> NULL_NODE \<and> \<not> accepts_empty nt \<longrightarrow> length (ps_token s') < length (ps_token s))) (chk nt s)"
begin

lemma match_syms_suffix:
  "returns (\<lambda>(cs, s'). suffix (ps_token s') (ps_token s)) (match_syms chk syms children s)"
proof (induction syms arbitrary: children s)
  case (Cons sym syms)
  show ?case
  proof (cases sym)
    case (Tm ty create)
    show ?thesis
    proof (cases "ps_token s")
      case toks: (Cons tok rest)
      have "suffix x (tok # rest)" if "suffix x rest" for x
        using that by (rule suffix_ConsI)
      then have rest: "returns (\<lambda>(cs, s'). suffix (ps_token s') (tok # rest))
          (match_syms chk syms cs (s\<lparr>ps_token := rest\<rparr>))" for cs
        using Cons.IH [of "s\<lparr>ps_token := rest\<rparr>" cs] by (auto simp: returns_def)
      then show ?thesis
        using Tm toks by (auto simp: Let_def suffix_ConsI split: option.split
            intro!: returns_bind [where P = "\<lambda>_. True"])
    qed (simp add: Tm)
  next
    case (Nt nt)
    have "returns (\<lambda>(cs, s'). suffix (ps_token s') (ps_token s))
        (obind (chk nt s) (\<lambda>(node, s1). if node = NULL_NODE then Ret (None, s1)
          else match_syms chk syms (children @ [node]) s1))"
    proof (rule returns_bind [OF chk_tokens], clarify)
      fix node and s1 :: pstate
      assume "suffix (ps_token s1) (ps_token s)"
      then show "returns (\<lambda>(cs, s'). suffix (ps_token s') (ps_token s))
          (if node = NULL_NODE then Ret (None, s1) else match_syms chk syms (children @ [node]) s1)"
        using Cons.IH [of s1 "children @ [node]"] by (auto simp: returns_def intro: suffix_order.trans)
    qed
    then show ?thesis by (simp add: Nt)
  qed
qed simp

text \<open>A production that starts with a terminal or a non-empty symbol consumes a token.\<close>

definition consumes :: "sym list \<Rightarrow> bool" where
  "consumes syms \<longleftrightarrow> (case syms of Tm _ _ # _ \<Rightarrow> True | Nt nt # _ \<Rightarrow> \<not> accepts_empty nt | [] \<Rightarrow> False)"

lemma match_syms_consumes:
  assumes "consumes syms"
  shows "returns (\<lambda>(cs, s'). cs = None \<or> length (ps_token s') < length (ps_token s)) (match_syms chk syms children s)"
proof (cases syms)
  case (Cons sym rest)
  have shorter: "returns (\<lambda>(cs, s'). cs = None \<or> length (ps_token s') < length (ps_token s)) (match_syms chk rest ds s1)"
    if "length (ps_token s1) < length (ps_token s)" for ds s1
    using match_syms_suffix [of s1 rest ds] that by (auto simp: returns_def dest!: suffix_length_le)
  show ?thesis
  proof (cases sym)
    case (Tm ty create)
    then show ?thesis
      unfolding Cons using shorter by (auto simp: Let_def split: list.split option.split
          intro!: returns_bind [where P = "\<lambda>_. True"])
  next
    case (Nt nt)
    then have ne: "\<not> accepts_empty nt" using assms Cons by (simp add: consumes_def)
    have "returns (\<lambda>(cs, s'). cs = None \<or> length (ps_token s') < length (ps_token s))
        (obind (chk nt s) (\<lambda>(node, s1). if node = NULL_NODE then Ret (None, s1)
          else match_syms chk rest (children @ [node]) s1))"
      by (rule returns_bind [OF chk_tokens]) (auto simp: ne shorter)
    then show ?thesis unfolding Cons Nt by simp
  qed
qed (use assms in \<open>simp add: consumes_def\<close>)

lemma match_prod_tokens:
  assumes "consumes syms"
  shows "returns (\<lambda>(node, s'). suffix (ps_token s') (ps_token s) \<and>
      (node \<noteq> NULL_NODE \<longrightarrow> length (ps_token s') < length (ps_token s))) (match_prod chk type syms s)"
proof -
  have "returns (\<lambda>(cs, s'). suffix (ps_token s') (ps_token s) \<and>
      (cs = None \<or> length (ps_token s') < length (ps_token s))) (match_syms chk syms [] s)"
    using match_syms_suffix [of s syms "[]"] match_syms_consumes [OF assms, of s "[]"] by (auto simp: returns_def)
  then show ?thesis
    unfolding match_prod_def
    by (rule returns_bind) (auto split: option.split intro!: returns_bind [where P = "\<lambda>_. True"])
qed

lemma try_matching_tokens:
  assumes "\<forall>(type, syms) \<in> set ps. consumes syms" and "ps_token s = ts"
  shows "returns (\<lambda>(node, s'). suffix (ps_token s') ts \<and> (node = NULL_NODE \<longrightarrow> ps_token s' = ts) \<and>
      (node \<noteq> NULL_NODE \<longrightarrow> length (ps_token s') < length ts)) (try_matching chk ps ts s)"
  using assms
proof (induction ps arbitrary: s)
  case (Cons p ps)
  obtain type syms where p: "p = (type, syms)" by (cases p)
  have "consumes syms" using Cons.prems p by simp
  then show ?case
    unfolding p try_matching.simps
    using Cons.prems(1) by (intro returns_bind [OF match_prod_tokens])
      (auto simp: Cons.prems(2) intro!: Cons.IH)
qed simp

lemma prods_consume: "(type, syms) \<in> set (prods nt) \<Longrightarrow> consumes syms"
  by (cases nt) (auto simp: consumes_def prods_type_def prods_var_def_def prods_var_assign_def prods_print_def
      prods_return_def prods_expr_def prods_expr1_def prods_cond_def prods_numop_def prods_boolop_def
      prods_statement_def prods_sequence_def prods_branch_def prods_for_loop_head_def prods_loop_def
      prods_fcall_arglist_def prods_fcall_def prods_ret_fcall_def prods_argdef_def prods_argdeflist_def
      prods_func_def prods_program_def)

lemma check_body_tokens: "returns (\<lambda>(node, s').
      suffix (ps_token s') (ps_token s) \<and>
      (node = NULL_NODE \<longrightarrow> ps_token s' = ps_token s) \<and>
      (node \<noteq> NULL_NODE \<and> \<not> accepts_empty nt \<longrightarrow> length (ps_token s') < length (ps_token s))) (check_body chk nt s)"
  unfolding check_body_def Let_def
  by (rule returns_bind [OF try_matching_tokens [where ts = "ps_token s"]])
    (auto simp: prods_consume create_empty_def split: if_splits)

end

interpretation checks: checker "check n" for n
proof (unfold_locales, induction n)
  case (Suc n)
  then have "checker (check n)" by (rule checker.intro)
  then show ?case by (simp add: checker.check_body_tokens)
qed simp

section \<open>Depth of the calls\<close>

text \<open>How many check functions can be entered one from the other before a token is consumed.\<close>

fun rank :: "nonterm \<Rightarrow> nat" where
  "rank NT_sequence = 3"
| "rank NT_cond = 3"
| "rank NT_fcall_arglist = 3"
| "rank NT_statement = 2"
| "rank NT_for_loop_head = 2"
| "rank NT_expr = 2"
| "rank NT_argdeflist = 2"
| "rank NT_program = 2"
| "rank NT_expr1 = 1"
| "rank NT_var_def = 1"
| "rank NT_argdef = 1"
| "rank NT_func = 1"
| "rank _ = 0"

lemma rank_le: "rank nt \<le> 3"
  by (cases nt) simp_all

definition descends :: "nat \<Rightarrow> sym list \<Rightarrow> bool" where
  "descends r syms \<longleftrightarrow> (case syms of Nt nt # _ \<Rightarrow> rank nt < r \<and> \<not> accepts_empty nt | _ \<Rightarrow> True)"

lemma prods_descend: "(type, syms) \<in> set (prods nt) \<Longrightarrow> descends (rank nt) syms"
  by (cases nt) (auto simp: descends_def prods_type_def prods_var_def_def prods_var_assign_def prods_print_def
      prods_return_def prods_expr_def prods_expr1_def prods_cond_def prods_numop_def prods_boolop_def
      prods_statement_def prods_sequence_def prods_branch_def prods_for_loop_head_def prods_loop_def
      prods_fcall_arglist_def prods_fcall_def prods_ret_fcall_def prods_argdef_def prods_argdeflist_def
      prods_func_def prods_program_def)

text \<open>The create functions do not recurse through the parser.\<close>

definition creators :: "(token \<Rightarrow> node outcome) set" where
  "creators = {create_identifier, create_intliteral, create_neg_intliteral, create_numop, create_boolop, create_type}"

fun sym_ok :: "sym \<Rightarrow> bool" where
  "sym_ok (Tm ty (Some f)) \<longleftrightarrow> f \<in> creators"
| "sym_ok _ \<longleftrightarrow> True"

lemma prods_sym_ok: "(type, syms) \<in> set (prods nt) \<Longrightarrow> list_all sym_ok syms"
  by (cases nt) (auto simp: creators_def prods_type_def prods_var_def_def prods_var_assign_def prods_print_def
      prods_return_def prods_expr_def prods_expr1_def prods_cond_def prods_numop_def prods_boolop_def
      prods_statement_def prods_sequence_def prods_branch_def prods_for_loop_head_def prods_loop_def
      prods_fcall_arglist_def prods_fcall_def prods_ret_fcall_def prods_argdef_def prods_argdeflist_def
      prods_func_def prods_program_def)

lemma create_intliteral_fuel: "create_intliteral tok \<noteq> No_Fuel"
  by (simp add: create_intliteral_def Let_def split: option.split)

lemma create_neg_intliteral_fuel: "create_neg_intliteral tok \<noteq> No_Fuel"
  by (auto simp: create_neg_intliteral_def obind_No_Fuel_iff create_intliteral_fuel
      split: node.split node_val.split)

lemma creators_fuel: "f \<in> creators \<Longrightarrow> f tok \<noteq> No_Fuel"
  by (auto simp: creators_def create_identifier_def create_numop_def create_boolop_def create_type_def
      create_intliteral_fuel create_neg_intliteral_fuel)

lemma val_str_fuel [simp]: "val_str n \<noteq> No_Fuel"
  by (cases n rule: val_str.cases) simp_all

lemma val_type_fuel [simp]: "val_type n \<noteq> No_Fuel"
  by (cases n rule: val_type.cases) simp_all

lemma node_left_fuel [simp]: "node_left n \<noteq> No_Fuel"
  by (cases n) simp_all

lemma child_fuel [simp]: "child cs i \<noteq> No_Fuel"
  by (simp add: child_def)

lemma register_loc_vars_fuel [simp]: "register_loc_vars func n \<noteq> No_Fuel"
  by (induction func n rule: register_loc_vars.induct)
    (auto simp: obind_No_Fuel_iff Let_def split: option.splits)

lemma calculate_arg_addresses_fuel [simp]: "calculate_arg_addresses func n \<noteq> No_Fuel"
  by (induction func n rule: calculate_arg_addresses.induct) (auto simp: obind_No_Fuel_iff split: option.splits)

lemma register_args_fuel [simp]: "register_args func n \<noteq> No_Fuel"
  by (induction func n rule: register_args.induct) (auto simp: obind_No_Fuel_iff Let_def split: option.splits)

lemma create_node_fuel: "create_node type cs s \<noteq> No_Fuel"
  by (cases type)
    (auto simp: create_node_def register_function_def register_function_prototype_def create_fcall_def
      enter_function_def Let_def obind_No_Fuel_iff split: option.splits sum.splits prod.splits if_splits)

definition enough :: "checker \<Rightarrow> nat \<Rightarrow> bool" where
  "enough chk m \<longleftrightarrow> (\<forall>nt s. 4 * length (ps_token s) + rank nt < m \<longrightarrow> chk nt s \<noteq> No_Fuel)"

context checker
begin

lemma match_syms_fuel_all:
  assumes "enough chk m"
  shows "list_all sym_ok syms \<Longrightarrow> 4 * length (ps_token s) + 3 < m \<Longrightarrow> match_syms chk syms children s \<noteq> No_Fuel"
proof (induction syms arbitrary: children s)
  case (Cons sym syms)
  show ?case
  proof (cases sym)
    case (Tm ty create)
    then show ?thesis
      using Cons.prems by (auto simp: Let_def obind_No_Fuel_iff creators_fuel Cons.IH split: list.split option.split)
  next
    case (Nt nt)
    have "chk nt s \<noteq> No_Fuel"
      using assms Cons.prems(2) rank_le [of nt] by (simp add: enough_def)
    moreover have "match_syms chk syms (children @ [node]) s1 \<noteq> No_Fuel" if "chk nt s = Ret (node, s1)" for node s1
      using returnsD [OF chk_tokens that] Cons.prems by (intro Cons.IH) (auto dest!: suffix_length_le)
    ultimately show ?thesis by (auto simp: Nt obind_No_Fuel_iff)
  qed
qed simp

lemma match_syms_fuel:
  assumes e: "enough chk m" and "descends r syms" "list_all sym_ok syms" and m: "4 * length (ps_token s) + r \<le> m"
  shows "match_syms chk syms children s \<noteq> No_Fuel"
proof (cases syms)
  case (Cons sym rest)
  have later: "match_syms chk rest ds s1 \<noteq> No_Fuel" if "length (ps_token s1) < length (ps_token s)" for ds s1
    using that m assms(3) by (intro match_syms_fuel_all [OF e]) (auto simp: Cons)
  show ?thesis
  proof (cases sym)
    case (Tm ty create)
    then show ?thesis
      using assms(3) later by (auto simp: Cons Let_def obind_No_Fuel_iff creators_fuel split: list.split option.split)
  next
    case (Nt nt)
    then have nt: "rank nt < r" "\<not> accepts_empty nt" using assms(2) by (simp_all add: Cons descends_def)
    then have "chk nt s \<noteq> No_Fuel" using e m by (simp add: enough_def)
    moreover have "match_syms chk rest (children @ [node]) s1 \<noteq> No_Fuel"
      if "chk nt s = Ret (node, s1)" "node \<noteq> NULL_NODE" for node s1
      using returnsD [OF chk_tokens that(1)] that(2) nt(2) by (intro later) auto
    ultimately show ?thesis by (auto simp: Cons Nt obind_No_Fuel_iff)
  qed
qed simp

lemma match_prod_fuel:
  "enough chk m \<Longrightarrow> descends r syms \<Longrightarrow> list_all sym_ok syms \<Longrightarrow> 4 * length (ps_token s) + r \<le> m \<Longrightarrow>
   match_prod chk type syms s \<noteq> No_Fuel"
  by (auto simp: match_prod_def obind_No_Fuel_iff create_node_fuel match_syms_fuel split: option.split)

lemma try_matching_fuel:
  assumes "enough chk m" "4 * length ts + r \<le> m"
  shows "\<forall>(type, syms) \<in> set ps. descends r syms \<and> list_all sym_ok syms \<Longrightarrow> ps_token s = ts \<Longrightarrow>
    try_matching chk ps ts s \<noteq> No_Fuel"
proof (induction ps arbitrary: s)
  case (Cons p ps)
  obtain type syms where p: "p = (type, syms)" by (cases p)
  have "match_prod chk type syms s \<noteq> No_Fuel"
    using Cons.prems p assms by (intro match_prod_fuel) auto
  then show ?case
    using Cons by (auto simp: p obind_No_Fuel_iff)
qed simp

lemma check_body_fuel:
  assumes "enough chk m"
  shows "enough (check_body chk) (Suc m)"
  unfolding enough_def
proof (intro allI impI)
  fix nt and s :: pstate
  assume "4 * length (ps_token s) + rank nt < Suc m"
  then have "try_matching chk (prods nt) (ps_token s) s' \<noteq> No_Fuel" if "ps_token s' = ps_token s" for s'
    using that prods_descend prods_sym_ok by (intro try_matching_fuel [OF assms, where r = "rank nt"]) auto
  then show "check_body chk nt s \<noteq> No_Fuel"
    by (auto simp: check_body_def Let_def obind_No_Fuel_iff)
qed

end

lemma check_enough: "enough (check n) n"
proof (induction n)
  case (Suc n)
  then show ?case using checks.check_body_fuel [OF Suc] by simp
qed (simp add: enough_def)

text \<open>With less fuel the result is the same or \<open>No_Fuel\<close>.\<close>

definition extends :: "checker \<Rightarrow> checker \<Rightarrow> bool" where
  "extends chk' chk \<longleftrightarrow> (\<forall>nt s. chk nt s = No_Fuel \<or> chk' nt s = chk nt s)"

lemma obind_extends:
  "m = No_Fuel \<or> m' = m \<Longrightarrow> (\<And>x. f x = No_Fuel \<or> f' x = f x) \<Longrightarrow> obind m f = No_Fuel \<or> obind m' f' = obind m f"
  by (cases m) auto

lemma match_syms_extends:
  assumes "extends chk' chk"
  shows "match_syms chk syms cs s = No_Fuel \<or> match_syms chk' syms cs s = match_syms chk syms cs s"
proof (induction syms arbitrary: cs s)
  case (Cons sym syms)
  show ?case
  proof (cases sym)
    case (Tm ty create)
    have "obind m (\<lambda>node. match_syms chk syms (cs @ [node]) s1) = No_Fuel \<or>
        obind m (\<lambda>node. match_syms chk' syms (cs @ [node]) s1)
        = obind m (\<lambda>node. match_syms chk syms (cs @ [node]) s1)" for m :: "node outcome" and s1
      by (rule obind_extends) (simp_all add: Cons.IH)
    then show ?thesis
      using Cons.IH by (simp add: Tm Let_def split: list.split option.split)
  next
    case (Nt nt)
    have "obind (chk nt s) (\<lambda>(node, s1). if node = NULL_NODE then Ret (None, s1)
          else match_syms chk syms (cs @ [node]) s1) = No_Fuel \<or>
        obind (chk' nt s) (\<lambda>(node, s1). if node = NULL_NODE then Ret (None, s1)
          else match_syms chk' syms (cs @ [node]) s1)
        = obind (chk nt s) (\<lambda>(node, s1). if node = NULL_NODE then Ret (None, s1)
          else match_syms chk syms (cs @ [node]) s1)"
      using assms by (intro obind_extends) (simp_all add: extends_def Cons.IH split: prod.split)
    then show ?thesis by (simp add: Nt)
  qed
qed simp

lemma try_matching_extends:
  assumes "extends chk' chk"
  shows "try_matching chk ps ts s = No_Fuel \<or> try_matching chk' ps ts s = try_matching chk ps ts s"
proof (induction ps arbitrary: s)
  case (Cons p ps)
  obtain type syms where p: "p = (type, syms)" by (cases p)
  have "match_prod chk type syms s = No_Fuel \<or> match_prod chk' type syms s = match_prod chk type syms s"
    unfolding match_prod_def by (rule obind_extends [OF match_syms_extends [OF assms]]) simp
  then show ?case
    unfolding p try_matching.simps using Cons.IH by (intro obind_extends) (auto split: prod.split)
qed simp

lemma check_body_extends: "extends chk' chk \<Longrightarrow> extends (check_body chk') (check_body chk)"
  unfolding extends_def [of "check_body _"] check_body_def Let_def
  by (intro allI obind_extends try_matching_extends) simp_all

lemma check_extends: "n \<le> k \<Longrightarrow> extends (check k) (check n)"
proof (induction n arbitrary: k)
  case (Suc n)
  then obtain k' where "k = Suc k'" "n \<le> k'" by (cases k) auto
  then show ?case using Suc.IH check_body_extends by simp
qed (simp add: extends_def)

section \<open>Whole programs\<close>

lemma start_tokens: "list_all sym_ok [Nt NT_program, Tm TOK_EOF None]"
  by simp

lemma check_start_fuel:
  assumes "parse_fuel (ps_token s) \<le> n"
  shows "check_start n s \<noteq> No_Fuel"
proof -
  have "4 * length (ps_token s) + 3 < parse_fuel (ps_token s)" by (simp add: parse_fuel_def)
  then have "4 * length (ps_token s) + 3 < n" using assms by simp
  from checks.match_syms_fuel_all [OF check_enough start_tokens this] show ?thesis
    by (auto simp: check_start_def match_prod_def obind_No_Fuel_iff create_node_fuel simp del: match_syms.simps
        split: option.split)
qed

lemma check_start_mono: "n \<le> k \<Longrightarrow> check_start n s = No_Fuel \<or> check_start k s = check_start n s"
  unfolding check_start_def match_prod_def
  by (rule obind_extends [OF match_syms_extends [OF check_extends]]) simp_all

section \<open>The language\<close>

text \<open>The token sequences that the productions derive.\<close>

inductive derives :: "nonterm \<Rightarrow> token_type list \<Rightarrow> bool"
  and derives_syms :: "sym list \<Rightarrow> token_type list \<Rightarrow> bool"
where
  derives_prod: "(type, syms) \<in> set (prods nt) \<Longrightarrow> derives_syms syms w \<Longrightarrow> derives nt w"
| derives_empty: "accepts_empty nt \<Longrightarrow> derives nt []"
| derives_Nil: "derives_syms [] []"
| derives_Tm: "derives_syms syms w \<Longrightarrow> derives_syms (Tm ty create # syms) (ty # w)"
| derives_Nt: "derives nt v \<Longrightarrow> derives_syms syms w \<Longrightarrow> derives_syms (Nt nt # syms) (v @ w)"

inductive_simps derives_syms_Nil [simp]: "derives_syms [] w"
inductive_simps derives_syms_Tm: "derives_syms (Tm ty create # syms) w"
inductive_simps derives_syms_Nt: "derives_syms (Nt nt # syms) w"

abbreviation types :: "token list \<Rightarrow> token_type list" where
  "types ts \<equiv> map tok_type ts"

text \<open>What was consumed between two states derives from a nonterminal or a production.\<close>

definition consumed :: "(token_type list \<Rightarrow> bool) \<Rightarrow> pstate \<Rightarrow> pstate \<Rightarrow> bool" where
  "consumed P s s' \<longleftrightarrow> (\<exists>w. types (ps_token s) = w @ types (ps_token s') \<and> P w)"

locale sound_checker = checker +
  assumes chk_derives: "returns (\<lambda>(node, s'). node = NULL_NODE \<or> consumed (derives nt) s s') (chk nt s)"
begin

lemma match_syms_derives:
  "returns (\<lambda>(cs, s'). cs = None \<or> consumed (derives_syms syms) s s') (match_syms chk syms children s)"
proof (induction syms arbitrary: children s)
  case Nil
  show ?case by (simp add: consumed_def derives_Nil)
next
  case (Cons sym syms)
  show ?case
  proof (cases sym)
    case (Tm ty create)
    have later: "returns (\<lambda>(cs, s'). cs = None \<or> consumed (derives_syms (Tm (tok_type tok) create # syms)) s s')
        (match_syms chk syms ds (s\<lparr>ps_token := rest\<rparr>))" if toks: "ps_token s = tok # rest" for tok rest ds
      using Cons.IH [of "s\<lparr>ps_token := rest\<rparr>" ds]
      by (auto simp: returns_def consumed_def toks intro!: derives_Tm)
    then show ?thesis
      by (auto simp: Tm Let_def split: list.split option.split intro!: returns_bind [where P = "\<lambda>_. True"])
  next
    case (Nt nt)
    have "returns (\<lambda>(cs, s'). cs = None \<or> consumed (derives_syms (Nt nt # syms)) s s')
        (obind (chk nt s) (\<lambda>(node, s1). if node = NULL_NODE then Ret (None, s1)
          else match_syms chk syms (children @ [node]) s1))"
    proof (rule returns_bind [OF chk_derives], clarify)
      fix node and s1 :: pstate
      assume first: "node = NULL_NODE \<or> consumed (derives nt) s s1"
      show "returns (\<lambda>(cs, s'). cs = None \<or> consumed (derives_syms (Nt nt # syms)) s s')
          (if node = NULL_NODE then Ret (None, s1) else match_syms chk syms (children @ [node]) s1)"
      proof (cases "node = NULL_NODE")
        case False
        then obtain v where v: "types (ps_token s) = v @ types (ps_token s1)" "derives nt v"
          using first by (auto simp: consumed_def)
        have "consumed (derives_syms (Nt nt # syms)) s s'" if "consumed (derives_syms syms) s1 s'" for s'
          using that v derives_Nt [OF v(2)] unfolding consumed_def by fastforce
        then show ?thesis
          using False Cons.IH [of s1 "children @ [node]"] by (auto simp: returns_def)
      qed simp
    qed
    then show ?thesis by (simp add: Nt)
  qed
qed

lemma match_prod_derives:
  "returns (\<lambda>(node, s'). node = NULL_NODE \<or> consumed (derives_syms syms) s s') (match_prod chk type syms s)"
  unfolding match_prod_def
  by (rule returns_bind [OF match_syms_derives])
    (auto simp: consumed_def split: option.split intro!: returns_bind [where P = "\<lambda>_. True"])

lemma try_matching_derives:
  assumes "\<forall>p \<in> set ps. p \<in> set (prods nt)" and "ps_token s = ts"
  shows "returns (\<lambda>(node, s'). node = NULL_NODE \<or> consumed (derives nt) (s\<lparr>ps_token := ts\<rparr>) s') (try_matching chk ps ts s)"
  using assms
proof (induction ps arbitrary: s)
  case (Cons p ps)
  obtain type syms where p: "p = (type, syms)" by (cases p)
  have der: "derives nt w" if "derives_syms syms w" for w
    using that Cons.prems(1) p by (auto intro: derives_prod)
  have later: "returns (\<lambda>(node, s'). node = NULL_NODE \<or> consumed (derives nt) (s\<lparr>ps_token := ts\<rparr>) s')
      (try_matching chk ps ts (s1\<lparr>ps_token := ts\<rparr>))" for s1
    using Cons.IH [of "s1\<lparr>ps_token := ts\<rparr>"] Cons.prems(1) by (simp add: consumed_def)
  have first: "consumed (derives nt) (s\<lparr>ps_token := ts\<rparr>) s1" if "consumed (derives_syms syms) s s1" for s1
    using that der Cons.prems(2) by (auto simp: consumed_def)
  show ?case
    unfolding p try_matching.simps
    by (rule returns_bind [OF match_prod_derives]) (use first later in auto)
qed simp

lemma check_body_derives:
  "returns (\<lambda>(node, s'). node = NULL_NODE \<or> consumed (derives nt) s s') (check_body chk nt s)"
proof -
  let ?s = "if nt = NT_func then s\<lparr>ps_ast := set_max_arg_count 0 (ps_ast s)\<rparr> else s"
  have prods: "\<forall>(type, syms) \<in> set (prods nt). consumes syms" using prods_consume by auto
  have "returns (\<lambda>(node, s'). (node = NULL_NODE \<or> consumed (derives nt) s s') \<and>
      (node = NULL_NODE \<longrightarrow> ps_token s' = ps_token s)) (try_matching chk (prods nt) (ps_token s) ?s)"
  proof -
    have "ps_token ?s = ps_token s" by simp
    from returns_conj [OF try_matching_derives [of "prods nt" nt, OF _ this] try_matching_tokens [OF prods this]]
    show ?thesis by (rule returns_mono) (auto simp: consumed_def)
  qed
  then show ?thesis
    unfolding check_body_def Let_def
    by (rule returns_bind) (auto simp: consumed_def intro: derives_empty)
qed

end

interpretation sound_checks: sound_checker "check n" for n
proof (unfold_locales, induction n)
  case (Suc n)
  then have "sound_checker (check n)" by (intro sound_checker.intro checks.checker_axioms sound_checker_axioms.intro)
  then show ?case by (simp add: sound_checker.check_body_derives)
qed simp

section \<open>Properties\<close>

lemma parse_tokenlist_fuel: "parse_tokenlist ts \<noteq> No_Fuel"
  using check_start_fuel [of "\<lparr>ps_token = ts, ps_ast = initial_ast_state\<rparr>" "parse_fuel ts"]
  by (auto simp: parse_tokenlist_def obind_No_Fuel_iff)

lemma parse_more_fuel:
  assumes "parse_fuel ts \<le> n"
  shows "check_start n \<lparr>ps_token = ts, ps_ast = initial_ast_state\<rparr>
    = check_start (parse_fuel ts) \<lparr>ps_token = ts, ps_ast = initial_ast_state\<rparr>"
  using check_start_mono [OF assms] check_start_fuel [of "\<lparr>ps_token = ts, ps_ast = initial_ast_state\<rparr>" "parse_fuel ts"]
  by auto

lemma start_derives:
  "returns (\<lambda>(node, s'). node = NULL_NODE \<or>
     consumed (derives_syms [Nt NT_program, Tm TOK_EOF None]) s s') (check_start n s)"
  unfolding check_start_def by (rule sound_checks.match_prod_derives)

lemma derives_start: "derives_syms [Nt NT_program, Tm TOK_EOF None] w \<longleftrightarrow> (\<exists>v. w = v @ [TOK_EOF] \<and> derives NT_program v)"
  by (auto simp: derives_syms_Tm derives_syms_Nt)



text \<open>C10 The contract of every check function, at every depth of calls: the tokens left are a
  suffix of the tokens given; a failing function leaves all of them; and a matching one that is
  not for a possibly empty construct has consumed at least one.\<close>

theorem check_contract:
  assumes "check n nt s = Ret (node, s')"
  shows "suffix (ps_token s') (ps_token s) \<and> (node = NULL_NODE \<longrightarrow> ps_token s' = ps_token s) \<and>
    (node \<noteq> NULL_NODE \<and> \<not> accepts_empty nt \<longrightarrow> length (ps_token s') < length (ps_token s))"
  using returnsD [OF checks.chk_tokens assms] by simp

theorem check_contract_witness:
  "suffix [mk_token TOK_SEMICL None] [mk_token TOK_INT (Some ''int''), mk_token TOK_SEMICL None] \<and>
   length [mk_token TOK_SEMICL None] < length [mk_token TOK_INT (Some ''int''), mk_token TOK_SEMICL None]"
  using check_contract [of 1 NT_type
      "\<lparr>ps_token = [mk_token TOK_INT (Some ''int''), mk_token TOK_SEMICL None], ps_ast = initial_ast_state\<rparr>"
      "Node AST_TYPE Val_None (Node AST_TYPELEAF (Val_Type TOK_INT) NULL_NODE NULL_NODE NULL_NODE) NULL_NODE NULL_NODE"
      "\<lparr>ps_token = [mk_token TOK_SEMICL None], ps_ast = initial_ast_state\<rparr>"]
  by (simp add: check_body_def prods_type_def match_prod_def create_type_def create_node_def)

text \<open>C9 Soundness: a program that the parser accepts is a sentence of the grammar that the
  production tables describe, followed by the end marker.\<close>

theorem parse_sound:
  assumes "parse_tokenlist ts = Ret (node, a)" and "node \<noteq> NULL_NODE"
  shows "\<exists>v rest. types ts = v @ TOK_EOF # rest \<and> derives NT_program v"
proof -
  obtain s' where "check_start (parse_fuel ts) \<lparr>ps_token = ts, ps_ast = initial_ast_state\<rparr> = Ret (node, s')"
    using assms(1) by (auto simp: parse_tokenlist_def obind_Ret_iff)
  from returnsD [OF start_derives this] show ?thesis
    using assms(2) by (auto simp: consumed_def derives_start) blast
qed

theorem parse_sound_witness:
  "\<exists>v rest. types [mk_token TOK_EOF None] = v @ TOK_EOF # rest \<and> derives NT_program v"
proof -
  have "case parse_tokenlist [mk_token TOK_EOF None] of Ret (node, a) \<Rightarrow> node \<noteq> NULL_NODE | _ \<Rightarrow> False"
    by code_simp
  then obtain node a where "parse_tokenlist [mk_token TOK_EOF None] = Ret (node, a)" "node \<noteq> NULL_NODE"
    by (cases "parse_tokenlist [mk_token TOK_EOF None]") auto
  then show ?thesis by (rule parse_sound)
qed

section \<open>A definition that disagrees with its prototype\<close>

text \<open>
  \<open>int f(int a); int f(int b) { return 1; }\<close>: the table entry comes from the prototype, so
  \<open>get_var\<close> does not find \<open>b\<close> and \<open>calculate_arg_addresses\<close> writes through NULL.
\<close>

lemma prototype_argument_name_segfault:
  "(case tokenize_string ''int f(int a); int f(int b) { return 1; }'' of
      Inl e \<Rightarrow> False | Inr ts \<Rightarrow> parse_tokenlist ts = Segfault)"
  by code_simp

text \<open>
  \<open>int f(int a, int b); int f(int b, int a) { return b; }\<close>: the positions are those of the
  prototype, so the first argument of the definition, \<open>b\<close>, reads the second argument.
\<close>

lemma prototype_argument_order:
  "(case tokenize_string ''int f(int a, int b); int f(int b, int a) { return b; }'' of
      Inl e \<Rightarrow> False
    | Inr ts \<Rightarrow>
        (case parse_tokenlist ts of
           Ret (node, s) \<Rightarrow>
             (case get_func ''f'' (as_symbols s) of
                Some f \<Rightarrow> map_option vi_pos (get_var ''b'' f) = Some 2 \<and> map_option vi_pos (get_var ''a'' f) = Some 1
              | None \<Rightarrow> False)
         | _ \<Rightarrow> False))"
  by code_simp


end
