(* ===== verification/Parser_Shape.thy ===== *)
theory Parser_Shape
  imports Source_Text Program Parser_Proofs
begin

text \<open>
  What a successful parse returns: the unresolved tree of a construct whose text is the tokens
  that were consumed, every call of which names a function of the table with the right number of
  arguments.
\<close>

section \<open>What each check function returns\<close>

text \<open>
  The calls that \<open>create_fcall\<close> accepts; \<open>max_arg_count\<close> is at least the number of arguments
  of every call that was parsed.
\<close>

definition stat_call :: "ast_state \<Rightarrow> string \<Rightarrow> nat \<Rightarrow> bool" where
  "stat_call a g n \<longleftrightarrow> (\<exists>h. get_func g (as_symbols a) = Some h \<and> fi_arg_count h = n) \<and> n \<le> as_max_arg_count a"

definition ret_call :: "ast_state \<Rightarrow> string \<Rightarrow> nat \<Rightarrow> bool" where
  "ret_call a g n \<longleftrightarrow> stat_call a g n \<and> (\<forall>h. get_func g (as_symbols a) = Some h \<longrightarrow> fi_ret_type h \<noteq> DTYPE_VOID)"

text \<open>Inside a function, parsing changes no table; only \<open>max_arg_count\<close> grows.\<close>

definition later :: "ast_state \<Rightarrow> ast_state \<Rightarrow> bool" where
  "later a b \<longleftrightarrow> as_symbols b = as_symbols a \<and> as_max_arg_count a \<le> as_max_arg_count b"

lemma later_refl [simp]: "later a a"
  by (simp add: later_def)

lemma later_trans: "later a b \<Longrightarrow> later b c \<Longrightarrow> later a c"
  by (simp add: later_def)

lemma calls_later: "later a b \<Longrightarrow> stat_call a g n \<Longrightarrow> stat_call b g n" "later a b \<Longrightarrow> ret_call a g n \<Longrightarrow> ret_call b g n"
  by (auto simp: later_def stat_call_def ret_call_def)

abbreviation sound_expr :: "ast_state \<Rightarrow> expr \<Rightarrow> bool" where
  "sound_expr a \<equiv> wf_expr UNIV (ret_call a)"
abbreviation sound_fac :: "ast_state \<Rightarrow> fac \<Rightarrow> bool" where
  "sound_fac a \<equiv> wf_fac UNIV (ret_call a)"
abbreviation sound_args :: "ast_state \<Rightarrow> args \<Rightarrow> bool" where
  "sound_args a \<equiv> wf_args UNIV (ret_call a)"
abbreviation sound_cond :: "ast_state \<Rightarrow> cond \<Rightarrow> bool" where
  "sound_cond a \<equiv> wf_cond UNIV (ret_call a)"
abbreviation sound_stat :: "ast_state \<Rightarrow> stat \<Rightarrow> bool" where
  "sound_stat a \<equiv> wf_stat UNIV (ret_call a) (stat_call a)"
abbreviation sound_item :: "ast_state \<Rightarrow> item \<Rightarrow> bool" where
  "sound_item a \<equiv> wf_item UNIV (ret_call a) (stat_call a)"
abbreviation sound_items :: "ast_state \<Rightarrow> item list \<Rightarrow> bool" where
  "sound_items a \<equiv> wf_items UNIV (ret_call a) (stat_call a)"

definition stat_of :: "(stat \<Rightarrow> bool) \<Rightarrow> token list \<Rightarrow> node \<Rightarrow> ast_state \<Rightarrow> bool" where
  "stat_of P w n a \<longleftrightarrow> (\<exists>s. P s \<and> stat_text s w \<and> raw_stat s n \<and> sound_stat a s)"

definition item_of :: "token list \<Rightarrow> node \<Rightarrow> ast_state \<Rightarrow> bool" where
  "item_of w n a \<longleftrightarrow> (\<exists>i. item_text i w \<and> raw_item i n \<and> sound_item a i)"

definition head_of :: "token list \<Rightarrow> node \<Rightarrow> ast_state \<Rightarrow> bool" where
  "head_of w n a \<longleftrightarrow>
     (\<exists>s c t u b v d x l r. w = u @ b @ v @ d @ x \<and> (is_def s \<or> is_assign s) \<and> stat_text s u \<and> toks [TOK_SEMICL] b \<and>
        cond_text c v \<and> toks [TOK_SEMICL] d \<and> is_assign t \<and> stat_text t x \<and>
        n = Node AST_FOR_LOOP_HEAD Val_None l (raw_cond c) r \<and> raw_stat s l \<and> raw_stat t r \<and>
        sound_stat a s \<and> sound_cond a c \<and> sound_stat a t)"

fun parsed :: "nonterm \<Rightarrow> token list \<Rightarrow> node \<Rightarrow> ast_state \<Rightarrow> bool" where
  "parsed NT_type w n a = (\<exists>t. w = [t] \<and> is_type (tok_type t) \<and> n = type_node (tok_type t))"
| "parsed NT_var_def w n a = stat_of is_def w n a"
| "parsed NT_var_assign w n a = stat_of is_assign w n a"
| "parsed NT_print w n a = stat_of (\<lambda>_. True) w n a"
| "parsed NT_return w n a = stat_of (\<lambda>_. True) w n a"
| "parsed NT_fcall w n a = stat_of (\<lambda>_. True) w n a"
| "parsed NT_expr w n a = (\<exists>e. expr_text e w \<and> n = raw_expr e \<and> sound_expr a e)"
| "parsed NT_expr1 w n a = (\<exists>x. fac_text x w \<and> n = raw_fac x \<and> sound_fac a x)"
| "parsed NT_cond w n a = (\<exists>c. cond_text c w \<and> n = raw_cond c \<and> sound_cond a c)"
| "parsed NT_numop w n a = (\<exists>t. w = [t] \<and> arith_op (tok_type t) \<and> n = op_node (tok_type t))"
| "parsed NT_boolop w n a = (\<exists>t. w = [t] \<and> compare_op (tok_type t) \<and> n = boolop_node (tok_type t))"
| "parsed NT_statement w n a = item_of w n a"
| "parsed NT_branch w n a = item_of w n a"
| "parsed NT_loop w n a = item_of w n a"
| "parsed NT_sequence w n a = (\<exists>is. items_text is w \<and> raw_items is n \<and> sound_items a is)"
| "parsed NT_for_loop_head w n a = head_of w n a"
| "parsed NT_fcall_arglist w n a = (\<exists>es. args_text es w \<and> n = raw_args es \<and> sound_args a es)"
| "parsed NT_ret_fcall w n a =
     (\<exists>g es. fac_text (Call_Fac g es) w \<and> n = node1 AST_RET_FCALL (Val_Func g) (raw_args es) \<and> sound_fac a (Call_Fac g es))"
| "parsed NT_argdef w n a =
     (\<exists>t1 t2 x. w = [t1, t2] \<and> is_type (tok_type t1) \<and> ident_token x t2 \<and>
        n = Node AST_ARGDEF Val_None (type_node (tok_type t1)) (ident_node x) NULL_NODE)"
| "parsed NT_argdeflist w n a = (\<exists>ps. params_text ps w \<and> raw_params ps n)"
| "parsed NT_func w n a = True"
| "parsed NT_program w n a = True"

definition inner_nt :: "nonterm \<Rightarrow> bool" where
  "inner_nt nt \<longleftrightarrow> nt \<noteq> NT_func \<and> nt \<noteq> NT_program"

lemma sound_later:
  assumes "later a b"
  shows "sound_expr a e \<Longrightarrow> sound_expr b e" "sound_fac a x \<Longrightarrow> sound_fac b x" "sound_args a es \<Longrightarrow> sound_args b es"
    "sound_cond a c \<Longrightarrow> sound_cond b c" "sound_stat a s \<Longrightarrow> sound_stat b s" "sound_item a i \<Longrightarrow> sound_item b i"
    "sound_items a is \<Longrightarrow> sound_items b is"
proof -
  have calls: "\<And>g n. ret_call a g n \<Longrightarrow> ret_call b g n" "\<And>g n. stat_call a g n \<Longrightarrow> stat_call b g n"
    using calls_later [OF assms] by blast+
  show "sound_expr a e \<Longrightarrow> sound_expr b e" by (rule wf_expr_mono(1) [OF subset_UNIV calls(1)])
  show "sound_fac a x \<Longrightarrow> sound_fac b x" by (rule wf_expr_mono(2) [OF subset_UNIV calls(1)])
  show "sound_args a es \<Longrightarrow> sound_args b es" by (rule wf_expr_mono(3) [OF subset_UNIV calls(1)])
  show "sound_cond a c \<Longrightarrow> sound_cond b c" by (rule wf_cond_mono [OF subset_UNIV calls(1)])
  show "sound_stat a s \<Longrightarrow> sound_stat b s" by (rule wf_stat_mono [OF subset_UNIV calls])
  show "sound_item a i \<Longrightarrow> sound_item b i" by (rule wf_items_mono(1) [OF subset_UNIV calls])
  show "sound_items a is \<Longrightarrow> sound_items b is" by (rule wf_items_mono(2) [OF subset_UNIV calls])
qed

lemma parts_later:
  assumes "later a b"
  shows "stat_of P w n a \<Longrightarrow> stat_of P w n b" "item_of w n a \<Longrightarrow> item_of w n b" "head_of w n a \<Longrightarrow> head_of w n b"
proof -
  show "stat_of P w n a \<Longrightarrow> stat_of P w n b" unfolding stat_of_def using sound_later(5) [OF assms] by blast
  show "item_of w n a \<Longrightarrow> item_of w n b" unfolding item_of_def using sound_later(6) [OF assms] by blast
  assume "head_of w n a"
  then show "head_of w n b"
    unfolding head_of_def by (elim exE conjE, intro exI conjI) (assumption | rule sound_later [OF assms])+
qed

lemma parsed_later: "later a b \<Longrightarrow> parsed nt w n a \<Longrightarrow> parsed nt w n b"
proof (cases nt)
  case NT_ret_fcall
  assume "later a b" "parsed nt w n a"
  then show ?thesis using sound_later(2) unfolding NT_ret_fcall parsed.simps by blast
qed (use parts_later in \<open>auto dest: sound_later\<close>)

text \<open>The children that a production's symbols match, from left to right.\<close>

definition named :: "token \<Rightarrow> bool" where
  "named t \<longleftrightarrow> (tok_type t = TOK_IDENTIFIER \<longrightarrow> tok_val t \<noteq> None)"

fun matched :: "sym list \<Rightarrow> token list \<Rightarrow> node list \<Rightarrow> ast_state \<Rightarrow> bool" where
  "matched [] w ns a = (w = [] \<and> ns = [])"
| "matched (Tm ty create # syms) w ns a =
     (\<exists>t v. w = t # v \<and> tok_type t = ty \<and> named t \<and>
        (case create of
           None \<Rightarrow> matched syms v ns a
         | Some f \<Rightarrow> \<exists>n ms. f t = Ret n \<and> ns = n # ms \<and> matched syms v ms a))"
| "matched (Nt nt # syms) w ns a =
     (\<exists>u v n ms. w = u @ v \<and> n \<noteq> NULL_NODE \<and> parsed nt u n a \<and> ns = n # ms \<and> matched syms v ms a)"

lemma matched_later: "later a b \<Longrightarrow> matched syms w ns a \<Longrightarrow> matched syms w ns b"
proof (induction syms w ns a rule: matched.induct)
  case (2 ty create syms w ns a)
  show ?case
  proof (cases create)
    case None
    then show ?thesis using 2(1,3,4) by auto
  next
    case (Some f)
    then show ?thesis using 2(2-4) by fastforce
  qed
next
  case (3 nt syms w ns a)
  then show ?case using parsed_later [OF 3(2)] by fastforce
qed simp

section \<open>Productions\<close>

lemma create_fcall_shape:
  assumes "create_fcall type ns must a = Ret (n, a')"
  shows "later a a'"
    and "n \<noteq> NULL_NODE \<Longrightarrow> ns = [ident_node g, raw_args es] \<Longrightarrow>
      n = node1 type (Val_Func g) (raw_args es) \<and> stat_call a' g (arg_count es) \<and> (must \<longrightarrow> ret_call a' g (arg_count es))"
proof -
  show "later a a'"
    using assms
    by (auto simp: create_fcall_def later_def set_max_arg_count_def obind_Ret_iff Let_def split: option.splits if_splits)
  assume "n \<noteq> NULL_NODE" "ns = [ident_node g, raw_args es]"
  then show "n = node1 type (Val_Func g) (raw_args es) \<and> stat_call a' g (arg_count es) \<and> (must \<longrightarrow> ret_call a' g (arg_count es))"
    using assms
    by (auto simp: create_fcall_def child_def stat_call_def ret_call_def set_max_arg_count_def Let_def
        split: option.splits if_splits)
qed

lemma create_node_later:
  "create_node type ns a = Ret (n, a') \<Longrightarrow> type \<noteq> AST_FUNCTION \<Longrightarrow> type \<noteq> AST_FUNCTION_PROTO \<Longrightarrow> later a a'"
  by (cases type) (auto simp: create_node_def dest: create_fcall_shape(1))

lemma create_ident_Ret: "named t \<Longrightarrow> tok_type t = TOK_IDENTIFIER \<Longrightarrow> create_identifier t = Ret n \<Longrightarrow> \<exists>x. ident_token x t \<and> n = ident_node x"
  by (auto simp: create_identifier_def named_def ident_token_def)

lemma create_int_Ret:
  "create_intliteral t = Ret n \<Longrightarrow> \<exists>v. n = leaf AST_INTLITERAL (Val_Number v)"
  "create_neg_intliteral t = Ret n \<Longrightarrow> \<exists>v. n = leaf AST_INTLITERAL (Val_Number v)"
  by (auto simp: create_intliteral_def create_neg_intliteral_def obind_Ret_iff Let_def
      split: option.splits if_splits node.splits node_val.splits)

lemmas leaf_creators = create_type_def create_numop_def create_boolop_def

lemma parsed_type:
  "(type, syms) \<in> set prods_type \<Longrightarrow> matched syms w ns a \<Longrightarrow> create_node type ns a = Ret (n, a') \<Longrightarrow> parsed NT_type w n a'"
  by (auto simp: prods_type_def leaf_creators create_node_def type_node_def is_type_def)

lemma parsed_op:
  "(type, syms) \<in> set prods_numop \<Longrightarrow> matched syms w ns a \<Longrightarrow> create_node type ns a = Ret (n, a') \<Longrightarrow> parsed NT_numop w n a'"
  "(type, syms) \<in> set prods_boolop \<Longrightarrow> matched syms w ns a \<Longrightarrow> create_node type ns a = Ret (n, a') \<Longrightarrow> parsed NT_boolop w n a'"
  by (auto simp: prods_numop_def prods_boolop_def leaf_creators create_node_def op_node_def boolop_node_def arith_op_def compare_op_def)

text \<open>From here on, what a check function returned is used by elimination, and shown by introduction.\<close>

declare parsed.simps [simp del]

lemma parsed_intros:
  "expr_text e w \<Longrightarrow> sound_expr a e \<Longrightarrow> parsed NT_expr w (raw_expr e) a"
  "fac_text x w \<Longrightarrow> sound_fac a x \<Longrightarrow> parsed NT_expr1 w (raw_fac x) a"
  "args_text es w \<Longrightarrow> sound_args a es \<Longrightarrow> parsed NT_fcall_arglist w (raw_args es) a"
  "cond_text c w \<Longrightarrow> sound_cond a c \<Longrightarrow> parsed NT_cond w (raw_cond c) a"
  by (auto simp: parsed.simps)

lemma parsed_elims:
  assumes "parsed nt w n a"
  shows "nt = NT_expr \<Longrightarrow> \<exists>e. n = raw_expr e \<and> expr_text e w \<and> sound_expr a e"
    "nt = NT_expr1 \<Longrightarrow> \<exists>x. n = raw_fac x \<and> fac_text x w \<and> sound_fac a x"
    "nt = NT_fcall_arglist \<Longrightarrow> \<exists>es. n = raw_args es \<and> args_text es w \<and> sound_args a es"
    "nt = NT_cond \<Longrightarrow> \<exists>c. n = raw_cond c \<and> cond_text c w \<and> sound_cond a c"
    "nt = NT_type \<Longrightarrow> \<exists>t. w = [t] \<and> is_type (tok_type t) \<and> n = type_node (tok_type t)"
    "nt = NT_numop \<Longrightarrow> \<exists>t. w = [t] \<and> arith_op (tok_type t) \<and> n = op_node (tok_type t)"
    "nt = NT_boolop \<Longrightarrow> \<exists>t. w = [t] \<and> compare_op (tok_type t) \<and> n = boolop_node (tok_type t)"
    "nt = NT_ret_fcall \<Longrightarrow> \<exists>g es. n = node1 AST_RET_FCALL (Val_Func g) (raw_args es) \<and> fac_text (Call_Fac g es) w \<and> sound_fac a (Call_Fac g es)"
    "nt = NT_sequence \<Longrightarrow> \<exists>is. raw_items is n \<and> items_text is w \<and> sound_items a is"
  using assms by (auto simp: parsed.simps)

lemmas parsedD = parsed_elims [OF _ refl]

lemma parsed_Single: "parsed NT_expr1 w m a \<Longrightarrow> parsed NT_expr w (node1 AST_EXPRESSION Val_None m) a"
  using parsed_intros(1) [of "Single _"] by (auto dest!: parsedD(2))

lemma parsed_Binop:
  assumes "parsed NT_expr1 u l a" "parsed NT_numop v m a" "parsed NT_expr w r a"
  shows "parsed NT_expr (u @ v @ w) (Node AST_EXPRESSION Val_None l m r) a"
proof -
  from assms obtain x t e where "l = raw_fac x" "fac_text x u" "sound_fac a x" "v = [t]" "arith_op (tok_type t)"
      "m = op_node (tok_type t)" "r = raw_expr e" "expr_text e w" "sound_expr a e"
    by (auto dest!: parsedD(1,2,6))
  then show ?thesis using parsed_intros(1) [of "Binop x (tok_type t) e" "u @ v @ w" a] by auto
qed

lemma parsed_expr:
  "(type, syms) \<in> set prods_expr \<Longrightarrow> matched syms w ns a \<Longrightarrow> create_node type ns a = Ret (n, a') \<Longrightarrow> parsed NT_expr w n a'"
  by (auto simp: prods_expr_def create_node_def) (blast intro: parsed_Single parsed_Binop)+

lemma parsed_expr1:
  "(type, syms) \<in> set prods_expr1 \<Longrightarrow> matched syms w ns a \<Longrightarrow> create_node type ns a = Ret (n, a') \<Longrightarrow> parsed NT_expr1 w n a'"
proof -
  have call: "parsed NT_ret_fcall w m a \<Longrightarrow> parsed NT_expr1 w (node1 AST_EXPRESSION1 Val_None m) a" for m a
    using parsed_intros(2) [of "Call_Fac _ _"] by (auto dest!: parsedD(8) simp del: fac_text.simps wf_fac.simps)
  have paren: "parsed NT_expr u m a \<Longrightarrow> tok_type t1 = TOK_OPENPA \<Longrightarrow> tok_type t2 = TOK_CLOSEPA \<Longrightarrow>
      parsed NT_expr1 (t1 # u @ [t2]) (node1 AST_EXPRESSION1 Val_None m) a" for t1 t2 u m a
    using parsed_intros(2) [of "Paren_Fac _"] by (auto dest!: parsedD(1))
  have ident: "named t \<Longrightarrow> tok_type t = TOK_IDENTIFIER \<Longrightarrow> create_identifier t = Ret m \<Longrightarrow>
      parsed NT_expr1 [t] (node1 AST_EXPRESSION1 Val_None m) a" for t m a
    using parsed_intros(2) [of "Var_Fac _" "[t]"] by (auto dest!: create_ident_Ret)
  have num: "parsed NT_expr1 w (node1 AST_EXPRESSION1 Val_None (leaf AST_INTLITERAL (Val_Number v))) a" if "num_text v w" for v w a
    using parsed_intros(2) [of "Num_Fac v"] that by auto
  have plain: "parsed NT_expr1 [t] (node1 AST_EXPRESSION1 Val_None m) a"
    if "tok_type t = TOK_INTLITERAL" "create_intliteral t = Ret m" for t m a
    using create_int_Ret(1) [OF that(2)] that by (auto intro!: num simp: num_text_def)
  have negative: "parsed NT_expr1 [t1, t] (node1 AST_EXPRESSION1 Val_None m) a"
    if "tok_type t1 = TOK_MINUS" "tok_type t = TOK_INTLITERAL" "create_neg_intliteral t = Ret m" for t1 t m a
    using create_int_Ret(2) [OF that(3)] that by (auto intro!: num simp: num_text_def)
  assume "(type, syms) \<in> set prods_expr1" "matched syms w ns a" "create_node type ns a = Ret (n, a')"
  then show "parsed NT_expr1 w n a'"
    by (auto simp: prods_expr1_def create_node_def) (blast intro: call paren ident plain negative)+
qed

lemma parsed_call:
  "(type, syms) \<in> set prods_ret_fcall \<Longrightarrow> matched syms w ns a \<Longrightarrow> create_node type ns a = Ret (n, a') \<Longrightarrow> n \<noteq> NULL_NODE \<Longrightarrow>
    parsed NT_ret_fcall w n a'"
  "(type, syms) \<in> set prods_fcall \<Longrightarrow> matched syms w ns a \<Longrightarrow> create_node type ns a = Ret (n, a') \<Longrightarrow> n \<noteq> NULL_NODE \<Longrightarrow>
    parsed NT_fcall w n a'"
proof -
  have call: "\<exists>g es t1 t2 u t3. w = t1 # t2 # u @ [t3] \<and> ident_token g t1 \<and> tok_type t2 = TOK_OPENPA \<and> args_text es u \<and>
      tok_type t3 = TOK_CLOSEPA \<and> ns = [ident_node g, raw_args es] \<and> sound_args a es"
    if m: "matched [Tm TOK_IDENTIFIER (Some create_identifier), Tm TOK_OPENPA None, Nt NT_fcall_arglist, Tm TOK_CLOSEPA None] w ns a"
  proof -
    obtain t1 t2 u t3 i as where w: "w = t1 # t2 # u @ [t3]" "named t1" "tok_type t1 = TOK_IDENTIFIER" "tok_type t2 = TOK_OPENPA"
        "tok_type t3 = TOK_CLOSEPA" "ns = [i, as]" "create_identifier t1 = Ret i" "parsed NT_fcall_arglist u as a"
      using m by auto
    obtain es where "as = raw_args es" "args_text es u" "sound_args a es" using parsedD(3) [OF w(8)] by blast
    moreover obtain g where "ident_token g t1" "i = ident_node g" using create_ident_Ret [OF w(2,3,7)] by blast
    ultimately show ?thesis using w by blast
  qed
  assume "matched syms w ns a" and n: "create_node type ns a = Ret (n, a')" "n \<noteq> NULL_NODE"
  note m = call this(1)
  {
    assume "(type, syms) \<in> set prods_ret_fcall"
    then obtain g es t1 t2 u t3 where w: "w = t1 # t2 # u @ [t3]" "ident_token g t1" "tok_type t2 = TOK_OPENPA" "args_text es u"
        "tok_type t3 = TOK_CLOSEPA" "ns = [ident_node g, raw_args es]" "sound_args a es" and type: "type = AST_RET_FCALL"
      using m by (auto simp: prods_ret_fcall_def simp del: matched.simps)
    have c: "create_fcall AST_RET_FCALL ns True a = Ret (n, a')" using n(1) type by (simp add: create_node_def)
    note c = create_fcall_shape(1) [OF c] create_fcall_shape(2) [OF c n(2) w(6)]
    show "parsed NT_ret_fcall w n a'"
      using w c sound_later(3) [OF c(1) w(7)] by (auto simp: parsed.simps)
  }
  assume "(type, syms) \<in> set prods_fcall"
  then obtain g es t1 t2 u t3 where w: "w = t1 # t2 # u @ [t3]" "ident_token g t1" "tok_type t2 = TOK_OPENPA" "args_text es u"
      "tok_type t3 = TOK_CLOSEPA" "ns = [ident_node g, raw_args es]" "sound_args a es" and type: "type = AST_FCALL"
    using m by (auto simp: prods_fcall_def simp del: matched.simps)
  have c: "create_fcall AST_FCALL ns False a = Ret (n, a')" using n(1) type by (simp add: create_node_def)
  note c = create_fcall_shape(1) [OF c] create_fcall_shape(2) [OF c n(2) w(6)]
  show "parsed NT_fcall w n a'"
    using w c sound_later(3) [OF c(1) w(7)] by (auto simp: parsed.simps stat_of_def intro!: exI [of _ "Call_Stat g es"])
qed

lemma parsed_args:
  "(type, syms) \<in> set prods_fcall_arglist \<Longrightarrow> matched syms w ns a \<Longrightarrow> create_node type ns a = Ret (n, a') \<Longrightarrow> parsed NT_fcall_arglist w n a'"
proof -
  have last: "parsed NT_expr w m a \<Longrightarrow> parsed NT_fcall_arglist w (node1 AST_FCALL_ARGLIST Val_None m) a" for w m a
    using parsed_intros(3) [of "Last_Arg _"] by (auto dest!: parsedD(1))
  have more: "parsed NT_fcall_arglist (u @ t # v) (Node AST_FCALL_ARGLIST Val_None m k NULL_NODE) a"
    if "parsed NT_expr u m a" "tok_type t = TOK_COMMA" "parsed NT_fcall_arglist v k a" for u t v m k a
  proof -
    from that obtain e es where "m = raw_expr e" "expr_text e u" "sound_expr a e" "k = raw_args es" "args_text es v" "sound_args a es"
      by (auto dest!: parsedD(1,3))
    then show ?thesis using parsed_intros(3) [of "Cons_Arg e es" "u @ t # v" a] \<open>tok_type t = TOK_COMMA\<close> by auto
  qed
  assume "(type, syms) \<in> set prods_fcall_arglist" "matched syms w ns a" "create_node type ns a = Ret (n, a')"
  then show "parsed NT_fcall_arglist w n a'"
    by (auto simp: prods_fcall_arglist_def create_node_def) (blast intro: last more)+
qed

lemma parsed_cond:
  "(type, syms) \<in> set prods_cond \<Longrightarrow> matched syms w ns a \<Longrightarrow> create_node type ns a = Ret (n, a') \<Longrightarrow> parsed NT_cond w n a'"
proof -
  have cond: "parsed NT_cond (u @ v @ x) (Node AST_CONDITION Val_None l m r) a"
    if "parsed NT_expr u l a" "parsed NT_boolop v m a" "parsed NT_expr x r a" for u v x l m r a
  proof -
    from that obtain e1 t e2 where "l = raw_expr e1" "expr_text e1 u" "sound_expr a e1" "v = [t]" "compare_op (tok_type t)"
        "m = boolop_node (tok_type t)" "r = raw_expr e2" "expr_text e2 x" "sound_expr a e2"
      by (auto dest!: parsedD(1,7))
    then show ?thesis using parsed_intros(4) [of "Cond e1 (tok_type t) e2" "u @ v @ x" a] by auto
  qed
  assume "(type, syms) \<in> set prods_cond" "matched syms w ns a" "create_node type ns a = Ret (n, a')"
  then show "parsed NT_cond w n a'"
    by (auto simp: prods_cond_def create_node_def intro: cond)
qed

lemma stat_ofI: "P s \<Longrightarrow> stat_text s w \<Longrightarrow> raw_stat s n \<Longrightarrow> sound_stat a s \<Longrightarrow> stat_of P w n a"
  by (auto simp: stat_of_def)

lemma parsed_var_def:
  "(type, syms) \<in> set prods_var_def \<Longrightarrow> matched syms w ns a \<Longrightarrow> create_node type ns a = Ret (n, a') \<Longrightarrow> parsed NT_var_def w n a'"
proof -
  have plain: "stat_of is_def (u @ [t]) (Node AST_VAR_DEF Val_None ty i NULL_NODE) a"
    if prem: "parsed NT_type u ty a" "named t" "tok_type t = TOK_IDENTIFIER" "create_identifier t = Ret i" for u t ty i a
  proof -
    obtain t0 x where "u = [t0]" "is_type (tok_type t0)" "ty = type_node (tok_type t0)" "ident_token x t" "i = ident_node x"
      using parsedD(5) [OF prem(1)] create_ident_Ret [OF prem(2-4)] by blast
    then show ?thesis by (intro stat_ofI [of _ "Var_Def x None"]) (auto simp: raw_opt_def)
  qed
  have init: "stat_of is_def (u @ t # t2 # v) (Node AST_VAR_DEF Val_None ty i m) a"
    if prem: "parsed NT_type u ty a" "named t" "tok_type t = TOK_IDENTIFIER" "create_identifier t = Ret i" "tok_type t2 = TOK_EQ"
      "parsed NT_expr v m a" for u t ty i a t2 v m
  proof -
    obtain t0 x e where "u = [t0]" "is_type (tok_type t0)" "ty = type_node (tok_type t0)" "ident_token x t" "i = ident_node x"
        "m = raw_expr e" "expr_text e v" "sound_expr a e"
      using parsedD(5) [OF prem(1)] create_ident_Ret [OF prem(2-4)] parsedD(1) [OF prem(6)] by blast
    then show ?thesis using prem(5) by (intro stat_ofI [of _ "Var_Def x (Some e)"]) (auto simp: raw_opt_def)
  qed
  assume "(type, syms) \<in> set prods_var_def" "matched syms w ns a" "create_node type ns a = Ret (n, a')"
  then show "parsed NT_var_def w n a'"
    by (auto simp: prods_var_def_def create_node_def parsed.simps(2)) (blast intro: plain init)+
qed

lemma parsed_var_assign:
  "(type, syms) \<in> set prods_var_assign \<Longrightarrow> matched syms w ns a \<Longrightarrow> create_node type ns a = Ret (n, a') \<Longrightarrow> parsed NT_var_assign w n a'"
proof -
  have assign: "stat_of is_assign (t # t2 # v) (Node AST_VAR_ASSIGN Val_None i m NULL_NODE) a"
    if prem: "named t" "tok_type t = TOK_IDENTIFIER" "create_identifier t = Ret i" "tok_type t2 = TOK_EQ" "parsed NT_expr v m a"
    for t i a t2 v m
  proof -
    obtain x e where "ident_token x t" "i = ident_node x" "m = raw_expr e" "expr_text e v" "sound_expr a e"
      using create_ident_Ret [OF prem(1-3)] parsedD(1) [OF prem(5)] by blast
    then show ?thesis using prem(4) by (intro stat_ofI [of _ "Var_Assign x e"]) auto
  qed
  assume "(type, syms) \<in> set prods_var_assign" "matched syms w ns a" "create_node type ns a = Ret (n, a')"
  then show "parsed NT_var_assign w n a'"
    by (auto simp: prods_var_assign_def create_node_def parsed.simps(3)) (blast intro: assign)+
qed

lemma parsed_print_return:
  "(type, syms) \<in> set prods_print \<Longrightarrow> matched syms w ns a \<Longrightarrow> create_node type ns a = Ret (n, a') \<Longrightarrow> parsed NT_print w n a'"
  "(type, syms) \<in> set prods_return \<Longrightarrow> matched syms w ns a \<Longrightarrow> create_node type ns a = Ret (n, a') \<Longrightarrow> parsed NT_return w n a'"
proof -
  have print: "stat_of (\<lambda>_. True) (t # v) (node1 AST_PRINT Val_None m) a"
    if "tok_type t = TOK_PRINT" "parsed NT_expr v m a" for t v m a
    using that(1) parsedD(1) [OF that(2)] by (auto intro!: stat_ofI [of _ "Print_Stat _"])
  have valued: "stat_of (\<lambda>_. True) (t # v) (node1 AST_RETURN Val_None m) a"
    if prem: "tok_type t = TOK_RETURN" "parsed NT_expr v m a" for t v m a
  proof -
    obtain e where "m = raw_expr e" "expr_text e v" "sound_expr a e" using parsedD(1) [OF prem(2)] by blast
    then show ?thesis using prem(1) by (intro stat_ofI [of _ "Return_Stat (Some e)"]) (auto simp: raw_opt_def)
  qed
  have plain: "stat_of (\<lambda>_. True) [t] (leaf AST_RETURN Val_None) a" if "tok_type t = TOK_RETURN" for t a
    using that by (intro stat_ofI [of _ "Return_Stat None"]) (auto simp: raw_opt_def)
  assume m: "matched syms w ns a" "create_node type ns a = Ret (n, a')"
  {
    assume "(type, syms) \<in> set prods_print"
    then show "parsed NT_print w n a'"
      using m by (auto simp: prods_print_def create_node_def parsed.simps(4)) (blast intro: print)
  }
  assume "(type, syms) \<in> set prods_return"
  then show "parsed NT_return w n a'"
    using m by (auto simp: prods_return_def create_node_def parsed.simps(5)) (blast intro: valued plain)+
qed

lemma parsed_statement:
  "(type, syms) \<in> set prods_statement \<Longrightarrow> matched syms w ns a \<Longrightarrow> create_node type ns a = Ret (n, a') \<Longrightarrow> parsed NT_statement w n a'"
proof -
  have stat: "item_of (u @ [t]) (node1 AST_STATEMENT Val_None m) a" if "stat_of P u m a" "tok_type t = TOK_SEMICL" for P u m t a
    using that by (fastforce simp: item_of_def stat_of_def intro: exI [of _ "Stat_Item _"])
  assume "(type, syms) \<in> set prods_statement" "matched syms w ns a" "create_node type ns a = Ret (n, a')"
  then show "parsed NT_statement w n a'"
    by (auto simp: prods_statement_def create_node_def parsed.simps) (blast intro: stat)+
qed

lemma parsed_sequence:
  "(type, syms) \<in> set prods_sequence \<Longrightarrow> matched syms w ns a \<Longrightarrow> create_node type ns a = Ret (n, a') \<Longrightarrow> parsed NT_sequence w n a'"
proof -
  have cons: "parsed NT_sequence (u @ v) (Node AST_SEQUENCE Val_None l m NULL_NODE) a"
    if prem: "item_of u l a" "parsed NT_sequence v m a" for u v l m a
  proof -
    obtain i "is" where "item_text i u" "raw_item i l" "sound_item a i" "items_text is v" "raw_items is m" "sound_items a is"
      using prem by (auto simp: item_of_def parsed.simps)
    then have "items_text (i # is) (u @ v)" "raw_items (i # is) (Node AST_SEQUENCE Val_None l m NULL_NODE)" "sound_items a (i # is)"
      by auto
    then show ?thesis unfolding parsed.simps by blast
  qed
  assume p: "(type, syms) \<in> set prods_sequence" and m: "matched syms w ns a" "create_node type ns a = Ret (n, a')"
  then obtain nt where nt: "type = AST_SEQUENCE" "syms = [Nt nt, Nt NT_sequence]" "nt \<in> {NT_statement, NT_branch, NT_loop}"
    by (auto simp: prods_sequence_def)
  then obtain u v l k where parts: "w = u @ v" "ns = [l, k]" "parsed nt u l a" "parsed NT_sequence v k a"
    using m(1) by auto
  have "item_of u l a" using parts(3) nt(3) by (auto simp: parsed.simps)
  moreover have "n = Node AST_SEQUENCE Val_None l k NULL_NODE" "a' = a"
    using m(2) nt(1) parts(2) by (auto simp: create_node_def)
  ultimately show "parsed NT_sequence w n a'" using cons parts by simp
qed

lemma item_ofI: "item_text i w \<Longrightarrow> raw_item i n \<Longrightarrow> sound_item a i \<Longrightarrow> item_of w n a"
  by (auto simp: item_of_def)

lemma parsed_branch:
  "(type, syms) \<in> set prods_branch \<Longrightarrow> matched syms w ns a \<Longrightarrow> create_node type ns a = Ret (n, a') \<Longrightarrow> parsed NT_branch w n a'"
proof -
  assume p: "(type, syms) \<in> set prods_branch" and m: "matched syms w ns a" and n: "create_node type ns a = Ret (n, a')"
  have type: "type = AST_BRANCH" using p by (auto simp: prods_branch_def)
  consider (short) "syms = [Tm TOK_IF None, Tm TOK_OPENPA None, Nt NT_cond, Tm TOK_CLOSEPA None, Tm TOK_OPENBR None,
      Nt NT_sequence, Tm TOK_CLOSEBR None]"
    | (long) "syms = [Tm TOK_IF None, Tm TOK_OPENPA None, Nt NT_cond, Tm TOK_CLOSEPA None, Tm TOK_OPENBR None,
      Nt NT_sequence, Tm TOK_CLOSEBR None, Tm TOK_ELSE None, Tm TOK_OPENBR None, Nt NT_sequence, Tm TOK_CLOSEBR None]"
    using p by (auto simp: prods_branch_def)
  then show "parsed NT_branch w n a'"
  proof cases
    case short
    obtain t1 t2 u t3 t4 v t5 l k where s: "w = [t1, t2] @ u @ [t3, t4] @ v @ [t5]" "toks [TOK_IF, TOK_OPENPA] [t1, t2]"
        "parsed NT_cond u l a" "toks [TOK_CLOSEPA, TOK_OPENBR] [t3, t4]" "parsed NT_sequence v k a" "toks [TOK_CLOSEBR] [t5]" "ns = [l, k]"
      using m unfolding short by auto
    obtain c where c: "l = raw_cond c" "cond_text c u" "sound_cond a c" using parsedD(4) [OF s(3)] by blast
    obtain "is" where its: "items_text is v" "raw_items is k" "sound_items a is" using parsedD(9) [OF s(5)] by blast
    have "item_text (If_Item c is) w" unfolding item_text.simps s(1) by (intro exI conjI, rule refl) (use c its s(2,4,6) in auto)
    then show ?thesis
      using c its n type s(7) unfolding parsed.simps by (intro item_ofI [of "If_Item c is"]) (auto simp: create_node_def)
  next
    case long
    obtain t1 t2 u t3 t4 v t5 t6 t7 x t8 l k r where s: "w = [t1, t2] @ u @ [t3, t4] @ v @ [t5, t6, t7] @ x @ [t8]"
        "toks [TOK_IF, TOK_OPENPA] [t1, t2]" "parsed NT_cond u l a" "toks [TOK_CLOSEPA, TOK_OPENBR] [t3, t4]"
        "parsed NT_sequence v k a" "toks [TOK_CLOSEBR, TOK_ELSE, TOK_OPENBR] [t5, t6, t7]" "parsed NT_sequence x r a"
        "toks [TOK_CLOSEBR] [t8]" "ns = [l, k, r]"
      using m unfolding long by auto
    obtain c where c: "l = raw_cond c" "cond_text c u" "sound_cond a c" using parsedD(4) [OF s(3)] by blast
    obtain "is" where its: "items_text is v" "raw_items is k" "sound_items a is" using parsedD(9) [OF s(5)] by blast
    obtain js where js: "items_text js x" "raw_items js r" "sound_items a js" using parsedD(9) [OF s(7)] by blast
    have "item_text (If_Else_Item c is js) w" unfolding item_text.simps s(1) by (intro exI conjI, rule refl) (use c its js s(2,4,6,8) in auto)
    then show ?thesis
      using c its js n type s(9) unfolding parsed.simps by (intro item_ofI [of "If_Else_Item c is js"]) (auto simp: create_node_def)
  qed
qed

lemma parsed_for_head:
  "(type, syms) \<in> set prods_for_loop_head \<Longrightarrow> matched syms w ns a \<Longrightarrow> create_node type ns a = Ret (n, a') \<Longrightarrow> parsed NT_for_loop_head w n a'"
proof -
  assume p: "(type, syms) \<in> set prods_for_loop_head" and m: "matched syms w ns a" and n: "create_node type ns a = Ret (n, a')"
  obtain nt where nt: "type = AST_FOR_LOOP_HEAD" "syms = [Nt nt, Tm TOK_SEMICL None, Nt NT_cond, Tm TOK_SEMICL None, Nt NT_var_assign]"
      "nt \<in> {NT_var_def, NT_var_assign}"
    using p by (auto simp: prods_for_loop_head_def)
  obtain u t1 v t2 x l k r where s: "w = u @ [t1] @ v @ [t2] @ x" "parsed nt u l a" "toks [TOK_SEMICL] [t1]" "parsed NT_cond v k a"
      "toks [TOK_SEMICL] [t2]" "parsed NT_var_assign x r a" "ns = [l, k, r]"
    using m unfolding nt(2) by auto
  obtain i where i: "is_def i \<or> is_assign i" "stat_text i u" "raw_stat i l" "sound_stat a i"
    using s(2) nt(3) by (auto simp: parsed.simps stat_of_def intro: that)
  obtain c where c: "k = raw_cond c" "cond_text c v" "sound_cond a c" using parsedD(4) [OF s(4)] by blast
  obtain j where j: "is_assign j" "stat_text j x" "raw_stat j r" "sound_stat a j"
    using s(6) by (auto simp: parsed.simps stat_of_def)
  have eq: "n = Node AST_FOR_LOOP_HEAD Val_None l (raw_cond c) r" "a' = a"
    using n nt(1) s(7) c(1) by (auto simp: create_node_def)
  show "parsed NT_for_loop_head w n a'"
    unfolding parsed.simps head_of_def s(1) eq
    by (rule exI [of _ i], rule exI [of _ c], rule exI [of _ j], intro exI conjI, rule refl) (use i c j s(3,5) in auto)
qed

lemma parsed_loop:
  "(type, syms) \<in> set prods_loop \<Longrightarrow> matched syms w ns a \<Longrightarrow> create_node type ns a = Ret (n, a') \<Longrightarrow> parsed NT_loop w n a'"
proof -
  assume p: "(type, syms) \<in> set prods_loop" and m: "matched syms w ns a" and n: "create_node type ns a = Ret (n, a')"
  have type: "type = AST_LOOP" using p by (auto simp: prods_loop_def)
  consider (while) "syms = [Tm TOK_WHILE None, Tm TOK_OPENPA None, Nt NT_cond, Tm TOK_CLOSEPA None, Tm TOK_OPENBR None,
      Nt NT_sequence, Tm TOK_CLOSEBR None]"
    | (for_loop) "syms = [Tm TOK_FOR None, Tm TOK_OPENPA None, Nt NT_for_loop_head, Tm TOK_CLOSEPA None, Tm TOK_OPENBR None,
      Nt NT_sequence, Tm TOK_CLOSEBR None]"
    | (do_loop) "syms = [Tm TOK_DO None, Tm TOK_OPENBR None, Nt NT_sequence, Tm TOK_CLOSEBR None,
       Tm TOK_WHILE None, Tm TOK_OPENPA None, Nt NT_cond, Tm TOK_CLOSEPA None, Tm TOK_SEMICL None]"
    using p by (auto simp: prods_loop_def)
  then show "parsed NT_loop w n a'"
  proof cases
    case while
    obtain t1 t2 u t3 t4 v t5 l k where s: "w = [t1, t2] @ u @ [t3, t4] @ v @ [t5]" "toks [TOK_WHILE, TOK_OPENPA] [t1, t2]"
        "parsed NT_cond u l a" "toks [TOK_CLOSEPA, TOK_OPENBR] [t3, t4]" "parsed NT_sequence v k a" "toks [TOK_CLOSEBR] [t5]" "ns = [l, k]"
      using m unfolding while by auto
    obtain c where c: "l = raw_cond c" "cond_text c u" "sound_cond a c" using parsedD(4) [OF s(3)] by blast
    obtain "is" where its: "items_text is v" "raw_items is k" "sound_items a is" using parsedD(9) [OF s(5)] by blast
    have "item_text (While_Item c is) w"
      unfolding item_text.simps s(1) by (intro exI conjI, rule refl) (use c its s(2,4,6) in auto)
    then show ?thesis
      using c its n type s(7) unfolding parsed.simps by (intro item_ofI [of "While_Item c is"]) (auto simp: create_node_def)
  next
    case for_loop
    obtain t1 t2 u t3 t4 v t5 l k where s: "w = [t1, t2] @ u @ [t3, t4] @ v @ [t5]" "toks [TOK_FOR, TOK_OPENPA] [t1, t2]"
        "head_of u l a" "toks [TOK_CLOSEPA, TOK_OPENBR] [t3, t4]" "parsed NT_sequence v k a" "toks [TOK_CLOSEBR] [t5]" "ns = [l, k]"
      using m unfolding for_loop by (auto simp: parsed.simps(16))
    obtain i c j u1 b1 u2 b2 u3 x r where h: "u = u1 @ b1 @ u2 @ b2 @ u3" "is_def i \<or> is_assign i" "stat_text i u1" "toks [TOK_SEMICL] b1"
        "cond_text c u2" "toks [TOK_SEMICL] b2" "is_assign j" "stat_text j u3"
        "l = Node AST_FOR_LOOP_HEAD Val_None x (raw_cond c) r" "raw_stat i x" "raw_stat j r" "sound_stat a i" "sound_cond a c" "sound_stat a j"
      using s(3) unfolding head_of_def by (elim exE conjE) (rule that)
    obtain "is" where its: "items_text is v" "raw_items is k" "sound_items a is" using parsedD(9) [OF s(5)] by blast
    have "item_text (For_Item i c j is) w"
      unfolding item_text.simps s(1) h(1) append_assoc by (intro exI conjI, rule refl) (use h its s(2,4,6) in auto)
    then show ?thesis
      using h its n type s(7) unfolding parsed.simps by (intro item_ofI [of "For_Item i c j is"]) (auto simp: create_node_def)
  next
    case do_loop
    obtain t1 t2 u t3 t4 t5 v t6 t7 l k where s: "w = [t1, t2] @ u @ [t3, t4, t5] @ v @ [t6, t7]" "toks [TOK_DO, TOK_OPENBR] [t1, t2]"
        "parsed NT_sequence u l a" "toks [TOK_CLOSEBR, TOK_WHILE, TOK_OPENPA] [t3, t4, t5]" "parsed NT_cond v k a"
        "toks [TOK_CLOSEPA, TOK_SEMICL] [t6, t7]" "ns = [l, k]"
      using m unfolding do_loop by auto
    obtain c where c: "k = raw_cond c" "cond_text c v" "sound_cond a c" using parsedD(4) [OF s(5)] by blast
    obtain "is" where its: "items_text is u" "raw_items is l" "sound_items a is" using parsedD(9) [OF s(3)] by blast
    have "item_text (Do_Item is c) w"
      unfolding item_text.simps s(1) by (intro exI conjI, rule refl) (use c its s(2,4,6) in auto)
    then show ?thesis
      using c its n type s(7) unfolding parsed.simps by (intro item_ofI [of "Do_Item is c"]) (auto simp: create_node_def)
  qed
qed

lemma parsed_argdef:
  "(type, syms) \<in> set prods_argdef \<Longrightarrow> matched syms w ns a \<Longrightarrow> create_node type ns a = Ret (n, a') \<Longrightarrow> parsed NT_argdef w n a'"
proof -
  assume p: "(type, syms) \<in> set prods_argdef" and m: "matched syms w ns a" and n: "create_node type ns a = Ret (n, a')"
  have type: "type = AST_ARGDEF" "syms = [Nt NT_type, Tm TOK_IDENTIFIER (Some create_identifier)]"
    using p by (auto simp: prods_argdef_def)
  then obtain u t l i where s: "w = u @ [t]" "parsed NT_type u l a" "named t" "tok_type t = TOK_IDENTIFIER" "create_identifier t = Ret i" "ns = [l, i]"
    using m by auto
  obtain t1 x where "u = [t1]" "is_type (tok_type t1)" "l = type_node (tok_type t1)" "ident_token x t" "i = ident_node x"
    using parsedD(5) [OF s(2)] create_ident_Ret [OF s(3-5)] by blast
  then show "parsed NT_argdef w n a'"
    using n type(1) s(1,6) by (auto simp: parsed.simps create_node_def)
qed

lemma parsed_argdeflist:
  "(type, syms) \<in> set prods_argdeflist \<Longrightarrow> matched syms w ns a \<Longrightarrow> create_node type ns a = Ret (n, a') \<Longrightarrow> parsed NT_argdeflist w n a'"
proof -
  have one: "parsed NT_argdeflist u (node1 AST_ARGDEFLIST Val_None l) a" if prem: "parsed NT_argdef u l a" for u l a
  proof -
    obtain t1 t2 x where "u = [t1, t2]" "is_type (tok_type t1)" "ident_token x t2"
        "l = Node AST_ARGDEF Val_None (type_node (tok_type t1)) (ident_node x) NULL_NODE"
      using prem by (auto simp: parsed.simps)
    then show ?thesis unfolding parsed.simps by (intro exI [of _ "[x]"]) auto
  qed
  have more: "parsed NT_argdeflist (u @ t # v) (Node AST_ARGDEFLIST Val_None l m NULL_NODE) a"
    if prem: "parsed NT_argdef u l a" "tok_type t = TOK_COMMA" "parsed NT_argdeflist v m a" for u t v l m a
  proof -
    obtain t1 t2 x ps where "u = [t1, t2]" "is_type (tok_type t1)" "ident_token x t2"
        "l = Node AST_ARGDEF Val_None (type_node (tok_type t1)) (ident_node x) NULL_NODE" "params_text ps v" "raw_params ps m"
      using prem(1,3) by (auto simp: parsed.simps)
    then show ?thesis using prem(2) unfolding parsed.simps by (intro exI [of _ "x # ps"]) auto
  qed
  have none: "tok_type t = TOK_VOID \<Longrightarrow> parsed NT_argdeflist [t] (leaf AST_ARGDEFLIST Val_None) a" for t a
    by (auto simp: parsed.simps intro!: exI [of _ "[]"])
  assume "(type, syms) \<in> set prods_argdeflist" "matched syms w ns a" "create_node type ns a = Ret (n, a')"
  then show "parsed NT_argdeflist w n a'"
    by (auto simp: prods_argdeflist_def create_node_def) (blast intro: one more none)+
qed

text \<open>Every production of a nonterminal inside functions.\<close>

lemma parsed_prod:
  assumes "(type, syms) \<in> set (prods nt)" "inner_nt nt" "matched syms w ns a" "create_node type ns a = Ret (n, a')" "n \<noteq> NULL_NODE"
  shows "parsed nt w n a'"
  using assms
  by (cases nt)
    (auto simp: inner_nt_def intro: parsed_type parsed_op parsed_expr parsed_expr1 parsed_call parsed_args parsed_cond parsed_var_def
      parsed_var_assign parsed_print_return parsed_statement parsed_sequence parsed_branch parsed_for_head parsed_loop
      parsed_argdef parsed_argdeflist simp del: matched.simps)

section \<open>The engine\<close>

fun inner_sym :: "sym \<Rightarrow> bool" where
  "inner_sym (Tm ty create) = True"
| "inner_sym (Nt nt) = inner_nt nt"

lemma prods_inner: "(type, syms) \<in> set (prods nt) \<Longrightarrow> list_all inner_sym syms \<or> nt = NT_program"
  by (cases nt) (auto simp: inner_nt_def prods_type_def prods_var_def_def prods_var_assign_def prods_print_def prods_return_def prods_expr_def
    prods_expr1_def prods_cond_def prods_numop_def prods_boolop_def prods_statement_def prods_sequence_def prods_branch_def
    prods_for_loop_head_def prods_loop_def prods_fcall_arglist_def prods_fcall_def prods_ret_fcall_def prods_argdef_def
    prods_argdeflist_def prods_func_def prods_program_def)

lemma prods_types: "(type, syms) \<in> set (prods nt) \<Longrightarrow> inner_nt nt \<Longrightarrow> type \<noteq> AST_FUNCTION \<and> type \<noteq> AST_FUNCTION_PROTO"
  by (cases nt) (auto simp: inner_nt_def prods_type_def prods_var_def_def prods_var_assign_def prods_print_def prods_return_def prods_expr_def
    prods_expr1_def prods_cond_def prods_numop_def prods_boolop_def prods_statement_def prods_sequence_def prods_branch_def
    prods_for_loop_head_def prods_loop_def prods_fcall_arglist_def prods_fcall_def prods_ret_fcall_def prods_argdef_def
    prods_argdeflist_def)

definition all_named :: "token list \<Rightarrow> bool" where
  "all_named ts \<longleftrightarrow> list_all named ts"

lemma all_named_simps [simp]:
  "all_named []" "all_named (t # ts) \<longleftrightarrow> named t \<and> all_named ts" "all_named (ts @ us) \<longleftrightarrow> all_named ts \<and> all_named us"
  by (auto simp: all_named_def)

text \<open>What a check function does inside a function definition.\<close>

definition shape_post :: "nonterm \<Rightarrow> pstate \<Rightarrow> node \<times> pstate \<Rightarrow> bool" where
  "shape_post nt s = (\<lambda>(n, s'). later (ps_ast s) (ps_ast s') \<and>
     (n \<noteq> NULL_NODE \<longrightarrow> (\<exists>w. ps_token s = w @ ps_token s' \<and> parsed nt w n (ps_ast s'))))"

locale shaped_checker = checker +
  assumes chk_shape: "inner_nt nt \<Longrightarrow> all_named (ps_token s) \<Longrightarrow> returns (shape_post nt s) (chk nt s)"
begin

lemma match_syms_shape:
  "list_all inner_sym syms \<Longrightarrow> all_named (ps_token s) \<Longrightarrow>
   returns (\<lambda>(r, s'). later (ps_ast s) (ps_ast s') \<and> (\<forall>cs. r = Some cs \<longrightarrow>
      (\<exists>w ns. cs = children @ ns \<and> ps_token s = w @ ps_token s' \<and> matched syms w ns (ps_ast s'))))
     (match_syms chk syms children s)"
proof (induction syms arbitrary: children s)
  case (Cons sym syms)
  show ?case
  proof (cases sym)
    case (Tm ty create)
    show ?thesis
    proof (cases "ps_token s")
      case toks: (Cons tok rest)
      have IH: "returns (\<lambda>(r, s'). later (ps_ast s) (ps_ast s') \<and> (\<forall>cs. r = Some cs \<longrightarrow>
          (\<exists>w ns. cs = ds @ ns \<and> rest = w @ ps_token s' \<and> matched syms w ns (ps_ast s'))))
          (match_syms chk syms ds (s\<lparr>ps_token := rest\<rparr>))" for ds
        using Cons.IH [of "s\<lparr>ps_token := rest\<rparr>" ds] Cons.prems toks by simp
      have tok: "named tok" using Cons.prems(2) toks by simp
      show ?thesis
      proof (cases "tok_type tok = ty")
        case True
        show ?thesis
        proof (cases create)
          case None
          show ?thesis
            using IH [of children] True tok unfolding Tm None toks match_syms.simps Let_def
            by (fastforce simp: returns_def)
        next
          case (Some f)
          have "returns (\<lambda>(r, s'). later (ps_ast s) (ps_ast s') \<and> (\<forall>cs. r = Some cs \<longrightarrow>
              (\<exists>w ns. cs = children @ ns \<and> ps_token s = w @ ps_token s' \<and> matched (Tm ty (Some f) # syms) w ns (ps_ast s'))))
              (match_syms chk syms (children @ [n]) (s\<lparr>ps_token := rest\<rparr>))" if "f tok = Ret n" for n
            using IH [of "children @ [n]"] that True tok by (fastforce simp: returns_def toks)
          then show ?thesis
            using True toks by (cases "f tok") (auto simp: Tm Some returns_def)
        qed
      qed (simp add: Tm toks returns_def)
    qed (simp add: Tm returns_def)
  next
    case (Nt nt)
    have nt: "inner_nt nt" using Cons.prems(1) Nt by simp
    show ?thesis
    proof (cases "ps_token s = []")
      case False
      have "returns (\<lambda>(r, s'). later (ps_ast s) (ps_ast s') \<and> (\<forall>cs. r = Some cs \<longrightarrow>
          (\<exists>w ns. cs = children @ ns \<and> ps_token s = w @ ps_token s' \<and> matched (Nt nt # syms) w ns (ps_ast s'))))
          (obind (chk nt s) (\<lambda>(n, s1). if n = NULL_NODE then Ret (None, s1) else match_syms chk syms (children @ [n]) s1))"
      proof (rule returns_bind [OF chk_shape [OF nt Cons.prems(2)]], clarify)
        fix n s1
        assume post: "shape_post nt s (n, s1)"
        show "returns (\<lambda>(r, s'). later (ps_ast s) (ps_ast s') \<and> (\<forall>cs. r = Some cs \<longrightarrow>
            (\<exists>w ns. cs = children @ ns \<and> ps_token s = w @ ps_token s' \<and> matched (Nt nt # syms) w ns (ps_ast s'))))
            (if n = NULL_NODE then Ret (None, s1) else match_syms chk syms (children @ [n]) s1)"
        proof (cases "n = NULL_NODE")
          case False
          then obtain u where u: "ps_token s = u @ ps_token s1" "parsed nt u n (ps_ast s1)" "later (ps_ast s) (ps_ast s1)"
            using post by (auto simp: shape_post_def)
          have "returns (\<lambda>(r, s'). later (ps_ast s1) (ps_ast s') \<and> (\<forall>cs. r = Some cs \<longrightarrow>
              (\<exists>w ns. cs = (children @ [n]) @ ns \<and> ps_token s1 = w @ ps_token s' \<and> matched syms w ns (ps_ast s'))))
              (match_syms chk syms (children @ [n]) s1)"
            using Cons.IH [of s1 "children @ [n]"] Cons.prems u(1) by simp
          then show ?thesis
            using False u later_trans [OF u(3)] parsed_later [OF _ u(2)] by (fastforce simp: returns_def)
        qed (use post in \<open>auto simp: shape_post_def\<close>)
      qed
      then show ?thesis using False by (simp add: Nt)
    qed (simp add: Nt returns_def)
  qed
qed (simp add: returns_def)

lemma match_prod_shape:
  assumes prod: "(type, syms) \<in> set (prods nt)" and nt: "inner_nt nt" and named: "all_named (ps_token s)"
  shows "returns (shape_post nt s) (match_prod chk type syms s)"
proof -
  have inner: "list_all inner_sym syms" using prods_inner [OF prod] nt by (auto simp: inner_nt_def)
  note types = prods_types [OF prod nt]
  have "shape_post nt s x" if run: "match_prod chk type syms s = Ret x" for x
  proof -
    obtain r s1 where m: "match_syms chk syms [] s = Ret (r, s1)"
      and x: "(case r of None \<Rightarrow> Ret (NULL_NODE, s1)
         | Some cs \<Rightarrow> obind (create_node type cs (ps_ast s1)) (\<lambda>(res, a). Ret (res, s1\<lparr>ps_ast := a\<rparr>))) = Ret x"
      using run unfolding match_prod_def obind_Ret_iff by (auto split: prod.splits)
    have later1: "later (ps_ast s) (ps_ast s1)"
      and cs: "\<And>cs. r = Some cs \<Longrightarrow> \<exists>w. ps_token s = w @ ps_token s1 \<and> matched syms w cs (ps_ast s1)"
      using returnsD [OF match_syms_shape [OF inner named, of "[]"] m] by auto
    show ?thesis
    proof (cases r)
      case None
      then show ?thesis using x later1 by (auto simp: shape_post_def)
    next
      case (Some cs)
      then obtain n a where n: "create_node type cs (ps_ast s1) = Ret (n, a)" "x = (n, s1\<lparr>ps_ast := a\<rparr>)"
        using x by (auto simp: obind_Ret_iff)
      obtain w where w: "ps_token s = w @ ps_token s1" "matched syms w cs (ps_ast s1)" using \<open>r = Some cs\<close> cs by blast
      have "later (ps_ast s) a" using later_trans [OF later1 create_node_later [OF n(1)]] types by blast
      then show ?thesis
        using w parsed_prod [OF prod nt w(2) n(1)] by (auto simp: shape_post_def n(2))
    qed
  qed
  then show ?thesis by (auto simp: returns_def split: outcome.splits)
qed

lemma try_matching_shape:
  assumes "set ps \<subseteq> set (prods nt)" "inner_nt nt" "all_named (ps_token s)" "ps_token s = ts"
  shows "returns (shape_post nt s) (try_matching chk ps ts s)"
  using assms
proof (induction ps arbitrary: s)
  case (Cons p ps)
  obtain type syms where p: "p = (type, syms)" by (cases p)
  have prod: "(type, syms) \<in> set (prods nt)" using Cons.prems(1) p by simp
  have again: "returns (shape_post nt s) (try_matching chk ps ts (s1\<lparr>ps_token := ts\<rparr>))" if "later (ps_ast s) (ps_ast s1)" for s1
  proof -
    have "returns (shape_post nt (s1\<lparr>ps_token := ts\<rparr>)) (try_matching chk ps ts (s1\<lparr>ps_token := ts\<rparr>))"
      using Cons.prems by (intro Cons.IH) auto
    then show ?thesis
      by (rule returns_mono) (use that Cons.prems(4) later_trans [OF that] in \<open>auto simp: shape_post_def\<close>)
  qed
  show ?case
    unfolding p try_matching.simps
    by (rule returns_bind [OF match_prod_shape [OF prod Cons.prems(2,3)]])
      (use again in \<open>auto simp: shape_post_def\<close>)
qed (simp add: shape_post_def)

lemma check_body_shape:
  assumes "inner_nt nt" "all_named (ps_token s)"
  shows "returns (shape_post nt s) (check_body chk nt s)"
proof -
  have empty: "parsed nt [] create_empty a" if "accepts_empty nt" for a
    using that assms(1) by (cases nt) (auto simp: inner_nt_def parsed.simps intro: exI [of _ "[]"] exI [of _ No_Args])
  have prods: "\<forall>(type, syms) \<in> set (prods nt). consumes syms" using prods_consume by auto
  have "returns (\<lambda>x. shape_post nt s x \<and> (fst x = NULL_NODE \<longrightarrow> ps_token (snd x) = ps_token s))
      (try_matching chk (prods nt) (ps_token s) s)"
    by (rule returns_mono [OF returns_conj [OF try_matching_shape [OF subset_refl assms refl] try_matching_tokens [OF prods refl]]]) auto
  then have "returns (shape_post nt s) (obind (try_matching chk (prods nt) (ps_token s) s) (\<lambda>(n, s1).
      if n \<noteq> NULL_NODE then Ret (n, s1) else if accepts_empty nt then Ret (create_empty, s1) else Ret (NULL_NODE, s1)))"
    by (rule returns_bind) (use empty in \<open>auto simp: shape_post_def split: if_splits\<close>)
  moreover have "nt \<noteq> NT_func" using assms(1) by (simp add: inner_nt_def)
  ultimately show ?thesis unfolding check_body_def Let_def by simp
qed

end

interpretation shaped_checks: shaped_checker "check n" for n
proof (unfold_locales, induction n)
  case (Suc n)
  then have "shaped_checker (check n)" by (intro shaped_checker.intro checks.checker_axioms shaped_checker_axioms.intro)
  then show ?case using Suc.prems by (simp add: shaped_checker.check_body_shape)
qed simp

end
