(* ===== verification/Resolve.thy ===== *)
theory Resolve
  imports Source_Text Program
begin

text \<open>
  Resolving names: on the tree of a function body, \<open>register_loc_vars\<close> gives every variable its
  entry, and every use of a name has one before it.
\<close>

lemma get_var_dom: "get_var x func = Some v \<Longrightarrow> x \<in> dom (var_pos func)"
  by (auto simp: var_pos_def)

declare expr_node.simps [simp] fac_node.simps [simp] args_node.simps [simp] cond_node.simps [simp]
  stat_node.simps [simp] item_node.simps [simp] items_node.simps [simp]

lemma resolve_op [simp]:
  "register_loc_vars func (op_node op) = Ret (True, func, op_node op)"
  "register_loc_vars func (boolop_node op) = Ret (True, func, boolop_node op)"
  by (simp_all add: op_node_def boolop_node_def)

abbreviation any_call :: "string \<Rightarrow> nat \<Rightarrow> bool" where
  "any_call \<equiv> \<lambda>g n. True"

lemma resolve_expr:
  "register_loc_vars func (raw_expr e) = Ret (True, func', n) \<Longrightarrow>
     func' = func \<and> n = expr_node (fi_name func) e \<and> wf_expr (dom (var_pos func)) any_call e"
  "register_loc_vars func (raw_fac x) = Ret (True, func', n) \<Longrightarrow>
     func' = func \<and> n = fac_node (fi_name func) x \<and> wf_fac (dom (var_pos func)) any_call x"
  "register_loc_vars func (raw_args es) = Ret (True, func', n) \<Longrightarrow>
     func' = func \<and> n = args_node (fi_name func) es \<and> wf_args (dom (var_pos func)) any_call es"
  by (induction e and x and es arbitrary: func' n and func' n and func' n)
    (fastforce simp: obind_Ret_iff create_empty_def split: option.splits if_splits dest: get_var_dom)+

lemma resolve_cond:
  "register_loc_vars func (raw_cond c) = Ret (True, func', n) \<Longrightarrow>
     func' = func \<and> n = cond_node (fi_name func) c \<and> wf_cond (dom (var_pos func)) any_call c"
  by (cases c) (fastforce simp: obind_Ret_iff split: if_splits dest: resolve_expr(1))

lemma add_var_keeps:
  "add_var x t (Some f) = Some f1 \<Longrightarrow> fi_ret_type f1 = fi_ret_type f \<and> fi_prototyped f1 = fi_prototyped f"
  by (auto simp: add_var_def split: if_splits)

lemma set_var_pos_prototyped [simp]: "fi_prototyped (set_var_pos x p f) = fi_prototyped f"
  by (simp add: set_var_pos_def)

definition resolved :: "func_info \<Rightarrow> func_info \<Rightarrow> bool" where
  "resolved f g \<longleftrightarrow> table_inv (fi_var_table g) \<and> fi_name g = fi_name f \<and> fi_arg_count g = fi_arg_count f \<and>
     fi_ret_type g = fi_ret_type f \<and> fi_prototyped g = fi_prototyped f \<and>
     fi_max_call_size g = fi_max_call_size f \<and> dom (var_pos f) \<subseteq> dom (var_pos g)"

lemma resolved_trans: "resolved f g \<Longrightarrow> resolved g h \<Longrightarrow> resolved f h"
  by (auto simp: resolved_def)

lemma resolved_refl: "table_inv (fi_var_table f) \<Longrightarrow> resolved f f"
  by (simp add: resolved_def)

lemma resolve_stat:
  assumes "table_inv (fi_var_table func)" "raw_stat s m" "register_loc_vars func m = Ret (True, func', n)"
  shows "resolved func func' \<and> n = stat_node (fi_name func) s \<and> wf_stat (dom (var_pos func')) any_call any_call s"
proof (cases s)
  case (Var_Def x eo)
  then obtain ty where m: "m = Node AST_VAR_DEF Val_None (type_node ty) (ident_node x) (raw_opt eo)"
    using assms(2) by auto
  obtain func1 r where add: "add_var x (tok_type_to_dtype ty) (Some func) = Some func1"
    and r: "register_loc_vars ((set_var_pos x (fi_max_call_size func1 + fi_var_count func1) func1)
        \<lparr>fi_var_count := fi_var_count (set_var_pos x (fi_max_call_size func1 + fi_var_count func1) func1) + 1\<rparr>)
        (raw_opt eo) = Ret (True, func', r)"
    and n: "n = node1 AST_VAR_DEF (Val_Var (fi_name func) x) r"
    using assms(3) unfolding m type_node_def by (auto simp: obind_Ret_iff Let_def split: option.splits)
  let ?f = "(set_var_pos x (fi_max_call_size func1 + fi_var_count func1) func1)
        \<lparr>fi_var_count := fi_var_count (set_var_pos x (fi_max_call_size func1 + fi_var_count func1) func1) + 1\<rparr>"
  have f: "resolved func ?f" "x \<in> dom (var_pos ?f)"
    using declare_var [OF assms(1) add] add_var_keeps [OF add] by (auto simp: resolved_def set_var_pos_inv)
  show ?thesis
  proof (cases eo)
    case None
    then show ?thesis using f r n Var_Def by (auto simp: raw_opt_def opt_node_def)
  next
    case (Some e)
    then show ?thesis
      using f r n Var_Def resolve_expr(1) [of ?f e func' r] by (auto simp: raw_opt_def opt_node_def resolved_def)
  qed
next
  case (Var_Assign x e)
  then show ?thesis
    using assms by (auto simp: obind_Ret_iff resolved_refl split: option.splits dest!: resolve_expr(1) get_var_dom)
next
  case (Call_Stat g es)
  then show ?thesis using assms by (auto simp: obind_Ret_iff resolved_refl split: if_splits dest!: resolve_expr(3))
next
  case (Print_Stat e)
  then show ?thesis using assms by (auto simp: obind_Ret_iff resolved_refl split: if_splits dest!: resolve_expr(1))
next
  case (Return_Stat eo)
  then show ?thesis using assms
    by (cases eo) (auto simp: raw_opt_def opt_node_def obind_Ret_iff resolved_refl split: if_splits dest!: resolve_expr(1))
qed

lemma wf_any_mono:
  assumes "resolved f g"
  shows "wf_stat (dom (var_pos f)) any_call any_call s \<Longrightarrow> wf_stat (dom (var_pos g)) any_call any_call s"
    and "wf_cond (dom (var_pos f)) any_call c \<Longrightarrow> wf_cond (dom (var_pos g)) any_call c"
    and "wf_item (dom (var_pos f)) any_call any_call i \<Longrightarrow> wf_item (dom (var_pos g)) any_call any_call i"
    and "wf_items (dom (var_pos f)) any_call any_call is \<Longrightarrow> wf_items (dom (var_pos g)) any_call any_call is"
  using assms unfolding resolved_def
  by (blast intro: wf_stat_mono wf_cond_mono wf_items_mono)+

text \<open>One node of the default case: its children from left to right.\<close>

lemma register_children:
  assumes "t \<notin> {AST_VAR_DEF, AST_VAR_ASSIGN, AST_IDENTIFIER}"
    and "register_loc_vars f (Node t v l m r) = Ret (True, f', n)"
  obtains f1 f2 l' m' r' where "register_loc_vars f l = Ret (True, f1, l')" "register_loc_vars f1 m = Ret (True, f2, m')"
    "register_loc_vars f2 r = Ret (True, f', r')" "n = Node t v l' m' r'"
  using assms by (auto simp: obind_Ret_iff split: if_splits)

lemma register_NULL: "register_loc_vars f NULL_NODE = Ret (True, f', n) \<Longrightarrow> f' = f \<and> n = NULL_NODE"
  by simp

lemma resolve_items:
  "table_inv (fi_var_table func) \<Longrightarrow> raw_item i m \<Longrightarrow> register_loc_vars func m = Ret (True, func', n) \<Longrightarrow>
     resolved func func' \<and> n = item_node (fi_name func) i \<and> wf_item (dom (var_pos func')) any_call any_call i"
  "table_inv (fi_var_table func) \<Longrightarrow> raw_items is m \<Longrightarrow> register_loc_vars func m = Ret (True, func', n) \<Longrightarrow>
     resolved func func' \<and> n = items_node (fi_name func) is \<and> wf_items (dom (var_pos func')) any_call any_call is"
proof (induction i and "is" arbitrary: func m func' n and func m func' n rule: items_induct)
  case (Stat s)
  then obtain k where k: "m = node1 AST_STATEMENT Val_None k" "raw_stat s k" by auto
  obtain f1 f2 l' m' r' where c: "register_loc_vars func k = Ret (True, f1, l')" "f2 = f1 \<and> m' = NULL_NODE" "func' = f2 \<and> r' = NULL_NODE"
      "n = Node AST_STATEMENT Val_None l' m' r'"
    by (rule register_children [OF _ Stat(3) [unfolded k(1)]]) (auto intro: that)
  then show ?case using resolve_stat [OF Stat(1) k(2) c(1)] by simp
next
  case (If c "is")
  then obtain k where k: "m = Node AST_BRANCH Val_None (raw_cond c) k NULL_NODE" "raw_items is k" by auto
  obtain l' m' where s: "register_loc_vars func (raw_cond c) = Ret (True, func, l')" "register_loc_vars func k = Ret (True, func', m')"
      "n = Node AST_BRANCH Val_None l' m' NULL_NODE"
    by (rule register_children [OF _ If(4) [unfolded k(1)]]) (auto intro: that dest: resolve_cond)
  then show ?case
    using If.IH [OF If(2) k(2) s(2)] resolve_cond [OF s(1)] wf_any_mono(2) by auto
next
  case (If_Else c "is" js)
  then obtain k r where k: "m = Node AST_BRANCH Val_None (raw_cond c) k r" "raw_items is k" "raw_items js r" by auto
  obtain f2 l' m' r' where s: "register_loc_vars func (raw_cond c) = Ret (True, func, l')" "register_loc_vars func k = Ret (True, f2, m')"
      "register_loc_vars f2 r = Ret (True, func', r')" "n = Node AST_BRANCH Val_None l' m' r'"
    by (rule register_children [OF _ If_Else(5) [unfolded k(1)]]) (auto intro: that dest: resolve_cond)
  note i1 = If_Else.IH(1) [OF If_Else(3) k(2) s(2)]
  then have "table_inv (fi_var_table f2)" by (simp add: resolved_def)
  note i2 = If_Else.IH(2) [OF this k(3) s(3)]
  have "resolved func func'" using i1 i2 resolved_trans by blast
  then show ?case
    using i1 i2 resolve_cond [OF s(1)] wf_any_mono(2) [OF \<open>resolved func func'\<close>] wf_any_mono(4) [of f2 func'] s(4)
    by (auto simp: resolved_def)
next
  case (While c "is")
  then obtain k where k: "m = Node AST_LOOP Val_None (raw_cond c) k NULL_NODE" "raw_items is k" by auto
  obtain l' m' where s: "register_loc_vars func (raw_cond c) = Ret (True, func, l')" "register_loc_vars func k = Ret (True, func', m')"
      "n = Node AST_LOOP Val_None l' m' NULL_NODE"
    by (rule register_children [OF _ While(4) [unfolded k(1)]]) (auto intro: that dest: resolve_cond)
  then show ?case
    using While.IH [OF While(2) k(2) s(2)] resolve_cond [OF s(1)] wf_any_mono(2) by auto
next
  case (For s c t "is")
  then obtain a b k where k: "m = Node AST_LOOP Val_None (Node AST_FOR_LOOP_HEAD Val_None a (raw_cond c) b) k NULL_NODE"
      "raw_stat s a" "raw_stat t b" "raw_items is k" by auto
  obtain f1 l' m' where h: "register_loc_vars func (Node AST_FOR_LOOP_HEAD Val_None a (raw_cond c) b) = Ret (True, f1, l')"
      "register_loc_vars f1 k = Ret (True, func', m')" "n = Node AST_LOOP Val_None l' m' NULL_NODE"
    by (rule register_children [OF _ For(4) [unfolded k(1)]]) (auto intro: that)
  obtain g a' c' b' where p: "register_loc_vars func a = Ret (True, g, a')" "register_loc_vars g (raw_cond c) = Ret (True, g, c')"
      "register_loc_vars g b = Ret (True, f1, b')" "l' = Node AST_FOR_LOOP_HEAD Val_None a' c' b'"
    by (rule register_children [OF _ h(1)]) (auto intro: that dest: resolve_cond)
  note i1 = resolve_stat [OF For(2) k(2) p(1)]
  then have "table_inv (fi_var_table g)" by (simp add: resolved_def)
  note i2 = resolve_stat [OF this k(3) p(3)]
  then have "table_inv (fi_var_table f1)" by (simp add: resolved_def)
  note i3 = For.IH [OF this k(4) h(2)]
  have r: "resolved g func'" "resolved func func'" using i1 i2 i3 resolved_trans by blast+
  have names: "fi_name g = fi_name func" "fi_name f1 = fi_name func" using i1 i2 by (simp_all add: resolved_def)
  show ?case
    using i1 i2 i3 r resolve_cond [OF p(2)] wf_any_mono(1,2) [OF r(1)] wf_any_mono(1) [of f1 func'] names h(3) p(4) by auto
next
  case (Do c "is")
  then obtain k where k: "m = Node AST_LOOP Val_None k (raw_cond c) NULL_NODE" "raw_items is k" by auto
  obtain l' m' where s: "register_loc_vars func k = Ret (True, func', l')" "register_loc_vars func' (raw_cond c) = Ret (True, func', m')"
      "n = Node AST_LOOP Val_None l' m' NULL_NODE"
    by (rule register_children [OF _ Do(4) [unfolded k(1)]]) (auto intro: that dest: resolve_cond)
  then show ?case
    using Do.IH [OF Do(2) k(2) s(1)] resolve_cond [OF s(2)] by (auto simp: resolved_def)
next
  case Nil
  then show ?case by (auto simp: create_empty_def resolved_refl)
next
  case (Cons i "is")
  then obtain a b where k: "m = Node AST_SEQUENCE Val_None a b NULL_NODE" "raw_item i a" "raw_items is b" by auto
  obtain f1 l' m' where s: "register_loc_vars func a = Ret (True, f1, l')" "register_loc_vars f1 b = Ret (True, func', m')"
      "n = Node AST_SEQUENCE Val_None l' m' NULL_NODE"
    by (rule register_children [OF _ Cons(5) [unfolded k(1)]]) (auto intro: that)
  note i1 = Cons.IH(1) [OF Cons(3) k(2) s(1)]
  then have "table_inv (fi_var_table f1)" by (simp add: resolved_def)
  note i2 = Cons.IH(2) [OF this k(3) s(2)]
  have "resolved func func'" using i1 i2 resolved_trans by blast
  then show ?case
    using i1 i2 wf_any_mono(3) [of f1 func'] s(3) by (auto simp: resolved_def)
qed

text \<open>Variables and calls can be checked one after the other.\<close>

lemma wf_expr_inter:
  "wf_expr V cf e \<and> wf_expr V' cf' e \<Longrightarrow> wf_expr (V \<inter> V') (\<lambda>g n. cf g n \<and> cf' g n) e"
  "wf_fac V cf x \<and> wf_fac V' cf' x \<Longrightarrow> wf_fac (V \<inter> V') (\<lambda>g n. cf g n \<and> cf' g n) x"
  "wf_args V cf es \<and> wf_args V' cf' es \<Longrightarrow> wf_args (V \<inter> V') (\<lambda>g n. cf g n \<and> cf' g n) es"
  by (induction e and x and es) auto

lemma wf_stat_inter:
  "wf_stat V cf cs s \<Longrightarrow> wf_stat V' cf' cs' s \<Longrightarrow> wf_stat (V \<inter> V') (\<lambda>g n. cf g n \<and> cf' g n) (\<lambda>g n. cs g n \<and> cs' g n) s"
  by (cases "(V, cf, cs, s)" rule: wf_stat.cases) (auto intro: wf_expr_inter)

lemma wf_cond_inter: "wf_cond V cf c \<Longrightarrow> wf_cond V' cf' c \<Longrightarrow> wf_cond (V \<inter> V') (\<lambda>g n. cf g n \<and> cf' g n) c"
  by (cases c) (auto intro: wf_expr_inter)

lemma wf_items_inter:
  "wf_item V cf cs i \<Longrightarrow> wf_item V' cf' cs' i \<Longrightarrow> wf_item (V \<inter> V') (\<lambda>g n. cf g n \<and> cf' g n) (\<lambda>g n. cs g n \<and> cs' g n) i"
  "wf_items V cf cs is \<Longrightarrow> wf_items V' cf' cs' is \<Longrightarrow> wf_items (V \<inter> V') (\<lambda>g n. cf g n \<and> cf' g n) (\<lambda>g n. cs g n \<and> cs' g n) is"
  by (induction i and "is" rule: items_induct) (auto intro: wf_stat_inter wf_cond_inter)

declare expr_node.simps [simp del] fac_node.simps [simp del] args_node.simps [simp del] cond_node.simps [simp del]
  stat_node.simps [simp del] item_node.simps [simp del] items_node.simps [simp del]

section \<open>A registered function\<close>

lemma arg_names_raw: "raw_params ps n \<Longrightarrow> arg_names n = ps"
  by (induction ps arbitrary: n) auto

lemma register_args_keeps:
  "register_args f n = Ret (ok, f') \<Longrightarrow> fi_ret_type f' = fi_ret_type f \<and> fi_prototyped f' = fi_prototyped f"
proof (induction f n arbitrary: ok f' rule: register_args.induct)
  case (2 func t v l m r)
  show ?case
  proof (cases "t = AST_ARGDEF")
    case True
    then show ?thesis
      using "2.prems" by (auto simp: obind_Ret_iff Let_def add_var_keeps split: option.splits)
  next
    case False
    obtain ok1 f1 where f1: "register_args func l = Ret (ok1, f1)" and m: "(if \<not> ok1 then Ret (False, f1) else register_args f1 m) = Ret (ok, f')"
      using "2.prems" False by (auto simp: obind_Ret_iff)
    show ?thesis
      using "2.IH"(1) [OF False f1] "2.IH"(2) [OF False f1 refl] m by (auto split: if_splits)
  qed
qed simp

lemma calculate_arg_addresses_keeps:
  "calculate_arg_addresses f n = Ret f' \<Longrightarrow> table_inv (fi_var_table f) \<Longrightarrow> resolved f f' \<and> dom (var_pos f') = dom (var_pos f)"
proof (induction f n arbitrary: f' rule: calculate_arg_addresses.induct)
  case (2 func t v l m r)
  show ?case
  proof (cases "t = AST_ARGDEF")
    case True
    then obtain name var where "get_var name func = Some var"
        "f' = set_var_pos name (vi_pos var + fi_var_count func + fi_max_call_size func) func"
      using "2.prems"(1) by (auto simp: obind_Ret_iff split: option.splits)
    then show ?thesis
      using "2.prems"(2) by (auto simp: resolved_def set_var_pos_inv var_pos_def get_var_set_pos split: if_splits)
  next
    case False
    then obtain f1 where f1: "calculate_arg_addresses func l = Ret f1" "calculate_arg_addresses f1 m = Ret f'"
      using "2.prems"(1) by (auto simp: obind_Ret_iff)
    note i1 = "2.IH"(1) [OF False f1(1) "2.prems"(2)]
    then have "table_inv (fi_var_table f1)" by (simp add: resolved_def)
    from "2.IH"(2) [OF False f1 this] i1 show ?thesis using resolved_trans by auto
  qed
qed (simp add: resolved_refl)

text \<open>What a definition of \<open>f\<close> leaves in the table, given what was there.\<close>

definition defined_by :: "symbols \<Rightarrow> dtype \<Rightarrow> string \<Rightarrow> string list \<Rightarrow> item list \<Rightarrow> nat \<Rightarrow> symbols \<Rightarrow> bool" where
  "defined_by s ty f ps is calls s' \<longleftrightarrow>
     (\<exists>h. get_func f s' = Some h \<and> \<not> fi_prototyped h \<and> wf_items (dom (var_pos h)) any_call any_call is \<and>
        fi_max_call_size h = calls \<and>
        (case get_func f s of
           None \<Rightarrow> fi_ret_type h = ty \<and> frame_laid_out h ps
         | Some h0 \<Rightarrow> fi_prototyped h0 \<and> fi_ret_type h = fi_ret_type h0 \<and> (args_entered h0 ps \<longrightarrow> frame_laid_out h ps))) \<and>
     (\<forall>g. g \<noteq> f \<longrightarrow> get_func g s' = get_func g s) \<and> symbols_ok s'"

lemma enter_function_defined:
  assumes ok: "symbols_ok (as_symbols s)" and r: "enter_function name t arglist s = Ret (Inr (f, s1))"
  shows "table_inv (fi_var_table f) \<and> fi_name f = name \<and> \<not> fi_prototyped f \<and> symbols_ok (as_symbols s1) \<and>
    get_func name (as_symbols s1) \<noteq> None \<and> (\<forall>n. n \<noteq> name \<longrightarrow> get_func n (as_symbols s1) = get_func n (as_symbols s)) \<and>
    as_max_arg_count s1 = as_max_arg_count s \<and>
    (case get_func name (as_symbols s) of None \<Rightarrow> fi_ret_type f = t | Some f0 \<Rightarrow> fi_prototyped f0 \<and> fi_ret_type f = fi_ret_type f0)"
proof (cases "get_func name (as_symbols s)")
  case None
  then obtain s2 where args: "register_args (new_func_info name t) arglist = Ret (True, f)"
    using r add_func_cases [OF ok, of name t] by (auto simp: enter_function_def obind_Ret_iff Let_def split: if_splits)
  have "args_entered f (arg_names arglist)" using enter_function_cases [OF ok _ r] None by simp
  then show ?thesis
    using enter_function_cases [OF ok _ r] None register_args_keeps [OF args] by (simp add: args_entered_def new_func_info_def)
next
  case (Some f0)
  then show ?thesis
    using r ok get_func_name [OF Some] by (auto simp: enter_function_def symbols_ok_def split: if_splits)
qed

lemma register_function_defined:
  assumes ok: "symbols_ok (as_symbols s)" and raw: "raw_params ps arglist" "raw_items is body"
    and r: "register_function [type_node ty, ident_node f, arglist, body] s = Ret (n, s')" and "n \<noteq> NULL_NODE"
  shows "n = decl_node (Func_Decl t f ps is) \<and>
    defined_by (as_symbols s) (tok_type_to_dtype ty) f ps is (as_max_arg_count s) (as_symbols s')"
proof -
  let ?t = "tok_type_to_dtype ty"
  obtain entered where e: "enter_function f ?t arglist s = Ret entered"
    and rest: "(case entered of Inl s1 \<Rightarrow> Ret (NULL_NODE, s1)
       | Inr (func, s1) \<Rightarrow>
           obind (register_loc_vars (func\<lparr>fi_max_call_size := as_max_arg_count s1\<rparr>) body)
             (\<lambda>(ok, func1, body').
               if \<not> ok then Ret (NULL_NODE, store_func func1 s1)
               else obind (calculate_arg_addresses func1 arglist) (\<lambda>func2.
                 if \<not> check_return_validity func2 body' then Ret (NULL_NODE, store_func func2 s1)
                 else Ret (Node AST_FUNCTION (Val_Func f) body' NULL_NODE NULL_NODE,
                           store_func func2 s1)))) = Ret (n, s')"
    using r by (simp add: register_function_def child_def obind_Ret_iff type_node_def) blast
  then obtain func s1 where "entered = Inr (func, s1)"
    using \<open>n \<noteq> NULL_NODE\<close> by (cases entered) auto
  with e rest obtain f1 body' f2 where p: "enter_function f ?t arglist s = Ret (Inr (func, s1))"
      "register_loc_vars (func\<lparr>fi_max_call_size := as_max_arg_count s1\<rparr>) body = Ret (True, f1, body')"
      "calculate_arg_addresses f1 arglist = Ret f2" "s' = store_func f2 s1" "n = node1 AST_FUNCTION (Val_Func f) body'"
    using \<open>n \<noteq> NULL_NODE\<close> by (auto simp: obind_Ret_iff split: if_splits)
  note e = enter_function_defined [OF ok p(1)]
  let ?f = "func\<lparr>fi_max_call_size := as_max_arg_count s1\<rparr>"
  have "table_inv (fi_var_table ?f)" using e by simp
  note items = resolve_items(2) [OF this raw(2) p(2)]
  then have "table_inv (fi_var_table f1)" by (simp add: resolved_def)
  note addr = calculate_arg_addresses_keeps [OF p(3) this]
  have f2: "resolved ?f f2" "dom (var_pos f2) = dom (var_pos f1)" using items addr resolved_trans by blast+
  then have f2': "fi_name f2 = f" "table_inv (fi_var_table f2)" "\<not> fi_prototyped f2" "fi_ret_type f2 = fi_ret_type func"
    using e by (simp_all add: resolved_def)
  have sym: "symbols_ok (as_symbols s')" "get_func g (as_symbols s') = (if g = f then Some f2 else get_func g (as_symbols s))" for g
    using store_func_cases [of s1 f2] e f2' unfolding p(4) by auto
  have frame: "frame_laid_out f2 ps" if "\<And>h0. get_func f (as_symbols s) = Some h0 \<Longrightarrow> fi_prototyped h0 \<Longrightarrow> args_entered h0 ps"
    using register_function_frame [OF ok _ _ r \<open>n \<noteq> NULL_NODE\<close>, of f] that sym(2) [of f] by (auto simp: arg_names_raw [OF raw(1)])
  have calls: "fi_max_call_size f2 = as_max_arg_count s" using f2(1) e by (simp add: resolved_def)
  have "n = decl_node (Func_Decl t f ps is)" using items p(5) e by simp
  moreover have "wf_items (dom (var_pos f2)) any_call any_call is" using items f2(2) by simp
  ultimately show ?thesis
    unfolding defined_by_def using sym f2' calls e frame by (auto split: option.splits)
qed

end
