(* ===== verification/Parser_Program.thy ===== *)
theory Parser_Program
  imports Parser_Shape Resolve
begin

text \<open>
  Functions, prototypes and whole programs: a successful parse has read the text of a program,
  returns its tree with resolved names, and has filled the symbol table one declaration after the
  other.
\<close>

section \<open>The text of declarations\<close>

fun decl_text :: "decl \<Rightarrow> token list \<Rightarrow> bool" where
  "decl_text (Proto_Decl ty f ps) w =
     (\<exists>t1 t2 t3 u v. w = t1 # t2 # t3 # u @ v \<and> is_type (tok_type t1) \<and> ty = tok_type_to_dtype (tok_type t1) \<and>
        ident_token f t2 \<and> tok_type t3 = TOK_OPENPA \<and> params_text ps u \<and> toks [TOK_CLOSEPA, TOK_SEMICL] v)"
| "decl_text (Func_Decl ty f ps is) w =
     (\<exists>t1 t2 t3 u v x y. w = t1 # t2 # t3 # u @ v @ x @ y \<and> is_type (tok_type t1) \<and> ty = tok_type_to_dtype (tok_type t1) \<and>
        ident_token f t2 \<and> tok_type t3 = TOK_OPENPA \<and> params_text ps u \<and> toks [TOK_CLOSEPA, TOK_OPENBR] v \<and>
        items_text is x \<and> toks [TOK_CLOSEBR] y)"

fun decls_text :: "decl list \<Rightarrow> token list \<Rightarrow> bool" where
  "decls_text [] w = (w = [])"
| "decls_text (d # ds) w = (\<exists>u v. w = u @ v \<and> decl_text d u \<and> decls_text ds v)"

definition program_text :: "decl list \<Rightarrow> token list \<Rightarrow> bool" where
  "program_text ds ts \<longleftrightarrow> (\<exists>w t rest. ts = w @ t # rest \<and> tok_type t = TOK_EOF \<and> decls_text ds w)"

section \<open>What declarations do to the table\<close>

definition declared_by :: "symbols \<Rightarrow> dtype \<Rightarrow> string \<Rightarrow> string list \<Rightarrow> symbols \<Rightarrow> bool" where
  "declared_by s ty f ps s' \<longleftrightarrow>
     get_func f s = None \<and>
     (\<exists>h. get_func f s' = Some h \<and> fi_prototyped h \<and> fi_ret_type h = ty \<and> args_entered h ps) \<and>
     (\<forall>g. g \<noteq> f \<longrightarrow> get_func g s' = get_func g s) \<and> symbols_ok s'"

fun decl_step :: "symbols \<Rightarrow> decl \<Rightarrow> symbols \<Rightarrow> bool" where
  "decl_step s (Proto_Decl ty f ps) s' = declared_by s ty f ps s'"
| "decl_step s (Func_Decl ty f ps is) s' =
     (\<exists>b. as_symbols b = s \<and> sound_items b is \<and> defined_by s ty f ps is (as_max_arg_count b) s')"

fun decl_steps :: "symbols \<Rightarrow> decl list \<Rightarrow> symbols \<Rightarrow> bool" where
  "decl_steps s [] s' = (s' = s)"
| "decl_steps s (d # ds) s' = (\<exists>s1. decl_step s d s1 \<and> decl_steps s1 ds s')"

lemma decl_step_ok: "decl_step s d s' \<Longrightarrow> symbols_ok s'"
  by (cases d) (auto simp: declared_by_def defined_by_def)

lemma register_prototype_declared:
  assumes ok: "symbols_ok (as_symbols s)" and raw: "raw_params ps arglist"
    and r: "register_function_prototype [type_node ty, ident_node f, arglist] s = Ret (n, s')" and "n \<noteq> NULL_NODE"
  shows "n = leaf AST_INNER Val_None \<and> declared_by (as_symbols s) (tok_type_to_dtype ty) f ps (as_symbols s')"
proof -
  let ?t = "tok_type_to_dtype ty"
  obtain syms where add: "add_func f ?t (as_symbols s) = (if get_func f (as_symbols s) = None
        then Some (new_func_info f ?t) else None, syms)" "symbols_ok syms"
      "\<And>n. get_func n syms = (if get_func f (as_symbols s) = None \<and> n = f
        then Some (new_func_info f ?t) else get_func n (as_symbols s))"
    using add_func_cases [OF ok, of f ?t] by blast
  have new: "get_func f (as_symbols s) = None"
    using r add(1) \<open>n \<noteq> NULL_NODE\<close>
    by (auto simp: register_function_prototype_def child_def type_node_def split: if_splits)
  obtain h where h: "register_args ((new_func_info f ?t)\<lparr>fi_prototyped := True\<rparr>) arglist = Ret (True, h)"
    "s' = store_func h (s\<lparr>as_symbols := syms\<rparr>)" "n = leaf AST_INNER Val_None"
    using r add(1) new \<open>n \<noteq> NULL_NODE\<close>
    by (auto simp: register_function_prototype_def child_def type_node_def obind_Ret_iff Let_def split: if_splits)
  have "args_entered ((new_func_info f ?t)\<lparr>fi_prototyped := True\<rparr>) []"
    using args_entered_new [of f ?t] by (simp add: args_entered_def)
  from register_args_entered [OF this h(1)] register_args_keeps [OF h(1)]
  have "args_entered h ps" "fi_name h = f" "fi_prototyped h" "fi_ret_type h = ?t"
    by (simp_all add: new_func_info_def arg_names_raw [OF raw])
  moreover from this have "table_inv (fi_var_table h)" by (simp add: args_entered_def)
  ultimately show ?thesis
    using store_func_cases [of "s\<lparr>as_symbols := syms\<rparr>" h] add new h(3) unfolding h(2) declared_by_def by simp
qed

section \<open>Functions and prototypes\<close>

lemma params_no_close: "params_text ps w \<Longrightarrow> t \<in> set w \<Longrightarrow> tok_type t \<noteq> TOK_CLOSEPA"
  by (induction ps arbitrary: w) (fastforce simp: is_type_def ident_token_def)+

lemma same_prefix:
  assumes "u @ t # v = u' @ t' # v'" "tok_type t = ty" "tok_type t' = ty" "\<forall>x \<in> set u. tok_type x \<noteq> ty" "\<forall>x \<in> set u'. tok_type x \<noteq> ty"
  shows "u = u'"
proof -
  have "takeWhile (\<lambda>x. tok_type x \<noteq> ty) (u @ t # v) = u" "takeWhile (\<lambda>x. tok_type x \<noteq> ty) (u' @ t' # v') = u'"
    using assms(2-5) by (simp_all add: takeWhile_append)
  then show ?thesis using assms(1) by simp
qed

definition func_syms :: "sym list" where
  "func_syms = [Nt NT_type, Tm TOK_IDENTIFIER (Some create_identifier), Tm TOK_OPENPA None, Nt NT_argdeflist,
     Tm TOK_CLOSEPA None, Tm TOK_OPENBR None, Nt NT_sequence, Tm TOK_CLOSEBR None]"

definition proto_syms :: "sym list" where
  "proto_syms = [Nt NT_type, Tm TOK_IDENTIFIER (Some create_identifier), Tm TOK_OPENPA None, Nt NT_argdeflist,
     Tm TOK_CLOSEPA None, Tm TOK_SEMICL None]"

lemma matched_func:
  assumes "matched func_syms w cs a"
  obtains t1 t2 t3 u t4 t5 x t6 f ps "is" n m where "w = t1 # t2 # t3 # u @ [t4, t5] @ x @ [t6]" "is_type (tok_type t1)" "ident_token f t2"
    "tok_type t3 = TOK_OPENPA" "params_text ps u" "toks [TOK_CLOSEPA, TOK_OPENBR] [t4, t5]" "items_text is x" "toks [TOK_CLOSEBR] [t6]"
    "cs = [type_node (tok_type t1), ident_node f, n, m]" "raw_params ps n" "raw_items is m" "sound_items a is"
proof -
  obtain v l t2 i t3 u k t4 t5 x m t6 where s: "w = v @ t2 # t3 # u @ [t4, t5] @ x @ [t6]" "parsed NT_type v l a" "named t2"
      "tok_type t2 = TOK_IDENTIFIER" "create_identifier t2 = Ret i" "tok_type t3 = TOK_OPENPA" "parsed NT_argdeflist u k a"
      "tok_type t4 = TOK_CLOSEPA" "tok_type t5 = TOK_OPENBR" "parsed NT_sequence x m a" "tok_type t6 = TOK_CLOSEBR" "cs = [l, i, k, m]"
    using assms unfolding func_syms_def by auto
  obtain t1 f where "v = [t1]" "is_type (tok_type t1)" "l = type_node (tok_type t1)" "ident_token f t2" "i = ident_node f"
    using parsedD(5) [OF s(2)] create_ident_Ret [OF s(3-5)] by blast
  moreover obtain ps where "params_text ps u" "raw_params ps k" using s(7) by (auto simp: parsed.simps)
  moreover obtain "is" where "items_text is x" "raw_items is m" "sound_items a is" using parsedD(9) [OF s(10)] by blast
  ultimately show thesis using s by (intro that [of t1 t2 t3 u t4 t5 x t6 f ps "is" k m]) auto
qed

lemma matched_proto:
  assumes "matched proto_syms w cs a"
  obtains t1 t2 t3 u t4 t5 f ps n where "w = t1 # t2 # t3 # u @ [t4, t5]" "is_type (tok_type t1)" "ident_token f t2"
    "tok_type t3 = TOK_OPENPA" "params_text ps u" "toks [TOK_CLOSEPA, TOK_SEMICL] [t4, t5]"
    "cs = [type_node (tok_type t1), ident_node f, n]" "raw_params ps n"
proof -
  obtain v l t2 i t3 u k t4 t5 where s: "w = v @ t2 # t3 # u @ [t4, t5]" "parsed NT_type v l a" "named t2"
      "tok_type t2 = TOK_IDENTIFIER" "create_identifier t2 = Ret i" "tok_type t3 = TOK_OPENPA" "parsed NT_argdeflist u k a"
      "tok_type t4 = TOK_CLOSEPA" "tok_type t5 = TOK_SEMICL" "cs = [l, i, k]"
    using assms unfolding proto_syms_def by auto
  obtain t1 f where "v = [t1]" "is_type (tok_type t1)" "l = type_node (tok_type t1)" "ident_token f t2" "i = ident_node f"
    using parsedD(5) [OF s(2)] create_ident_Ret [OF s(3-5)] by blast
  moreover obtain ps where "params_text ps u" "raw_params ps k" using s(7) by (auto simp: parsed.simps)
  ultimately show thesis using s by (intro that [of t1 t2 t3 u t4 t5 f ps k]) auto
qed

text \<open>No text is both the beginning of a definition and of a prototype.\<close>

lemma func_not_proto:
  assumes "matched func_syms w cs a" "matched proto_syms w' cs' a'" "w @ r = w' @ r'"
  shows False
proof -
  obtain t1 t2 t3 u t4 t5 x t6 f ps "is" n m where w: "w = t1 # t2 # t3 # u @ [t4, t5] @ x @ [t6]" "params_text ps u"
      "toks [TOK_CLOSEPA, TOK_OPENBR] [t4, t5]"
    using assms(1) by (rule matched_func)
  obtain s1 s2 s3 v s4 s5 g qs k where w': "w' = s1 # s2 # s3 # v @ [s4, s5]" "params_text qs v"
      "toks [TOK_CLOSEPA, TOK_SEMICL] [s4, s5]"
    using assms(2) by (rule matched_proto)
  have eq: "u @ t4 # t5 # x @ t6 # r = v @ s4 # s5 # r'" using assms(3) w(1) w'(1) by simp
  moreover have "u = v"
    using same_prefix [OF eq, of TOK_CLOSEPA] w(2,3) w'(2,3) params_no_close by auto
  ultimately show False using w(3) w'(3) by simp
qed

text \<open>What a production of \<open>check_func\<close> does to the table when it fails after it matched is not described.\<close>

definition starts :: "sym list \<Rightarrow> token list \<Rightarrow> bool" where
  "starts syms ts \<longleftrightarrow> (\<exists>w cs a r. matched syms w cs a \<and> ts = w @ r)"

definition decl_post :: "sym list \<Rightarrow> pstate \<Rightarrow> node \<times> pstate \<Rightarrow> bool" where
  "decl_post syms s = (\<lambda>(n, s'). if n = NULL_NODE
     then as_symbols (ps_ast s') = as_symbols (ps_ast s) \<or> starts syms (ps_token s)
     else \<exists>d w. ps_token s = w @ ps_token s' \<and> decl_text d w \<and> n = decl_node d \<and>
       decl_step (as_symbols (ps_ast s)) d (as_symbols (ps_ast s')) \<and> starts syms (ps_token s))"

lemma match_prod_decl:
  assumes "list_all inner_sym syms" "all_named (ps_token s)"
    and node: "\<And>w cs a n a' r. matched syms w cs a \<Longrightarrow> ps_token s = w @ r \<Longrightarrow> as_symbols a = as_symbols (ps_ast s) \<Longrightarrow>
      create_node type cs a = Ret (n, a') \<Longrightarrow> n \<noteq> NULL_NODE \<Longrightarrow>
      \<exists>d. decl_text d w \<and> n = decl_node d \<and> decl_step (as_symbols (ps_ast s)) d (as_symbols a')"
  shows "returns (decl_post syms s) (match_prod (check k) type syms s)"
proof -
  have "returns (\<lambda>(r, s'). later (ps_ast s) (ps_ast s') \<and> (\<forall>cs. r = Some cs \<longrightarrow>
      (\<exists>w. ps_token s = w @ ps_token s' \<and> matched syms w cs (ps_ast s')))) (match_syms (check k) syms [] s)"
    using shaped_checks.match_syms_shape [OF assms(1,2), of "[]" k] by simp
  then show ?thesis
    unfolding match_prod_def
  proof (rule returns_bind, clarify)
    fix r :: "node list option" and s1 :: pstate
    assume s1: "later (ps_ast s) (ps_ast s1)" "\<forall>cs. r = Some cs \<longrightarrow> (\<exists>w. ps_token s = w @ ps_token s1 \<and> matched syms w cs (ps_ast s1))"
    then have same: "as_symbols (ps_ast s1) = as_symbols (ps_ast s)" by (simp add: later_def)
    show "returns (decl_post syms s) (case r of None \<Rightarrow> Ret (NULL_NODE, s1)
        | Some cs \<Rightarrow> obind (create_node type cs (ps_ast s1)) (\<lambda>(res, a). Ret (res, s1\<lparr>ps_ast := a\<rparr>)))"
    proof (cases r)
      case None
      then show ?thesis using same by (simp add: decl_post_def)
    next
      case (Some cs)
      then obtain w where w: "ps_token s = w @ ps_token s1" "matched syms w cs (ps_ast s1)" using s1(2) by blast
      have "decl_post syms s (n, s1\<lparr>ps_ast := a\<rparr>)" if "create_node type cs (ps_ast s1) = Ret (n, a)" for n a
        using node [OF w(2,1) same that] w by (auto simp: decl_post_def starts_def)
      then show ?thesis using Some by (cases "create_node type cs (ps_ast s1)") (auto simp: returns_def)
    qed
  qed
qed

lemma match_prod_func:
  assumes "all_named (ps_token s)" "symbols_ok (as_symbols (ps_ast s))"
  shows "returns (decl_post func_syms s) (match_prod (check k) AST_FUNCTION func_syms s)"
proof (rule match_prod_decl [OF _ assms(1)])
  show "list_all inner_sym func_syms" by (simp add: func_syms_def inner_nt_def)
  fix w cs a n a' r
  assume m: "matched func_syms w cs a" and a: "as_symbols a = as_symbols (ps_ast s)"
    and n: "create_node AST_FUNCTION cs a = Ret (n, a')" "n \<noteq> NULL_NODE"
  from m obtain t1 t2 t3 u t4 t5 x t6 f ps "is" l m where w: "w = t1 # t2 # t3 # u @ [t4, t5] @ x @ [t6]"
      "is_type (tok_type t1)" "ident_token f t2" "tok_type t3 = TOK_OPENPA" "params_text ps u" "toks [TOK_CLOSEPA, TOK_OPENBR] [t4, t5]"
      "items_text is x" "toks [TOK_CLOSEBR] [t6]"
    and cs: "cs = [type_node (tok_type t1), ident_node f, l, m]" "raw_params ps l" "raw_items is m" "sound_items a is"
    by (rule matched_func)
  let ?d = "Func_Decl (tok_type_to_dtype (tok_type t1)) f ps is"
  have "register_function [type_node (tok_type t1), ident_node f, l, m] a = Ret (n, a')"
    using n(1) unfolding cs(1) by (simp add: create_node_def)
  from register_function_defined [OF _ cs(2,3) this n(2)] a assms(2)
  have "n = decl_node ?d" "defined_by (as_symbols a) (tok_type_to_dtype (tok_type t1)) f ps is (as_max_arg_count a) (as_symbols a')"
    by auto
  moreover have "decl_text ?d w"
    unfolding decl_text.simps w(1) by (intro exI conjI, rule refl) (use w(2-) in auto)
  ultimately show "\<exists>d. decl_text d w \<and> n = decl_node d \<and> decl_step (as_symbols (ps_ast s)) d (as_symbols a')"
    using a cs(4) by (intro exI [of _ ?d]) auto
qed

lemma match_prod_proto:
  assumes "all_named (ps_token s)" "symbols_ok (as_symbols (ps_ast s)) \<or> starts func_syms (ps_token s)"
  shows "returns (decl_post proto_syms s) (match_prod (check k) AST_FUNCTION_PROTO proto_syms s)"
proof (rule match_prod_decl [OF _ assms(1)])
  show "list_all inner_sym proto_syms" by (simp add: proto_syms_def inner_nt_def)
  fix w cs a n a' r
  assume m: "matched proto_syms w cs a" and r: "ps_token s = w @ r" and a: "as_symbols a = as_symbols (ps_ast s)"
    and n: "create_node AST_FUNCTION_PROTO cs a = Ret (n, a')" "n \<noteq> NULL_NODE"
  have ok: "symbols_ok (as_symbols (ps_ast s))"
    using assms(2) func_not_proto [OF _ m, of _ _ _ _ r] r unfolding starts_def by metis
  from m obtain t1 t2 t3 u t4 t5 f ps l where w: "w = t1 # t2 # t3 # u @ [t4, t5]"
      "is_type (tok_type t1)" "ident_token f t2" "tok_type t3 = TOK_OPENPA" "params_text ps u" "toks [TOK_CLOSEPA, TOK_SEMICL] [t4, t5]"
    and cs: "cs = [type_node (tok_type t1), ident_node f, l]" "raw_params ps l"
    by (rule matched_proto)
  let ?d = "Proto_Decl (tok_type_to_dtype (tok_type t1)) f ps"
  have "register_function_prototype [type_node (tok_type t1), ident_node f, l] a = Ret (n, a')"
    using n(1) unfolding cs(1) by (simp add: create_node_def)
  from register_prototype_declared [OF _ cs(2) this n(2)] a ok
  have "n = decl_node ?d" "decl_step (as_symbols (ps_ast s)) ?d (as_symbols a')"
    by auto
  moreover have "decl_text ?d w"
    unfolding decl_text.simps w(1) by (intro exI conjI, rule refl) (use w(2-) in auto)
  ultimately show "\<exists>d. decl_text d w \<and> n = decl_node d \<and> decl_step (as_symbols (ps_ast s)) d (as_symbols a')"
    by blast
qed

text \<open>A declaration that is read; or none, at the end of the text, and then nothing has changed.\<close>

definition func_post :: "pstate \<Rightarrow> node \<times> pstate \<Rightarrow> bool" where
  "func_post s = (\<lambda>(n, s'). if n = NULL_NODE
     then \<forall>t r. ps_token s = t # r \<longrightarrow> tok_type t = TOK_EOF \<longrightarrow> as_symbols (ps_ast s') = as_symbols (ps_ast s)
     else \<exists>d w. ps_token s = w @ ps_token s' \<and> decl_text d w \<and> n = decl_node d \<and>
       decl_step (as_symbols (ps_ast s)) d (as_symbols (ps_ast s')))"

lemma decl_starts:
  "matched func_syms w cs a \<Longrightarrow> w \<noteq> [] \<and> tok_type (hd w) \<noteq> TOK_EOF"
  "matched proto_syms w cs a \<Longrightarrow> w \<noteq> [] \<and> tok_type (hd w) \<noteq> TOK_EOF"
  "decl_text d w \<Longrightarrow> w \<noteq> [] \<and> tok_type (hd w) \<noteq> TOK_EOF"
proof -
  show "matched func_syms w cs a \<Longrightarrow> w \<noteq> [] \<and> tok_type (hd w) \<noteq> TOK_EOF"
    by (erule matched_func) (auto simp: is_type_def)
  show "matched proto_syms w cs a \<Longrightarrow> w \<noteq> [] \<and> tok_type (hd w) \<noteq> TOK_EOF"
    by (erule matched_proto) (auto simp: is_type_def)
  show "decl_text d w \<Longrightarrow> w \<noteq> [] \<and> tok_type (hd w) \<noteq> TOK_EOF"
    by (cases d) (auto simp: is_type_def)
qed

lemma starts_not_eof:
  assumes "ts = t # r" "tok_type t = TOK_EOF"
  shows "\<not> starts func_syms ts" "\<not> starts proto_syms ts"
  using assms decl_starts(1,2) by (auto simp: starts_def Cons_eq_append_conv) (metis list.sel(1))+

lemma starts_one: "starts func_syms ts \<Longrightarrow> starts proto_syms ts \<Longrightarrow> False"
  using func_not_proto unfolding starts_def by metis

lemma check_func_shape:
  assumes "all_named (ps_token s)" "symbols_ok (as_symbols (ps_ast s))"
  shows "returns (func_post s) (check (Suc k) NT_func s)"
proof -
  let ?s0 = "s\<lparr>ps_ast := set_max_arg_count 0 (ps_ast s)\<rparr>"
  have s0: "as_symbols (ps_ast ?s0) = as_symbols (ps_ast s)" "ps_token ?s0 = ps_token s"
    by (simp_all add: set_max_arg_count_def)
  have prods: "prods NT_func = [(AST_FUNCTION, func_syms), (AST_FUNCTION_PROTO, proto_syms)]"
    by (simp add: prods_func_def func_syms_def proto_syms_def)
  have second: "returns (func_post s) (match_prod (check k) AST_FUNCTION_PROTO proto_syms (s1\<lparr>ps_token := ps_token s\<rparr>))"
    if s1: "decl_post func_syms ?s0 (NULL_NODE, s1)" for s1
  proof (rule returns_mono [OF match_prod_proto])
    have s1': "as_symbols (ps_ast s1) = as_symbols (ps_ast s) \<or> starts func_syms (ps_token s)"
      using s1 s0 by (simp add: decl_post_def)
    show "all_named (ps_token (s1\<lparr>ps_token := ps_token s\<rparr>))" using assms(1) by simp
    show "symbols_ok (as_symbols (ps_ast (s1\<lparr>ps_token := ps_token s\<rparr>))) \<or> starts func_syms (ps_token (s1\<lparr>ps_token := ps_token s\<rparr>))"
      using s1' assms(2) by auto
    fix x
    assume post: "decl_post proto_syms (s1\<lparr>ps_token := ps_token s\<rparr>) x"
    obtain n s2 where x: "x = (n, s2)" by (cases x)
    show "func_post s x"
    proof (cases "n = NULL_NODE")
      case True
      have "as_symbols (ps_ast s2) = as_symbols (ps_ast s)" if "ps_token s = t # r" "tok_type t = TOK_EOF" for t r
        using post s1' starts_not_eof [OF that] unfolding x decl_post_def True by simp
      then show ?thesis unfolding x func_post_def True by auto
    next
      case False
      then have "starts proto_syms (ps_token s)" using post unfolding x decl_post_def by auto
      then have "as_symbols (ps_ast s1) = as_symbols (ps_ast s)"
        using s1' starts_one by blast
      then show ?thesis using post False unfolding x decl_post_def func_post_def by auto
    qed
  qed
  have first: "returns (decl_post func_syms ?s0) (match_prod (check k) AST_FUNCTION func_syms ?s0)"
    by (rule match_prod_func) (use assms s0 in simp_all)
  have "returns (func_post s) (try_matching (check k) (prods NT_func) (ps_token s) ?s0)"
    unfolding prods try_matching.simps
  proof (rule returns_bind [OF first], clarify)
    fix n s1
    assume post: "decl_post func_syms ?s0 (n, s1)"
    show "returns (func_post s) (if n \<noteq> NULL_NODE then Ret (n, s1)
        else obind (match_prod (check k) AST_FUNCTION_PROTO proto_syms (s1\<lparr>ps_token := ps_token s\<rparr>))
          (\<lambda>(n, s1). if n \<noteq> NULL_NODE then Ret (n, s1) else Ret (NULL_NODE, s1\<lparr>ps_token := ps_token s\<rparr>)))"
    proof (cases "n = NULL_NODE")
      case True
      have "returns (func_post s) (obind (match_prod (check k) AST_FUNCTION_PROTO proto_syms (s1\<lparr>ps_token := ps_token s\<rparr>))
          (\<lambda>(n, s1). if n \<noteq> NULL_NODE then Ret (n, s1) else Ret (NULL_NODE, s1\<lparr>ps_token := ps_token s\<rparr>)))"
        by (rule returns_bind [OF second]) (use post True in \<open>auto simp: func_post_def\<close>)
      then show ?thesis using True by simp
    next
      case False
      then show ?thesis using post s0 by (auto simp: decl_post_def func_post_def)
    qed
  qed
  then have "returns (func_post s) (obind (try_matching (check k) (prods NT_func) (ps_token s) ?s0)
      (\<lambda>(n, s1). if n \<noteq> NULL_NODE then Ret (n, s1) else Ret (NULL_NODE, s1)))"
    by (rule returns_bind) auto
  then show ?thesis
    unfolding check.simps check_body_def Let_def accepts_empty.simps by (simp only: simp_thms if_True if_False)
qed

section \<open>Programs\<close>

definition ends_here :: "token list \<Rightarrow> bool" where
  "ends_here ts \<longleftrightarrow> (\<exists>t r. ts = t # r \<and> tok_type t = TOK_EOF)"

definition program_post :: "pstate \<Rightarrow> node \<times> pstate \<Rightarrow> bool" where
  "program_post s = (\<lambda>(n, s'). \<exists>ds w. ps_token s = w @ ps_token s' \<and> decls_text ds w \<and> n = decls_node ds \<and>
     (ends_here (ps_token s') \<longrightarrow> decl_steps (as_symbols (ps_ast s)) ds (as_symbols (ps_ast s'))))"

lemma func_post_check:
  assumes "all_named (ps_token s)" "symbols_ok (as_symbols (ps_ast s))"
  shows "returns (func_post s) (check k NT_func s)"
  using check_func_shape [OF assms] by (cases k) (simp_all del: check.simps(2))

lemma match_prod_inner:
  assumes "ps_token s \<noteq> []"
  shows "match_prod chk AST_INNER [Nt A, Nt B] s = obind (chk A s) (\<lambda>(f, s1).
    if f = NULL_NODE \<or> ps_token s1 = [] then Ret (NULL_NODE, s1)
    else obind (chk B s1) (\<lambda>(p, s2). if p = NULL_NODE then Ret (NULL_NODE, s2)
      else Ret (Node AST_INNER Val_None f p NULL_NODE, s2)))"
proof (cases "chk A s")
  case (Ret x)
  obtain f s1 where x: "x = (f, s1)" by (cases x)
  show ?thesis
  proof (cases "f = NULL_NODE \<or> ps_token s1 = []")
    case True
    then show ?thesis using assms Ret x by (auto simp: match_prod_def)
  next
    case False
    then show ?thesis
      using assms Ret x by (cases "chk B s1") (auto simp: match_prod_def create_node_def)
  qed
qed (use assms in \<open>simp_all add: match_prod_def\<close>)

lemma match_prod_head:
  assumes "match_prod chk AST_HEAD [Nt NT_program, Tm TOK_EOF None] s = Ret (n, s')" "n \<noteq> NULL_NODE"
  shows "\<exists>p s1 t r. chk NT_program s = Ret (p, s1) \<and> ps_token s1 = t # r \<and> tok_type t = TOK_EOF \<and>
    n = node1 AST_HEAD Val_None p \<and> ps_ast s' = ps_ast s1"
proof -
  have "ps_token s \<noteq> []" using assms by (auto simp: match_prod_def)
  moreover from this obtain p s1 where p: "chk NT_program s = Ret (p, s1)"
    using assms(1) by (cases "chk NT_program s") (auto simp: match_prod_def)
  ultimately show ?thesis
    using assms by (cases "ps_token s1") (auto simp: match_prod_def create_node_def Let_def split: if_splits)
qed

lemma decls_node_not_null [simp]: "decls_node ds \<noteq> NULL_NODE"
  by (cases ds) (simp_all add: create_empty_def)

lemma check_program_shape:
  assumes "all_named (ps_token s)" "symbols_ok (as_symbols (ps_ast s))"
  shows "returns (program_post s) (check k NT_program s)"
  using assms
proof (induction k arbitrary: s)
  case (Suc k)
  let ?none = "\<lambda>s1. obind (Ret (NULL_NODE, s1)) (\<lambda>(n, s1). Ret (create_empty, s1\<lparr>ps_token := ps_token s\<rparr>))"
  have stop: "program_post s (create_empty, s1\<lparr>ps_token := ps_token s\<rparr>)"
    if "ends_here (ps_token s) \<Longrightarrow> as_symbols (ps_ast s1) = as_symbols (ps_ast s)" for s1
    using that by (auto simp: program_post_def intro!: exI [of _ "[]"])
  have "returns (\<lambda>(n, s1). if n = NULL_NODE then ends_here (ps_token s) \<longrightarrow> as_symbols (ps_ast s1) = as_symbols (ps_ast s)
      else program_post s (n, s1)) (match_prod (check k) AST_INNER [Nt NT_func, Nt NT_program] s)"
  proof (cases "ps_token s = []")
    case True
    then show ?thesis by (simp add: match_prod_def)
  next
    case False
    have "returns (\<lambda>(n, s1). if n = NULL_NODE then ends_here (ps_token s) \<longrightarrow> as_symbols (ps_ast s1) = as_symbols (ps_ast s)
        else program_post s (n, s1)) (obind (check k NT_func s) (\<lambda>(f, s1).
          if f = NULL_NODE \<or> ps_token s1 = [] then Ret (NULL_NODE, s1)
          else obind (check k NT_program s1) (\<lambda>(p, s2). if p = NULL_NODE then Ret (NULL_NODE, s2)
            else Ret (Node AST_INNER Val_None f p NULL_NODE, s2))))"
    proof (rule returns_bind [OF func_post_check [OF Suc.prems]], clarify)
      fix f s1
      assume f: "func_post s (f, s1)"
      show "returns (\<lambda>(n, s1). if n = NULL_NODE then ends_here (ps_token s) \<longrightarrow> as_symbols (ps_ast s1) = as_symbols (ps_ast s)
          else program_post s (n, s1)) (if f = NULL_NODE \<or> ps_token s1 = [] then Ret (NULL_NODE, s1)
          else obind (check k NT_program s1) (\<lambda>(p, s2). if p = NULL_NODE then Ret (NULL_NODE, s2)
            else Ret (Node AST_INNER Val_None f p NULL_NODE, s2)))"
      proof (cases "f = NULL_NODE")
        case True
        then show ?thesis using f by (auto simp: func_post_def ends_here_def)
      next
        case False
        then obtain d u where d: "ps_token s = u @ ps_token s1" "decl_text d u" "f = decl_node d"
            "decl_step (as_symbols (ps_ast s)) d (as_symbols (ps_ast s1))"
          using f by (auto simp: func_post_def)
        have "\<not> ends_here (ps_token s)" using d(1) decl_starts(3) [OF d(2)] by (cases u) (auto simp: ends_here_def)
        moreover have "returns (program_post s1) (check k NT_program s1)"
          using Suc.prems(1) d(1) decl_step_ok [OF d(4)] by (intro Suc.IH) auto
        then have "returns (program_post s) (obind (check k NT_program s1) (\<lambda>(p, s2). if p = NULL_NODE then Ret (NULL_NODE, s2)
            else Ret (Node AST_INNER Val_None f p NULL_NODE, s2)))"
        proof (rule returns_bind, clarify)
          fix p s2
          assume "program_post s1 (p, s2)"
          then obtain ds w where p: "ps_token s1 = w @ ps_token s2" "decls_text ds w" "p = decls_node ds"
              "ends_here (ps_token s2) \<longrightarrow> decl_steps (as_symbols (ps_ast s1)) ds (as_symbols (ps_ast s2))"
            by (auto simp: program_post_def)
          from this have "decls_text (d # ds) (u @ w)" using d(2) by auto
          then have "program_post s (Node AST_INNER Val_None f p NULL_NODE, s2)"
            using d p unfolding program_post_def prod.case by (intro exI [of _ "d # ds"] exI [of _ "u @ w"]) auto
          then show "returns (program_post s) (if p = NULL_NODE then Ret (NULL_NODE, s2) else Ret (Node AST_INNER Val_None f p NULL_NODE, s2))"
            using p(3) by simp
        qed
        ultimately show ?thesis
          by (auto simp: returns_def split: outcome.splits)
      qed
    qed
    then show ?thesis unfolding match_prod_inner [OF False] .
  qed
  then have "returns (program_post s) (obind (try_matching (check k) (prods NT_program) (ps_token s) s)
      (\<lambda>(n, s1). if n \<noteq> NULL_NODE then Ret (n, s1) else Ret (create_empty, s1)))"
    unfolding prods.simps prods_program_def try_matching.simps obind_assoc
    by (rule returns_bind) (use stop in \<open>auto split: if_splits\<close>)
  then show ?case
    unfolding check.simps check_body_def Let_def accepts_empty.simps by (simp only: nonterm.distinct if_True if_False)
qed simp

text \<open>A successful parse has read the text of a program.\<close>

lemma parse_shape_lemma:
  assumes parse: "parse_tokenlist ts = Ret (n, a)" "n \<noteq> NULL_NODE" and named: "all_named ts"
  obtains ds where "program_text ds ts" "n = head_node ds" "decl_steps initial_symbols ds (as_symbols a)"
proof -
  let ?s = "\<lparr>ps_token = ts, ps_ast = initial_ast_state\<rparr>"
  define k where "k = parse_fuel ts"
  have sym: "as_symbols (ps_ast ?s) = initial_symbols" by (simp add: initial_ast_state_def)
  have "returns (program_post ?s) (check k NT_program ?s)"
    using named initial_symbols_ok sym by (intro check_program_shape) simp_all
  moreover obtain s' where s': "match_prod (check k) AST_HEAD [Nt NT_program, Tm TOK_EOF None] ?s = Ret (n, s')" "a = ps_ast s'"
    using parse(1) by (auto simp: parse_tokenlist_def check_start_def obind_Ret_iff k_def)
  moreover from match_prod_head [OF s'(1) parse(2)] obtain p s1 t r where "check k NT_program ?s = Ret (p, s1)" "ps_token s1 = t # r"
      "tok_type t = TOK_EOF" "n = node1 AST_HEAD Val_None p" "a = ps_ast s1"
    unfolding s'(2) by blast
  ultimately obtain ds w where "ts = w @ t # r" "decls_text ds w" "n = head_node ds" "decl_steps initial_symbols ds (as_symbols a)"
    using sym by (auto simp: program_post_def ends_here_def head_node_def)
  then show thesis using \<open>tok_type t = TOK_EOF\<close> by (intro that [of ds]) (auto simp: program_text_def)
qed

end
