(* ===== verification/Vm_Refinement.thy ===== *)
theory Vm_Refinement
  imports Vm
begin

text \<open>
  The interpreter core of theory Machine refines the stack machine of theory Vm. The first
  part is about one encrypted segment with one cached line: its abstract value is the list of
  its plain words up to the top, and the register's line overrides the memory's. Then the
  relation between states, one lemma per macro, one per handler, and the composition over
  cycles and over the whole run.
\<close>

section \<open>A segment with one cached line\<close>

definition plain_word :: "block_fun \<Rightarrow> line list \<Rightarrow> nat \<Rightarrow> u32" where
  "plain_word dec seg i = extr_by_ofs (decrypt_memory_cbc dec seg (i div 4)) (i mod 4)"

definition cached_word :: "block_fun \<Rightarrow> line list \<Rightarrow> nat \<Rightarrow> line \<Rightarrow> nat \<Rightarrow> u32" where
  "cached_word dec seg k l i =
     (if i div 4 = k then extr_by_ofs l (i mod 4) else plain_word dec seg i)"

definition cached_list :: "block_fun \<Rightarrow> line list \<Rightarrow> nat \<Rightarrow> line \<Rightarrow> nat \<Rightarrow> u32 list" where
  "cached_list dec seg k l n = map (cached_word dec seg k l) [0..<n]"

lemma cached_list_length [simp]: "length (cached_list dec seg k l n) = n"
  by (simp add: cached_list_def)

lemma cached_list_nth [simp]: "i < n \<Longrightarrow> cached_list dec seg k l n ! i = cached_word dec seg k l i"
  by (simp add: cached_list_def)

lemma cached_list_eqI:
  "(\<And>i. i < n \<Longrightarrow> cached_word dec seg k l i = cached_word dec seg' k' l' i) \<Longrightarrow>
   cached_list dec seg k l n = cached_list dec seg' k' l' n"
  by (simp add: cached_list_def)

lemma cached_list_take: "m \<le> n \<Longrightarrow> take m (cached_list dec seg k l n) = cached_list dec seg k l m"
  by (simp add: cached_list_def take_map min_def)

lemma cached_list_butlast: "butlast (cached_list dec seg k l n) = cached_list dec seg k l (n - 1)"
  by (simp add: butlast_conv_take cached_list_take)

lemma cached_list_last: "0 < n \<Longrightarrow> last (cached_list dec seg k l n) = cached_word dec seg k l (n - 1)"
  by (metis cached_list_length cached_list_nth diff_less last_conv_nth length_greater_0_conv zero_less_one)

lemma cached_list_grow:
  "cached_list dec seg k l (n + m) =
     cached_list dec seg k l n @ map (\<lambda>i. cached_word dec seg k l (n + i)) [0..<m]"
  by (rule nth_equalityI) (auto simp: nth_append)

lemma cached_list_ins:
  "i < n \<Longrightarrow> i div 4 = k \<Longrightarrow>
   cached_list dec seg k (ins_by_ofs v l (i mod 4)) n = (cached_list dec seg k l n)[i := v]"
  by (rule nth_equalityI) (auto simp: cached_word_def nth_list_update, metis div_mult_mod_eq)

text \<open>The register holds what memory holds.\<close>

lemma cached_word_clean: "cached_word dec seg k (decrypt_memory_cbc dec seg k) i = plain_word dec seg i"
  by (simp add: cached_word_def plain_word_def)

text \<open>Writing the line back, alone at the top of the segment or with the rest of the chain.\<close>

lemma plain_word_write:
  assumes "\<And>b. dec (enc b) = b" "k + 1 < length seg" "i div 4 \<le> k"
  shows "plain_word dec (encrypt_reg_cbc enc l k seg) i = cached_word dec seg k l i"
  using assms by (auto simp: plain_word_def cached_word_def cbc_write_dest_plain cbc_write_below_plain)

lemma plain_word_chain:
  assumes "\<And>b. dec (enc b) = b" "k \<le> m" "m + 1 < length seg" "i div 4 \<le> m"
  shows "plain_word dec (encrypt_reg_cbc_chain enc dec l k m seg) i = cached_word dec seg k l i"
proof -
  consider "i div 4 < k" | "i div 4 = k" | "k < i div 4" by linarith
  then show ?thesis
    by cases (use assms in \<open>simp_all add: plain_word_def cached_word_def chain_below_plain
        chain_dest_plain chain_above_plain\<close>)
qed

section \<open>The relation\<close>

definition env_rel :: "asm_env \<Rightarrow> vm_env \<Rightarrow> bool" where
  "env_rel e ve \<longleftrightarrow>
     (\<forall>b. decblk e (encblk e b) = b) \<and> ve_args ve = argv e \<and>
     code_seg_size e = 4 * length (ve_code ve) \<and> 4 dvd length (ve_code ve) \<and>
     stack_seg_size e = 4 * ve_stack_cap ve \<and> 4 dvd ve_stack_cap ve \<and>
     call_seg_size e = 4 * ve_call_cap ve \<and> 4 dvd ve_call_cap ve"

definition code_rel :: "asm_env \<Rightarrow> vm_env \<Rightarrow> line list \<Rightarrow> int \<Rightarrow> line \<Rightarrow> nat \<Rightarrow> bool" where
  "code_rel e ve seg p l pc \<longleftrightarrow>
     length seg = length (ve_code ve) div 4 + 1 \<and>
     (\<forall>i < length (ve_code ve). ve_code ve ! i = plain_word (decblk e) seg i) \<and>
     p = int pc \<and> pc < length (ve_code ve) \<and> l = decrypt_memory_cbc (decblk e) seg (pc div 4)"

definition stack_rel :: "asm_env \<Rightarrow> vm_env \<Rightarrow> line list \<Rightarrow> int \<Rightarrow> line \<Rightarrow> u32 list \<Rightarrow> bool" where
  "stack_rel e ve seg p l xs \<longleftrightarrow>
     length seg = ve_stack_cap ve div 4 + 1 \<and>
     (\<exists>n. p = int n \<and> n < ve_stack_cap ve \<and> xs = cached_list (decblk e) seg (n div 4) l (Suc n))"

definition call_rel :: "asm_env \<Rightarrow> vm_env \<Rightarrow> line list \<Rightarrow> int \<Rightarrow> int \<Rightarrow> line \<Rightarrow> u32 list \<Rightarrow> bool" where
  "call_rel e ve seg p k l ys \<longleftrightarrow>
     length seg = ve_call_cap ve div 4 + 1 \<and>
     (\<exists>n m. p = int n \<and> n < ve_call_cap ve \<and> k = int m \<and> m \<le> n div 4 \<and>
        ys = cached_list (decblk e) seg m l (Suc n))"

definition print_rel :: "asm_env \<Rightarrow> u32 list \<Rightarrow> int \<Rightarrow> vm \<Rightarrow> bool" where
  "print_rel e seg p a \<longleftrightarrow>
     seg = vm_print a \<and> p = int (vm_print_pos a) \<and> vm_print_pos a < length (vm_print a) \<and>
     print_seg_size e = 4 * length (vm_print a)"

definition vm_rel :: "asm_env \<Rightarrow> vm_env \<Rightarrow> machine \<Rightarrow> vm \<Rightarrow> bool" where
  "vm_rel e ve s a \<longleftrightarrow>
     env_rel e ve \<and> \<not> halt_flag s \<and> error_code s = 0 \<and>
     code_rel e ve (code_seg s) (cur_instr_ptr s) (rinstr_line s) (vm_pc a) \<and>
     stack_rel e ve (stack_seg s) (cur_stack_ptr s) (rstack_line s) (vm_stack a) \<and>
     call_rel e ve (call_seg s) (cur_call_ptr s) (cur_call_line s) (rcall_line s) (vm_call a) \<and>
     print_rel e (print_seg s) (print_ptr s) a"

text \<open>Results: \<open>R\<close> relates what runs on, \<open>Q\<close> what leaves the cycle.\<close>

definition aref :: "('a \<Rightarrow> 'b \<Rightarrow> bool) \<Rightarrow> (machine \<Rightarrow> 'b vres \<Rightarrow> bool) \<Rightarrow> 'a asm \<Rightarrow> 'b vres \<Rightarrow> bool" where
  "aref R Q m r \<longleftrightarrow>
     (case m of
        Go x \<Rightarrow> (\<exists>y. r = Running y \<and> R x y)
      | Outro s \<Rightarrow> Q s r
      | Error c s \<Rightarrow> (\<exists>a. r = Trap c a \<and> print_seg s = vm_print a \<and> print_ptr s = int (vm_print_pos a))
      | Fault \<Rightarrow> r = Wild)"

abbreviation no_outro :: "machine \<Rightarrow> 'b vres \<Rightarrow> bool" where
  "no_outro \<equiv> \<lambda>_ _. False"

lemma aref_Go [intro]: "R x y \<Longrightarrow> aref R Q (Go x) (Running y)"
  by (simp add: aref_def)

lemma aref_Fault [intro]: "aref R Q Fault Wild"
  by (simp add: aref_def)

lemma aref_GoE: "aref R Q (Go x) r \<Longrightarrow> (\<And>y. r = Running y \<Longrightarrow> R x y \<Longrightarrow> P) \<Longrightarrow> P"
  by (auto simp: aref_def)

lemma aref_bind:
  assumes "aref R no_outro m r"
    and "\<And>x y. m = Go x \<Longrightarrow> r = Running y \<Longrightarrow> R x y \<Longrightarrow> aref R' Q (f x) (g y)"
  shows "aref R' Q (abind m f) (vbind r g)"
proof (cases m)
  case (Go x)
  with assms(1) obtain y where "r = Running y" "R x y" by (auto elim: aref_GoE)
  then show ?thesis using assms(2) Go by simp
qed (use assms(1) in \<open>auto simp: aref_def\<close>)

lemma aref_mono:
  "aref R no_outro m r \<Longrightarrow> (\<And>x y. m = Go x \<Longrightarrow> r = Running y \<Longrightarrow> R x y \<Longrightarrow> R' x y) \<Longrightarrow> aref R' Q m r"
  by (cases m) (auto simp: aref_def)

lemma abind_assoc: "abind (abind m f) g = abind m (\<lambda>x. abind (f x) g)"
  by (cases m) auto

lemma vbind_assoc: "vbind (vbind m f) g = vbind m (\<lambda>x. vbind (f x) g)"
  by (cases m) auto

section \<open>Pointers\<close>

lemma align_int [simp]: "align_ptr (int n) = int (n div 4)"
  by (simp add: align_ptr_def zdiv_int)

lemma ofs_int [simp]: "ofs_from_ptr (int n) = n mod 4"
  by (simp add: ofs_from_ptr_def nat_mod_as_int)

lemma ofs_align_0 [simp]: "ofs_from_ptr 0 = 0" "align_ptr 0 = 0"
  by (simp_all add: ofs_from_ptr_def align_ptr_def)

lemma in_seg_int [simp]: "in_seg seg (int k) \<longleftrightarrow> k + 1 < length seg"
  by (auto simp: in_seg_def)

lemma div4_less: "n < m \<Longrightarrow> 4 dvd m \<Longrightarrow> n div 4 < m div (4 :: nat)"
  by (simp add: div_less_iff_less_mult dvd_div_mult_self)

lemma mod4_last: "n mod 4 = 3 \<Longrightarrow> Suc n mod 4 = 0 \<and> Suc n div 4 = n div 4 + 1"
  for n :: nat
  by presburger

lemma mod4_not_last: "n mod 4 \<noteq> 3 \<Longrightarrow> Suc n mod 4 = n mod 4 + 1 \<and> Suc n div 4 = n div 4"
  for n :: nat
  by presburger

section \<open>Instruction pointer\<close>

lemma extr_next_instr_rel: "vm_rel e ve s a \<Longrightarrow> extr_next_instr s = vm_word ve a"
  by (simp add: vm_rel_def code_rel_def extr_next_instr_def vm_word_def plain_word_def)

text \<open>Loading the instruction pointer with an address inside the code.\<close>

lemma fetch_instr_line_rel:
  assumes "vm_rel e ve s a" and "p < length (ve_code ve)"
  shows "\<exists>s'. fetch_instr_line e (s\<lparr>cur_instr_ptr := int p\<rparr>) = Go s' \<and> vm_rel e ve s' (a\<lparr>vm_pc := p\<rparr>)"
proof -
  have "p div 4 < length (ve_code ve) div 4"
    using assms by (intro div4_less) (auto simp: vm_rel_def env_rel_def)
  then show ?thesis
    using assms by (simp add: fetch_instr_line_def read_line_def vm_rel_def code_rel_def print_rel_def)
qed

lemma inc_instr_ptr_rel:
  assumes "vm_rel e ve s a"
  shows "aref (vm_rel e ve) no_outro (inc_instr_ptr e s) (vm_next ve a)"
proof (cases "vm_pc a mod 4 = 3")
  case True
  have ip: "cur_instr_ptr s = int (vm_pc a)" and lt: "vm_pc a < length (ve_code ve)"
    and dv: "4 dvd length (ve_code ve)" and seg: "length (code_seg s) = length (ve_code ve) div 4 + 1"
    using assms by (auto simp: vm_rel_def code_rel_def env_rel_def)
  have step: "inc_instr_ptr e s = fetch_instr_line e (s\<lparr>cur_instr_ptr := int (vm_pc a + 1)\<rparr>)"
    using True by (simp add: inc_instr_ptr_def ip add.commute)
  show ?thesis
  proof (cases "vm_pc a + 1 < length (ve_code ve)")
    case True
    then show ?thesis
      using fetch_instr_line_rel [OF assms True] unfolding step by (auto simp: vm_next_def)
  next
    case False
    then have "vm_pc a + 1 = length (ve_code ve)" using lt by simp
    then have "\<not> in_seg (code_seg s) (align_ptr (int (vm_pc a + 1)))"
      unfolding align_int in_seg_int seg by simp
    then have "fetch_instr_line e (s\<lparr>cur_instr_ptr := int (vm_pc a + 1)\<rparr>) = Fault"
      by (simp add: fetch_instr_line_def read_line_def)
    then show ?thesis
      using False unfolding step by (auto simp: vm_next_def)
  qed
next
  case False
  have "vm_pc a + 1 < length (ve_code ve)"
  proof -
    have "vm_pc a < length (ve_code ve)" "4 dvd length (ve_code ve)"
      using assms by (auto simp: vm_rel_def code_rel_def env_rel_def)
    with False show ?thesis by presburger
  qed
  moreover have "vm_rel e ve (s\<lparr>cur_instr_ptr := cur_instr_ptr s + 1\<rparr>) (a\<lparr>vm_pc := vm_pc a + 1\<rparr>)"
    using assms False mod4_not_last [OF False] calculation
    by (auto simp: vm_rel_def code_rel_def print_rel_def)
  moreover have "ofs_from_ptr (cur_instr_ptr s) \<noteq> 3"
    using assms False by (simp add: vm_rel_def code_rel_def)
  ultimately show ?thesis
    by (auto simp: inc_instr_ptr_def vm_next_def Let_def)
qed

definition leaves_cycle :: "asm_env \<Rightarrow> vm_env \<Rightarrow> machine \<Rightarrow> vm vres \<Rightarrow> bool" where
  "leaves_cycle e ve s r \<longleftrightarrow>
     (\<exists>a. (r = Running a \<and> vm_rel e ve s a) \<or>
          (r = Halted a \<and> halt_flag s \<and> vm_rel e ve (s\<lparr>halt_flag := False\<rparr>) a))"

abbreviation handler_rel :: "asm_env \<Rightarrow> vm_env \<Rightarrow> machine asm \<Rightarrow> vm vres \<Rightarrow> bool" where
  "handler_rel e ve \<equiv> aref (vm_rel e ve) (leaves_cycle e ve)"

lemma vm_rel_instr_cnt [simp]: "vm_rel e ve (s\<lparr>instr_cnt := n\<rparr>) a = vm_rel e ve s a"
  by (simp add: vm_rel_def)

lemma check_cycle_rel: "vm_rel e ve s a \<Longrightarrow> handler_rel e ve (inc_and_check_cycle_cnt e s) (Running a)"
  by (auto simp: inc_and_check_cycle_cnt_def Let_def aref_def leaves_cycle_def)

lemma vbind_Running [simp]: "vbind r Running = r"
  by (cases r) auto

lemma goto_next_rel: "vm_rel e ve s a \<Longrightarrow> handler_rel e ve (goto_next_instr e s) (vm_next ve a)"
  unfolding goto_next_instr_def
  by (subst vbind_Running [symmetric]) (rule aref_bind, erule inc_instr_ptr_rel, rule check_cycle_rel)

lemma jump_to_rel:
  assumes "vm_rel e ve s a" and "p < length (ve_code ve)"
  shows "handler_rel e ve (jump_to e (int p) s) (Running (a\<lparr>vm_pc := p\<rparr>))"
  using fetch_instr_line_rel [OF assms] by (auto simp: jump_to_def intro: check_cycle_rel)

lemma unat_less_int: "\<not> int n \<le> uint w \<Longrightarrow> unat w < n"
proof -
  assume "\<not> int n \<le> uint w"
  then have "nat (uint w) < n" by (subst nat_less_iff) simp_all
  then show ?thesis by simp
qed

lemma calc_jmp_target_rel:
  assumes "vm_rel e ve s a"
  shows "aref (\<lambda>t p. t = int p \<and> p < length (ve_code ve)) no_outro (calc_jmp_target e w s) (vm_target ve w a)"
  using assms by (auto simp: calc_jmp_target_def vm_target_def aref_def vm_rel_def env_rel_def print_rel_def
      unat_less_int)

section \<open>Operand stack\<close>

definition push_value :: "asm_env \<Rightarrow> u32 \<Rightarrow> machine \<Rightarrow> machine asm" where
  "push_value e v s = abind (inc_stack_ptr e s) (\<lambda>s1. Go (ins_stack v s1))"

lemma push_value_then:
  "abind (inc_stack_ptr e s) (\<lambda>s1. f (ins_stack v s1)) = abind (push_value e v s) f"
  by (simp add: push_value_def abind_assoc)

lemma print_rel_updates [simp]:
  "print_rel e seg p (a\<lparr>vm_pc := x\<rparr>) = print_rel e seg p a"
  "print_rel e seg p (a\<lparr>vm_stack := xs\<rparr>) = print_rel e seg p a"
  "print_rel e seg p (a\<lparr>vm_call := ys\<rparr>) = print_rel e seg p a"
  by (simp_all add: print_rel_def)

lemma cached_list_top:
  "cached_list dec seg (n div 4) l (Suc n) = cached_list dec seg (n div 4) l n @ [extr_by_ofs l (n mod 4)]"
  using cached_list_grow [of dec seg "n div 4" l n 1] by (simp add: cached_word_def)

lemma stack_rel_top: "stack_rel e ve seg p l xs \<Longrightarrow> extr_by_ofs l (ofs_from_ptr p) = last xs"
  by (auto simp: stack_rel_def cached_list_top)

lemma extr_stack_rel: "vm_rel e ve s a \<Longrightarrow> extr_stack s = vm_top a"
  unfolding vm_rel_def extr_stack_def vm_top_def by (blast intro: stack_rel_top)

text \<open>Overwriting the top slot in the register.\<close>

lemma stack_rel_set_top:
  assumes "stack_rel e ve seg p l xs"
  shows "stack_rel e ve seg p (ins_by_ofs v l (ofs_from_ptr p)) (butlast xs @ [v])"
proof -
  obtain n where n: "p = int n" "n < ve_stack_cap ve" "xs = cached_list (decblk e) seg (n div 4) l (Suc n)"
    and seg: "length seg = ve_stack_cap ve div 4 + 1"
    using assms by (auto simp: stack_rel_def)
  have "cached_list (decblk e) seg (n div 4) (ins_by_ofs v l (n mod 4)) (Suc n) = xs[n := v]"
    unfolding n(3) by (rule cached_list_ins) simp_all
  also have "\<dots> = butlast xs @ [v]"
    unfolding n(3) cached_list_top by (simp add: list_update_append)
  finally show ?thesis
    using n(1,2) seg by (auto simp: stack_rel_def)
qed

lemma ins_stack_rel: "vm_rel e ve s a \<Longrightarrow> vm_rel e ve (ins_stack v s) (vm_set_top v a)"
  by (simp add: vm_rel_def ins_stack_def vm_set_top_def stack_rel_set_top)

text \<open>Moving the pointer up: within the line, or over its end with the line written back.\<close>

lemma stack_rel_up:
  assumes "stack_rel e ve seg p l xs" and "ofs_from_ptr p \<noteq> 3" and "env_rel e ve"
  shows "\<exists>x. stack_rel e ve seg (p + 1) l (xs @ [x]) \<and> length xs < ve_stack_cap ve"
proof -
  obtain n where n: "p = int n" "n < ve_stack_cap ve" "xs = cached_list (decblk e) seg (n div 4) l (Suc n)"
    and seg: "length seg = ve_stack_cap ve div 4 + 1"
    using assms by (auto simp: stack_rel_def)
  have ofs: "n mod 4 \<noteq> 3" and dv: "4 dvd ve_stack_cap ve"
    using assms(2,3) by (auto simp: n(1) env_rel_def)
  have lt: "Suc n < ve_stack_cap ve" using ofs dv n(2) by presburger
  have "cached_list (decblk e) seg (Suc n div 4) l (Suc (Suc n))
      = xs @ [cached_word (decblk e) seg (n div 4) l (Suc n)]"
    using cached_list_grow [of "decblk e" seg "n div 4" l "Suc n" 1] mod4_not_last [OF ofs] n(3) by simp
  then show ?thesis
    using n(1) lt seg by (auto simp: stack_rel_def n(3) intro!: exI [where x = "Suc n"])
qed

lemma stack_rel_next_line:
  assumes "stack_rel e ve seg p l xs" and "ofs_from_ptr p = 3" and env: "env_rel e ve"
    and lt: "length xs < ve_stack_cap ve"
  shows "\<exists>x. stack_rel e ve (encrypt_reg_cbc (encblk e) l (nat (align_ptr p)) seg) (p + 1) l (xs @ [x])"
proof -
  let ?dec = "decblk e"
  obtain n where n: "p = int n" "n < ve_stack_cap ve" "xs = cached_list ?dec seg (n div 4) l (Suc n)"
    and seg: "length seg = ve_stack_cap ve div 4 + 1"
    using assms by (auto simp: stack_rel_def)
  let ?seg = "encrypt_reg_cbc (encblk e) l (n div 4) seg"
  have div: "Suc n div 4 = n div 4 + 1"
    using mod4_last [of n] assms(2) by (simp add: n(1))
  have inv: "\<And>b. ?dec (encblk e b) = b" using env by (simp add: env_rel_def)
  have "n div 4 + 1 < length seg"
    using n(2) seg env div4_less [of n "ve_stack_cap ve"] by (simp add: env_rel_def)
  then have w: "plain_word ?dec ?seg i = cached_word ?dec seg (n div 4) l i" if "i \<le> n" for i
    using plain_word_write [of ?dec "encblk e", OF inv, where i = i] that by (simp add: div_le_mono)
  have "cached_list ?dec ?seg (Suc n div 4) l (Suc n) = cached_list ?dec seg (n div 4) l (Suc n)"
  proof (rule cached_list_eqI)
    fix i assume i: "i < Suc n"
    then have "i div 4 \<le> n div 4" by (simp add: div_le_mono)
    then show "cached_word ?dec ?seg (Suc n div 4) l i = cached_word ?dec seg (n div 4) l i"
      using w [of i] i div by (simp add: cached_word_def [of ?dec ?seg])
  qed
  then have "cached_list ?dec ?seg (Suc n div 4) l (Suc (Suc n))
      = xs @ [cached_word ?dec ?seg (Suc n div 4) l (Suc n)]"
    using cached_list_grow [of ?dec ?seg "Suc n div 4" l "Suc n" 1] n(3) by simp
  then show ?thesis
    using lt n(1,3) seg by (auto simp: stack_rel_def intro!: exI [where x = "Suc n"])
qed


lemma inc_stack_ptr_ofs: "ofs_from_ptr (cur_stack_ptr s) \<noteq> 3 \<Longrightarrow>
    inc_stack_ptr e s = Go (s\<lparr>cur_stack_ptr := cur_stack_ptr s + 1\<rparr>)"
  by (simp add: inc_stack_ptr_def)

lemma push_value_rel:
  assumes "vm_rel e ve s a"
  shows "aref (vm_rel e ve) no_outro (push_value e v s) (vm_push ve v a)"
proof -
  have env: "env_rel e ve"
    and st: "stack_rel e ve (stack_seg s) (cur_stack_ptr s) (rstack_line s) (vm_stack a)"
    using assms by (simp_all add: vm_rel_def)
  have upd: "vm_rel e ve (ins_stack v (s\<lparr>stack_seg := seg, cur_stack_ptr := cur_stack_ptr s + 1\<rparr>))
      (a\<lparr>vm_stack := vm_stack a @ [v]\<rparr>)"
    if "stack_rel e ve seg (cur_stack_ptr s + 1) (rstack_line s) (vm_stack a @ [x])" for seg x
    using stack_rel_set_top [OF that, of v] assms by (simp add: vm_rel_def ins_stack_def)
  show ?thesis
  proof (cases "ofs_from_ptr (cur_stack_ptr s) = 3")
    case False
    then show ?thesis
      using stack_rel_up [OF st False env] upd [of "stack_seg s"]
      by (auto simp: push_value_def inc_stack_ptr_ofs vm_push_def)
  next
    case True
    obtain n where n: "cur_stack_ptr s = int n" "n < ve_stack_cap ve" "length (vm_stack a) = Suc n"
      and seg: "length (stack_seg s) = ve_stack_cap ve div 4 + 1"
      using st by (auto simp: stack_rel_def)
    have size: "stack_seg_size e = 4 * ve_stack_cap ve" and dv: "4 dvd ve_stack_cap ve"
      using env by (simp_all add: env_rel_def)
    let ?seg = "encrypt_reg_cbc (encblk e) (rstack_line s) (nat (align_ptr (cur_stack_ptr s))) (stack_seg s)"
    let ?s = "s\<lparr>stack_seg := ?seg, cur_stack_ptr := cur_stack_ptr s + 1\<rparr>"
    have "n div 4 < ve_stack_cap ve div 4" using n(2) dv by (rule div4_less)
    then have inc: "inc_stack_ptr e s = (if int (ve_stack_cap ve) \<le> int (Suc n) then Error ERR_STACK_OVERFLOW ?s else Go ?s)"
      using True seg by (simp add: inc_stack_ptr_def write_line_def n(1) size)
    show ?thesis
    proof (cases "Suc n < ve_stack_cap ve")
      case lt: True
      then obtain x where "stack_rel e ve ?seg (cur_stack_ptr s + 1) (rstack_line s) (vm_stack a @ [x])"
        using stack_rel_next_line [OF st True env] n(3) by auto
      from upd [OF this] lt n(3) inc show ?thesis
        by (auto simp: push_value_def vm_push_def)
    next
      case False
      then have "push_value e v s = Error ERR_STACK_OVERFLOW ?s" using inc by (simp add: push_value_def)
      then show ?thesis
        using False assms n(3) by (auto simp: vm_push_def aref_def vm_rel_def print_rel_def)
    qed
  qed
qed

text \<open>Moving the pointer down: within the line, or to the previous line.\<close>

lemma dec_stack_ptr_Suc:
  assumes "cur_stack_ptr s = int (Suc m)"
  shows "dec_stack_ptr e s =
    (if Suc m mod 4 \<noteq> 0 then Go (s\<lparr>cur_stack_ptr := int m\<rparr>)
     else fetch_stack_line e (s\<lparr>cur_stack_ptr := int m\<rparr>))"
proof -
  have "ofs_from_ptr (cur_stack_ptr s) = Suc m mod 4" unfolding assms by (rule ofs_int)
  moreover have "cur_stack_ptr s - 1 = int m" by (simp add: assms)
  ultimately show ?thesis by (simp add: dec_stack_ptr_def)
qed

lemma dec_stack_ptr_rel:
  assumes "vm_rel e ve s a"
  shows "aref (vm_rel e ve) no_outro (dec_stack_ptr e s) (vm_pop a)"
proof -
  have env: "env_rel e ve"
    and st: "stack_rel e ve (stack_seg s) (cur_stack_ptr s) (rstack_line s) (vm_stack a)"
    using assms by (simp_all add: vm_rel_def)
  let ?dec = "decblk e"
  obtain n where n: "cur_stack_ptr s = int n" "n < ve_stack_cap ve"
      "vm_stack a = cached_list ?dec (stack_seg s) (n div 4) (rstack_line s) (Suc n)"
    and seg: "length (stack_seg s) = ve_stack_cap ve div 4 + 1"
    using st by (auto simp: stack_rel_def)
  have upd: "vm_rel e ve (s\<lparr>cur_stack_ptr := int m, rstack_line := l\<rparr>) (a\<lparr>vm_stack := butlast (vm_stack a)\<rparr>)"
    if "n = Suc m" and "\<And>i. i \<le> m \<Longrightarrow> cached_word ?dec (stack_seg s) (m div 4) l i
      = cached_word ?dec (stack_seg s) (n div 4) (rstack_line s) i" for m l
  proof -
    have "butlast (vm_stack a) = cached_list ?dec (stack_seg s) (n div 4) (rstack_line s) n"
      by (simp add: n(3) cached_list_butlast)
    also have "\<dots> = cached_list ?dec (stack_seg s) (m div 4) l (Suc m)"
      unfolding that(1) by (rule cached_list_eqI) (simp add: that(2) [unfolded that(1)])
    finally have "stack_rel e ve (stack_seg s) (int m) l (butlast (vm_stack a))"
      using n(2) seg that(1) by (auto simp: stack_rel_def)
    then show ?thesis
      using assms by (simp add: vm_rel_def)
  qed
  show ?thesis
  proof (cases n)
    case 0
    then have "dec_stack_ptr e s = Error ERR_STACK_UNDERFLOW (s\<lparr>cur_stack_ptr := - 1\<rparr>)"
      using n(1) by (simp add: dec_stack_ptr_def)
    then show ?thesis
      using assms 0 by (auto simp: vm_pop_def n(3) aref_def vm_rel_def print_rel_def)
  next
    case (Suc m)
    have pop: "vm_pop a = Running (a\<lparr>vm_stack := butlast (vm_stack a)\<rparr>)"
      by (simp add: vm_pop_def n(3) Suc)
    show ?thesis
    proof (cases "n mod 4 = 0")
      case False
      then have "m div 4 = n div 4" using Suc by presburger
      then show ?thesis
        using False upd [OF Suc, of "rstack_line s"] Suc unfolding pop dec_stack_ptr_Suc [OF n(1) [unfolded Suc]]
        by auto
    next
      case True
      have "m div 4 < n div 4" using True Suc by presburger
      moreover from this have "i div 4 \<noteq> n div 4" if "i \<le> m" for i
        using div_le_mono [OF that, of 4] by simp
      ultimately have "vm_rel e ve (s\<lparr>cur_stack_ptr := int m,
          rstack_line := decrypt_memory_cbc ?dec (stack_seg s) (m div 4)\<rparr>) (a\<lparr>vm_stack := butlast (vm_stack a)\<rparr>)"
        by (intro upd [OF Suc]) (simp add: cached_word_clean, simp add: cached_word_def)
      moreover have "m div 4 + 1 < length (stack_seg s)"
        using n(2) Suc seg env div4_less [of m "ve_stack_cap ve"] by (simp add: env_rel_def)
      ultimately show ?thesis
        using True Suc unfolding pop dec_stack_ptr_Suc [OF n(1) [unfolded Suc]]
        by (auto simp: fetch_stack_line_def read_line_def)
    qed
  qed
qed

section \<open>Call stack\<close>

lemma displacement_nonneg [simp]: "0 \<le> displacement w"
  by (simp add: displacement_def pos_imp_zdiv_nonneg_iff)

lemma trap_rel: "vm_rel e ve s a \<Longrightarrow> print_seg s' = print_seg s \<Longrightarrow> print_ptr s' = print_ptr s \<Longrightarrow>
    aref R Q (Error c s') (Trap c a)"
  by (auto simp: aref_def vm_rel_def print_rel_def)

lemma call_relE:
  assumes "vm_rel e ve s a"
  obtains n m where "cur_call_ptr s = int n" "n < ve_call_cap ve" "cur_call_line s = int m" "m \<le> n div 4"
    "vm_call a = cached_list (decblk e) (call_seg s) m (rcall_line s) (Suc n)"
    "length (vm_call a) = Suc n" "n div 4 + 1 < length (call_seg s)"
    "length (call_seg s) = ve_call_cap ve div 4 + 1" "call_seg_size e = 4 * ve_call_cap ve"
    "\<And>b. decblk e (encblk e b) = b"
proof -
  from assms obtain n m where n: "cur_call_ptr s = int n" "n < ve_call_cap ve" "cur_call_line s = int m"
    "m \<le> n div 4" "vm_call a = cached_list (decblk e) (call_seg s) m (rcall_line s) (Suc n)"
    and seg: "length (call_seg s) = ve_call_cap ve div 4 + 1" and env: "env_rel e ve"
    by (auto simp: vm_rel_def call_rel_def)
  moreover have "n div 4 + 1 < length (call_seg s)"
    using div4_less [OF n(2)] env seg by (simp add: env_rel_def)
  moreover have "length (vm_call a) = Suc n" by (simp add: n(5))
  ultimately show thesis by (intro that) (auto simp: env_rel_def)
qed

text \<open>Another line is loaded; the old one goes back into the chain.\<close>

lemma fetch_call_line_rel:
  assumes "vm_rel e ve s a" and "t \<le> (length (vm_call a) - 1) div 4"
  shows "\<exists>s'. fetch_call_line e (int t) s = Go s' \<and> vm_rel e ve s' a \<and> cur_call_line s' = int t \<and>
     cur_call_ptr s' = cur_call_ptr s"
proof (rule call_relE [OF assms(1)])
  fix n m
  assume n: "cur_call_ptr s = int n" "n < ve_call_cap ve" "cur_call_line s = int m" "m \<le> n div 4"
    and ys: "vm_call a = cached_list (decblk e) (call_seg s) m (rcall_line s) (Suc n)"
    and seg: "length (vm_call a) = Suc n" "n div 4 + 1 < length (call_seg s)"
      "length (call_seg s) = ve_call_cap ve div 4 + 1"
    and inv: "\<And>b. decblk e (encblk e b) = b"
  let ?seg = "encrypt_reg_cbc_chain (encblk e) (decblk e) (rcall_line s) m (n div 4) (call_seg s)"
  let ?l = "decrypt_memory_cbc (decblk e) ?seg t"
  have t: "t \<le> n div 4" using assms(2) seg(1) by simp
  show ?thesis
  proof (cases "t = m")
    case True
    then show ?thesis using assms(1) n by (simp add: fetch_call_line_def)
  next
    case False
    have "cached_list (decblk e) ?seg t ?l (Suc n) = vm_call a"
      unfolding ys
      by (rule cached_list_eqI) (simp add: cached_word_clean div_le_mono
          plain_word_chain [of "decblk e" "encblk e", OF inv n(4) seg(2)])
    then have "call_rel e ve ?seg (int n) (int t) ?l (vm_call a)"
      using n(2) t seg(3) by (auto simp: call_rel_def intro!: exI [where x = n])
    then show ?thesis
      using False assms(1) n t seg by (simp add: fetch_call_line_def write_chain_def read_line_def vm_rel_def)
  qed
qed

lemma fetch_slot_rel:
  assumes r: "vm_rel e ve s a" and d: "0 \<le> disp" and rel:
    "\<And>s' i. vm_rel e ve s' a \<Longrightarrow> i < length (vm_call a) \<Longrightarrow> int i = cur_call_ptr s - disp \<Longrightarrow>
      cur_call_line s' = int (i div 4) \<Longrightarrow> R (f s') (g i)"
  shows "aref R no_outro (abind (fetch_call_line e (align_ptr (cur_call_ptr s - disp)) s) (\<lambda>s'. Go (f s')))
    (vbind (vm_slot disp a) (\<lambda>i. Running (g i)))"
proof (rule call_relE [OF r])
  fix n m
  assume n: "cur_call_ptr s = int n" "cur_call_line s = int m" "length (vm_call a) = Suc n"
  show ?thesis
  proof (cases "disp \<le> int n")
    case True
    then obtain i where i: "cur_call_ptr s - disp = int i"
      using n(1) by (metis diff_ge_0_iff_ge zero_le_imp_eq_int)
    then have slot: "vm_slot disp a = Running i" "i \<le> n"
      using d n(1,3) by (auto simp: vm_slot_def)
    obtain s' where s': "fetch_call_line e (int (i div 4)) s = Go s'" "vm_rel e ve s' a"
        "cur_call_line s' = int (i div 4)"
      using fetch_call_line_rel [OF r, of "i div 4"] n(3) slot(2) by (auto simp: div_le_mono)
    have "R (f s') (g i)"
      using rel [OF s'(2) _ _ s'(3)] n(3) slot(2) i by simp
    then show ?thesis
      unfolding i slot(1) by (auto simp: s'(1))
  next
    case False
    then have "align_ptr (cur_call_ptr s - disp) < 0" by (simp add: n(1) align_ptr_def)
    then have "fetch_call_line e (align_ptr (cur_call_ptr s - disp)) s = Error ERR_CALL_UNDERFLOW s"
      using n(2) by (simp add: fetch_call_line_def)
    then show ?thesis
      using False n(3) r by (simp add: vm_slot_def trap_rel)
  qed
qed

lemma fetch_call_element_rel:
  assumes r: "vm_rel e ve s a" and d: "0 \<le> disp"
  shows "aref (\<lambda>(v, s') w. v = w \<and> vm_rel e ve s' a) no_outro (fetch_call_element e disp s) (vm_load disp a)"
  unfolding fetch_call_element_def vm_load_def Let_def
proof (rule fetch_slot_rel [OF r d])
  fix s' i
  assume s': "vm_rel e ve s' a" "i < length (vm_call a)" and i: "int i = cur_call_ptr s - disp"
    and k: "cur_call_line s' = int (i div 4)"
  have "vm_call a ! i = extr_by_ofs (rcall_line s') (i mod 4)"
    using s' k by (auto elim!: call_relE simp: cached_word_def)
  then show "(\<lambda>(v, s') w. v = w \<and> vm_rel e ve s' a)
      (extr_by_ofs (rcall_line s') (ofs_from_ptr (cur_call_ptr s - disp)), s') (vm_call a ! i)"
    using s'(1) by (simp flip: i)
qed

lemma save_call_element_rel:
  assumes r: "vm_rel e ve s a" and d: "0 \<le> disp"
  shows "aref (vm_rel e ve) no_outro (save_call_element e disp v s) (vm_store disp v a)"
  unfolding save_call_element_def vm_store_def Let_def
proof (rule fetch_slot_rel [OF r d])
  fix s' i
  assume s': "vm_rel e ve s' a" "i < length (vm_call a)" and i: "int i = cur_call_ptr s - disp"
    and k: "cur_call_line s' = int (i div 4)"
  let ?l = "ins_by_ofs v (rcall_line s') (i mod 4)"
  have "call_rel e ve (call_seg s') (cur_call_ptr s') (cur_call_line s') ?l ((vm_call a)[i := v])"
  proof (rule call_relE [OF s'(1)])
    fix n m
    assume n: "cur_call_ptr s' = int n" "n < ve_call_cap ve" "cur_call_line s' = int m" "m \<le> n div 4"
      and ys: "vm_call a = cached_list (decblk e) (call_seg s') m (rcall_line s') (Suc n)"
      and seg: "length (call_seg s') = ve_call_cap ve div 4 + 1" "length (vm_call a) = Suc n"
    have "i div 4 = m" using k n(3) by simp
    then have "(vm_call a)[i := v] = cached_list (decblk e) (call_seg s') m ?l (Suc n)"
      unfolding ys using s'(2) seg(2) by (subst cached_list_ins) simp_all
    then show ?thesis using n seg(1) by (auto simp: call_rel_def)
  qed
  then show "vm_rel e ve (s'\<lparr>rcall_line := ins_by_ofs v (rcall_line s') (ofs_from_ptr (cur_call_ptr s - disp))\<rparr>)
      (a\<lparr>vm_call := (vm_call a)[i := v]\<rparr>)"
    using s'(1) by (simp add: vm_rel_def flip: i)
qed

text \<open>What the words above the top of the call stack would read as.\<close>

definition call_junk :: "asm_env \<Rightarrow> machine \<Rightarrow> nat \<Rightarrow> u32" where
  "call_junk e s i =
     cached_word (decblk e) (call_seg s) (nat (cur_call_line s)) (rcall_line s) (nat (cur_call_ptr s) + 1 + i)"

lemma inc_call_ptr_rel:
  assumes r: "vm_rel e ve s a" and n: "0 \<le> amount"
  shows "aref (vm_rel e ve) no_outro (inc_call_ptr e amount s) (vm_grow (call_junk e s) ve amount a)"
proof (rule call_relE [OF r])
  fix n m
  assume c: "cur_call_ptr s = int n" "n < ve_call_cap ve" "cur_call_line s = int m" "m \<le> n div 4"
    and ys: "vm_call a = cached_list (decblk e) (call_seg s) m (rcall_line s) (Suc n)"
    and len: "length (vm_call a) = Suc n" "length (call_seg s) = ve_call_cap ve div 4 + 1"
      "call_seg_size e = 4 * ve_call_cap ve"
  obtain k where k: "amount = int k" using n zero_le_imp_eq_int by blast
  have "vm_call a @ map (call_junk e s) [0..<k]
      = cached_list (decblk e) (call_seg s) m (rcall_line s) (Suc (n + k))"
    using cached_list_grow [of "decblk e" "call_seg s" m "rcall_line s" "Suc n" k]
    unfolding ys call_junk_def c by simp
  moreover have "m \<le> (n + k) div 4"
    using c(4) by (rule order_trans) (simp add: div_le_mono)
  ultimately have "vm_rel e ve (s\<lparr>cur_call_ptr := cur_call_ptr s + amount\<rparr>)
      (a\<lparr>vm_call := vm_call a @ map (call_junk e s) [0..<k]\<rparr>)" if "n + k < ve_call_cap ve"
    using r c that len by (auto simp: vm_rel_def call_rel_def k intro!: exI [where x = "n + k"])
  then show ?thesis
    using c(1) len(1,3) r by (auto simp: inc_call_ptr_def vm_grow_def k trap_rel)
qed

lemma le_div4: "m \<le> j div 4 \<longleftrightarrow> 4 * m \<le> j"
  for m j :: nat
  by linarith

lemma dec_call_ptr_eq:
  assumes "cur_call_ptr s - amount = int j"
  shows "dec_call_ptr e amount s =
    (if 4 * cur_call_line s \<le> int j then Go (s\<lparr>cur_call_ptr := int j\<rparr>)
     else abind (write_chain e (rcall_line s) (cur_call_line s) (align_ptr (cur_call_ptr s)) (call_seg s)) (\<lambda>seg.
          abind (read_line e seg (align_ptr (int j))) (\<lambda>l.
            Go (s\<lparr>cur_call_ptr := int j, call_seg := seg, cur_call_line := align_ptr (int j), rcall_line := l\<rparr>))))"
  by (simp add: dec_call_ptr_def assms)

lemma dec_call_ptr_rel:
  assumes r: "vm_rel e ve s a" and n: "0 \<le> amount"
  shows "aref (vm_rel e ve) no_outro (dec_call_ptr e amount s) (vm_shrink amount a)"
proof (rule call_relE [OF r])
  fix n m
  assume c: "cur_call_ptr s = int n" "n < ve_call_cap ve" "cur_call_line s = int m" "m \<le> n div 4"
    and ys: "vm_call a = cached_list (decblk e) (call_seg s) m (rcall_line s) (Suc n)"
    and len: "length (vm_call a) = Suc n" "n div 4 + 1 < length (call_seg s)"
      "length (call_seg s) = ve_call_cap ve div 4 + 1"
    and inv: "\<And>b. decblk e (encblk e b) = b"
  obtain k where k: "amount = int k" using n zero_le_imp_eq_int by blast
  show ?thesis
  proof (cases "k \<le> n")
    case False
    then show ?thesis
      using c(1) len(1) r by (simp add: dec_call_ptr_def vm_shrink_def k trap_rel)
  next
    case True
    define j where "j = n - k"
    have j: "cur_call_ptr s - amount = int j" "j \<le> n" using True c(1) k by (auto simp: j_def)
    let ?ys = "cached_list (decblk e) (call_seg s) m (rcall_line s) (Suc j)"
    have shrink: "vm_shrink amount a = Running (a\<lparr>vm_call := ?ys\<rparr>)"
      using True j(2) by (simp add: vm_shrink_def k ys cached_list_take j_def Suc_diff_le)
    have upd: "vm_rel e ve (s\<lparr>cur_call_ptr := int j, call_seg := seg, cur_call_line := int t, rcall_line := l\<rparr>)
        (a\<lparr>vm_call := ?ys\<rparr>)"
      if "?ys = cached_list (decblk e) seg t l (Suc j)" "t \<le> j div 4" "length seg = length (call_seg s)" for seg t l
      using r that c(2) j(2) len(3) by (auto simp: vm_rel_def call_rel_def intro!: exI [where x = j])
    show ?thesis
    proof (cases "m \<le> j div 4")
      case True
      then have "4 * cur_call_line s \<le> int j" unfolding c(3) le_div4 by linarith
      moreover have "vm_rel e ve (s\<lparr>cur_call_ptr := int j\<rparr>) (a\<lparr>vm_call := ?ys\<rparr>)"
        using upd [of "call_seg s" m "rcall_line s"] True c(3) by (simp add: vm_rel_def)
      ultimately show ?thesis
        unfolding shrink dec_call_ptr_eq [OF j(1)] by auto
    next
      case False
      then have gt: "\<not> 4 * cur_call_line s \<le> int j" unfolding c(3) le_div4 by linarith
      let ?seg = "encrypt_reg_cbc_chain (encblk e) (decblk e) (rcall_line s) m (n div 4) (call_seg s)"
      let ?l = "decrypt_memory_cbc (decblk e) ?seg (j div 4)"
      have jn: "j div 4 \<le> n div 4" using j(2) by (rule div_le_mono)
      have "?ys = cached_list (decblk e) ?seg (j div 4) ?l (Suc j)"
      proof (rule cached_list_eqI)
        fix i assume "i < Suc j"
        then have "i div 4 \<le> n div 4" using jn by (meson div_le_mono less_Suc_eq_le order_trans)
        then show "cached_word (decblk e) (call_seg s) m (rcall_line s) i = cached_word (decblk e) ?seg (j div 4) ?l i"
          using plain_word_chain [of "decblk e" "encblk e", OF inv c(4) len(2)] by (simp add: cached_word_clean)
      qed
      from upd [OF this] show ?thesis
        using gt jn c len(2) unfolding shrink dec_call_ptr_eq [OF j(1)]
        by (auto simp: write_chain_def read_line_def)
    qed
  qed
qed

section \<open>Handlers\<close>

lemma extr_next_word_rel: "vm_rel e ve s a \<Longrightarrow> vm_word ve a = extr_next_instr s"
  by (simp add: extr_next_instr_rel)

text \<open>The common start of the instructions with an immediate.\<close>

lemma imm_rel:
  assumes "vm_rel e ve s a"
    and "\<And>s1 a1. vm_rel e ve s1 a1 \<Longrightarrow> inc_instr_ptr e s = Go s1 \<Longrightarrow> vm_next ve a = Running a1 \<Longrightarrow>
      aref R Q (f s1) (g (extr_next_instr s1) a1)"
  shows "aref R Q (abind (inc_instr_ptr e s) f) (vm_imm ve g a)"
  unfolding vm_imm_def
  by (rule aref_bind [OF inc_instr_ptr_rel [OF assms(1)]]) (simp add: assms(2) extr_next_word_rel)

lemma instr_push_rel: "vm_rel e ve s a \<Longrightarrow> handler_rel e ve (instr_push e s) (vm_exec junk ve INSTR_PUSH a)"
  unfolding instr_push_def vm_exec.simps Let_def push_value_then
  by (erule imm_rel) (rule aref_bind, erule push_value_rel, rule goto_next_rel)

lemma instr_load_rel: "vm_rel e ve s a \<Longrightarrow> handler_rel e ve (instr_load e s) (vm_exec junk ve INSTR_LOAD a)"
  unfolding instr_load_def vm_exec.simps push_value_then
proof (erule imm_rel)
  fix s1 a1
  assume "vm_rel e ve s1 a1"
  note fetch = fetch_call_element_rel [OF this displacement_nonneg, of "extr_next_instr s1"]
  show "handler_rel e ve
      (abind (fetch_call_element e (displacement (extr_next_instr s1)) s1)
        (\<lambda>(v, s2). abind (push_value e v s2) (goto_next_instr e)))
      (vbind (vm_load (displacement (extr_next_instr s1)) a1) (\<lambda>v. vbind (vm_push ve v a1) (vm_next ve)))"
    by (rule aref_bind [OF fetch]) (auto intro!: aref_bind [OF push_value_rel] goto_next_rel)
qed

lemma instr_store_rel: "vm_rel e ve s a \<Longrightarrow> handler_rel e ve (instr_store e s) (vm_exec junk ve INSTR_STORE a)"
  unfolding instr_store_def vm_exec.simps Let_def
  by (erule imm_rel)
    (rule aref_bind [OF dec_stack_ptr_rel], assumption, simp add: extr_stack_rel,
      rule aref_bind [OF save_call_element_rel], auto intro: goto_next_rel)

lemma instr_arith_rel: "vm_rel e ve s a \<Longrightarrow> handler_rel e ve (instr_arith f e s) (vm_arith f ve a)"
  unfolding instr_arith_def vm_arith_def Let_def
  by (rule aref_bind [OF dec_stack_ptr_rel]) (auto simp: extr_stack_rel intro!: goto_next_rel ins_stack_rel)

lemma instr_divmod_rel: "vm_rel e ve s a \<Longrightarrow> handler_rel e ve (instr_divmod f e s) (vm_divmod f ve a)"
  unfolding instr_divmod_def vm_divmod_def Let_def
  by (rule aref_bind [OF dec_stack_ptr_rel])
    (auto simp: extr_stack_rel intro!: goto_next_rel ins_stack_rel trap_rel)

lemma vm_jmp_imm: "vm_jmp ve a = vm_imm ve (vm_jump ve) a"
  by (simp add: vm_jmp_def vm_imm_def)

lemma instr_jmp_rel: "vm_rel e ve s a \<Longrightarrow> handler_rel e ve (instr_jmp e s) (vm_jmp ve a)"
  unfolding instr_jmp_def vm_jmp_imm
  by (erule imm_rel) (auto simp: vm_jump_def intro!: aref_bind [OF calc_jmp_target_rel] jump_to_rel)

lemma instr_jcc_rel: "vm_rel e ve s a \<Longrightarrow> handler_rel e ve (instr_jcc c e s) (vm_jcc c ve a)"
  unfolding instr_jcc_def vm_jcc_def Let_def
  by (rule aref_bind [OF dec_stack_ptr_rel], assumption, rule aref_bind [OF dec_stack_ptr_rel], assumption)
    (auto simp: extr_stack_rel intro!: instr_jmp_rel aref_bind [OF inc_instr_ptr_rel] goto_next_rel)

lemma instr_print_rel:
  assumes r: "vm_rel e ve s a"
  shows "handler_rel e ve (instr_print e s) (vm_exec junk ve INSTR_PRINT a)"
  unfolding instr_print_def vm_exec.simps Let_def
proof (rule aref_bind [OF dec_stack_ptr_rel [OF r]])
  fix s1 a1
  assume r1: "vm_rel e ve s1 a1"
  then have p: "print_ptr s1 = int (vm_print_pos a1)" "vm_print_pos a1 < length (vm_print a1)"
      "print_seg s1 = vm_print a1" "print_seg_size e = 4 * length (vm_print a1)"
    by (simp_all add: vm_rel_def print_rel_def)
  have step: "vm_rel e ve
      (s1\<lparr>print_seg := (vm_print a1)[vm_print_pos a1 := v],
          print_ptr := (if Suc (vm_print_pos a1) < length (vm_print a1) then int (vm_print_pos a1) + 1 else 0)\<rparr>)
      (vm_output v a1)" for v
    using r1 p by (auto simp: vm_rel_def print_rel_def vm_output_def)
  show "handler_rel e ve
      (if 0 \<le> print_ptr s1 \<and> print_ptr s1 < int (length (print_seg s1))
       then goto_next_instr e
         (if 4 * print_ptr (s1\<lparr>print_seg := (print_seg s1)[nat (print_ptr s1) := extr_stack s], print_ptr := print_ptr s1 + 1\<rparr>)
             < int (print_seg_size e)
          then s1\<lparr>print_seg := (print_seg s1)[nat (print_ptr s1) := extr_stack s], print_ptr := print_ptr s1 + 1\<rparr>
          else s1\<lparr>print_seg := (print_seg s1)[nat (print_ptr s1) := extr_stack s], print_ptr := print_ptr s1 + 1\<rparr>
            \<lparr>print_ptr := 0\<rparr>)
       else Fault)
      (vm_next ve (vm_output (vm_top a) a1))"
    using goto_next_rel [OF step [of "vm_top a"]] p extr_stack_rel [OF r] by (auto split: if_splits)
qed

lemma inc_instr_ptr_junk: "inc_instr_ptr e s = Go s1 \<Longrightarrow> call_junk e s = call_junk e s1"
proof -
  assume "inc_instr_ptr e s = Go s1"
  then have "call_seg s1 = call_seg s \<and> cur_call_line s1 = cur_call_line s \<and> rcall_line s1 = rcall_line s \<and>
      cur_call_ptr s1 = cur_call_ptr s"
    by (auto simp: inc_instr_ptr_def fetch_instr_line_def read_line_def Let_def split: if_splits)
  then show ?thesis by (simp add: call_junk_def fun_eq_iff)
qed

lemma instr_call_rel:
  assumes "vm_rel e ve s a"
  shows "handler_rel e ve (instr_call e s) (vm_exec (call_junk e s) ve INSTR_CALL a)"
  unfolding instr_call_def vm_exec.simps Let_def
proof (rule imm_rel [OF assms], goal_cases)
  case (1 s1 a1)
  have ret: "of_int (cur_instr_ptr s1 + 1) = (of_nat (vm_pc a1 + 1) :: u32)"
    using 1(1) by (simp add: vm_rel_def code_rel_def)
  show ?case
    unfolding inc_instr_ptr_junk [OF 1(2)] ret using 1(1)
    by (auto simp del: of_nat_add of_nat_Suc intro!: aref_bind [OF calc_jmp_target_rel] aref_bind [OF inc_call_ptr_rel]
        aref_bind [OF save_call_element_rel] jump_to_rel)
qed

lemma instr_ret_rel:
  assumes "vm_rel e ve s a"
  shows "handler_rel e ve (instr_ret e s) (vm_exec junk ve INSTR_RET a)"
  unfolding instr_ret_def vm_exec.simps
  by (rule aref_bind [OF fetch_call_element_rel [OF assms]])
    (auto intro!: aref_bind [OF calc_jmp_target_rel] aref_bind [OF dec_call_ptr_rel] jump_to_rel)

lemma instr_prolog_rel:
  assumes "vm_rel e ve s a"
  shows "handler_rel e ve (instr_prolog e s) (vm_exec (call_junk e s) ve INSTR_PROLOG a)"
  unfolding instr_prolog_def vm_exec.simps
  by (rule imm_rel [OF assms])
    (auto simp: inc_instr_ptr_junk intro!: aref_bind [OF inc_call_ptr_rel] goto_next_rel)

lemma instr_epilog_rel:
  assumes "vm_rel e ve s a"
  shows "handler_rel e ve (instr_epilog e s) (vm_exec junk ve INSTR_EPILOG a)"
  unfolding instr_epilog_def vm_exec.simps
  by (rule imm_rel [OF assms]) (auto intro!: aref_bind [OF dec_call_ptr_rel] goto_next_rel)

lemma instr_argload_rel:
  assumes "vm_rel e ve s a"
  shows "handler_rel e ve (instr_argload e s) (vm_exec junk ve INSTR_ARGLOAD a)"
proof -
  have "ve_args ve = argv e" using assms by (simp add: vm_rel_def env_rel_def)
  then show ?thesis
    unfolding instr_argload_def vm_exec.simps Let_def
    by (intro imm_rel [OF assms])
      (auto intro!: aref_bind [OF save_call_element_rel] goto_next_rel trap_rel)
qed

lemma instr_finish_rel: "vm_rel e ve s a \<Longrightarrow> handler_rel e ve (instr_finish e s) (vm_exec junk ve INSTR_FINISH a)"
proof -
  assume r: "vm_rel e ve s a"
  then have "vm_rel e ve (s\<lparr>halt_flag := False\<rparr>) a" by (simp add: vm_rel_def)
  then show ?thesis by (auto simp: instr_finish_def aref_def leaves_cycle_def)
qed

section \<open>Dispatch\<close>

lemma table_entry: "instr_table ! instr_index i =
  (case i of INSTR_NOP \<Rightarrow> instr_nop | INSTR_FINISH \<Rightarrow> instr_finish | INSTR_PUSH \<Rightarrow> instr_push
   | INSTR_PRINT \<Rightarrow> instr_print | INSTR_LOAD \<Rightarrow> instr_load | INSTR_STORE \<Rightarrow> instr_store
   | INSTR_ADD \<Rightarrow> instr_add | INSTR_SUB \<Rightarrow> instr_sub | INSTR_MUL \<Rightarrow> instr_mul | INSTR_DIV \<Rightarrow> instr_div
   | INSTR_MOD \<Rightarrow> instr_mod | INSTR_JMP \<Rightarrow> instr_jmp | INSTR_JEQ \<Rightarrow> instr_jeq | INSTR_JNE \<Rightarrow> instr_jne
   | INSTR_JL \<Rightarrow> instr_jl | INSTR_JLE \<Rightarrow> instr_jle | INSTR_JG \<Rightarrow> instr_jg | INSTR_JGE \<Rightarrow> instr_jge
   | INSTR_CALL \<Rightarrow> instr_call | INSTR_RET \<Rightarrow> instr_ret | INSTR_PROLOG \<Rightarrow> instr_prolog
   | INSTR_EPILOG \<Rightarrow> instr_epilog | INSTR_ARGLOAD \<Rightarrow> instr_argload)"
  by (cases i) (simp_all add: instr_table_def)

lemma handler_exec_rel:
  assumes "vm_rel e ve s a"
  shows "handler_rel e ve ((instr_table ! instr_index i) e s) (vm_exec (call_junk e s) ve i a)"
  unfolding table_entry
  by (cases i; simp only: instr_type.case)
    (use assms in \<open>simp_all add: instr_push_rel instr_load_rel instr_store_rel instr_arith_rel
      instr_divmod_rel instr_jmp_rel instr_jcc_rel instr_print_rel instr_call_rel instr_ret_rel
      instr_prolog_rel instr_epilog_rel instr_argload_rel instr_finish_rel goto_next_rel
      instr_nop_def instr_add_def instr_sub_def instr_mul_def instr_div_def instr_mod_def
      instr_jeq_def instr_jne_def instr_jl_def instr_jle_def instr_jg_def instr_jge_def
      del: vm_exec.simps(2-6,19-23)\<close>)

lemma decode_index: "decode w = Some i \<longleftrightarrow> w \<le> maximum_opcode \<and> unat w = instr_index i"
proof
  assume d: "decode w = Some i"
  then have le: "w \<le> maximum_opcode" and i: "i = all_instrs ! unat w"
    by (auto simp: decode_def split: if_splits)
  have "unat w < 23" using le by (simp add: maximum_opcode_def word_le_nat_alt)
  then have "unat w \<in> set [0..<23]" by simp
  then have "instr_index (all_instrs ! unat w) = unat w"
    unfolding all_instrs_def by (simp add: upt_rec) auto
  then show "w \<le> maximum_opcode \<and> unat w = instr_index i" using le i by simp
qed (simp add: decode_def all_instrs_index leD)

lemma step_rel:
  assumes "vm_rel e ve s a"
  shows "handler_rel e ve (jmp_through_table e s) (vm_step (call_junk e s) ve a)"
proof (cases "decode (vm_word ve a)")
  case None
  then have "extr_next_instr s > maximum_opcode"
    unfolding extr_next_instr_rel [OF assms] by (simp add: decode_def split: if_splits)
  then show ?thesis
    using None assms by (simp add: jmp_through_table_def vm_step_def trap_rel)
next
  case (Some i)
  then have "\<not> extr_next_instr s > maximum_opcode" "unat (extr_next_instr s) = instr_index i"
    unfolding extr_next_instr_rel [OF assms] decode_index by auto
  then show ?thesis
    using Some handler_exec_rel [OF assms, of i] by (simp add: jmp_through_table_def vm_step_def)
qed

end
