(* ===== verification/Vm_Cycles.thy ===== *)
theory Vm_Cycles
  imports Vm_Refinement
begin

text \<open>
  From one instruction to whole runs: a cycle of bispe_cycle_asm.S is a stretch of steps of
  the stack machine with all state back in the encrypted segments at its end, and
  \<open>start_interpreter\<close> is a run of the stack machine, whatever the number of instructions per
  cycle is. The properties of the interpreter core are at the end.
\<close>

section \<open>Counting instructions\<close>

lemma abind_Go_iff: "abind m f = Go y \<longleftrightarrow> (\<exists>x. m = Go x \<and> f x = Go y)"
  by (cases m) auto

lemma abind_Outro_iff: "abind m f = Outro y \<longleftrightarrow> m = Outro y \<or> (\<exists>x. m = Go x \<and> f x = Outro y)"
  by (cases m) auto

text \<open>The macros never leave the cycle and do not touch the counter.\<close>

lemma fetch_instr_line_Go: "fetch_instr_line e s = Go s' \<Longrightarrow> instr_cnt s' = instr_cnt s"
  by (auto simp: fetch_instr_line_def abind_Go_iff)

lemma inc_instr_ptr_Go: "inc_instr_ptr e s = Go s' \<Longrightarrow> instr_cnt s' = instr_cnt s"
  by (auto simp: inc_instr_ptr_def Let_def dest!: fetch_instr_line_Go split: if_splits)

lemma inc_stack_ptr_Go: "inc_stack_ptr e s = Go s' \<Longrightarrow> instr_cnt s' = instr_cnt s"
  by (auto simp: inc_stack_ptr_def Let_def abind_Go_iff split: if_splits)

lemma dec_stack_ptr_Go: "dec_stack_ptr e s = Go s' \<Longrightarrow> instr_cnt s' = instr_cnt s"
  by (auto simp: dec_stack_ptr_def fetch_stack_line_def Let_def abind_Go_iff split: if_splits)

lemma fetch_call_line_Go: "fetch_call_line e t s = Go s' \<Longrightarrow> instr_cnt s' = instr_cnt s"
  by (auto simp: fetch_call_line_def abind_Go_iff split: if_splits)

lemma fetch_call_element_Go: "fetch_call_element e d s = Go (v, s') \<Longrightarrow> instr_cnt s' = instr_cnt s"
  by (auto simp: fetch_call_element_def Let_def abind_Go_iff dest!: fetch_call_line_Go)

lemma save_call_element_Go: "save_call_element e d v s = Go s' \<Longrightarrow> instr_cnt s' = instr_cnt s"
  by (auto simp: save_call_element_def Let_def abind_Go_iff dest!: fetch_call_line_Go)

lemma inc_call_ptr_Go: "inc_call_ptr e n s = Go s' \<Longrightarrow> instr_cnt s' = instr_cnt s"
  by (auto simp: inc_call_ptr_def Let_def split: if_splits)

lemma dec_call_ptr_Go: "dec_call_ptr e n s = Go s' \<Longrightarrow> instr_cnt s' = instr_cnt s"
  by (auto simp: dec_call_ptr_def Let_def abind_Go_iff split: if_splits)

lemmas macro_Go = inc_instr_ptr_Go inc_stack_ptr_Go dec_stack_ptr_Go fetch_call_element_Go
  save_call_element_Go inc_call_ptr_Go dec_call_ptr_Go fetch_instr_line_Go

lemma read_write_no_Outro [simp]:
  "read_line e seg i \<noteq> Outro s" "write_line e l i seg \<noteq> Outro s" "write_chain e l i j seg \<noteq> Outro s"
  by (simp_all add: read_line_def write_line_def write_chain_def)

lemma macro_no_Outro [simp]:
  "fetch_instr_line e s \<noteq> Outro s'" "inc_instr_ptr e s \<noteq> Outro s'" "inc_stack_ptr e s \<noteq> Outro s'"
  "dec_stack_ptr e s \<noteq> Outro s'" "fetch_call_line e t s \<noteq> Outro s'"
  "fetch_call_element e d s \<noteq> Outro s'" "save_call_element e d v s \<noteq> Outro s'"
  "inc_call_ptr e n s \<noteq> Outro s'" "dec_call_ptr e n s \<noteq> Outro s'" "calc_jmp_target e w s \<noteq> Outro s'"
  by (auto simp: fetch_instr_line_def inc_instr_ptr_def inc_stack_ptr_def dec_stack_ptr_def
      fetch_stack_line_def fetch_call_line_def fetch_call_element_def save_call_element_def
      inc_call_ptr_def dec_call_ptr_def calc_jmp_target_def Let_def abind_Outro_iff)

text \<open>A handler counts one instruction, and leaves the cycle when the count is reached.\<close>

definition counted :: "asm_env \<Rightarrow> nat \<Rightarrow> machine asm \<Rightarrow> bool" where
  "counted e n m \<longleftrightarrow>
     (case m of
        Go s \<Rightarrow> instr_cnt s = n + 1 \<and> n + 1 \<noteq> instr_per_cycle e
      | Outro s \<Rightarrow> halt_flag s \<or> n + 1 = instr_per_cycle e
      | _ \<Rightarrow> True)"

lemma counted_check: "instr_cnt s = n \<Longrightarrow> counted e n (inc_and_check_cycle_cnt e s)"
  by (simp add: counted_def inc_and_check_cycle_cnt_def Let_def)

lemma counted_bind:
  "(\<And>s. m \<noteq> Outro s) \<Longrightarrow> (\<And>x. m = Go x \<Longrightarrow> counted e n (f x)) \<Longrightarrow> counted e n (abind m f)"
  by (cases m) (auto simp: counted_def)

lemma counted_Error [simp]: "counted e n (Error c s)" "counted e n Fault"
  by (simp_all add: counted_def)

lemma counted_goto_next: "instr_cnt s = n \<Longrightarrow> counted e n (goto_next_instr e s)"
  by (auto simp: goto_next_instr_def intro!: counted_bind counted_check dest: macro_Go)

lemma counted_jump_to: "instr_cnt s = n \<Longrightarrow> counted e n (jump_to e t s)"
  by (auto simp: jump_to_def intro!: counted_bind counted_check dest: macro_Go)

lemma counted_jmp: "instr_cnt s = n \<Longrightarrow> counted e n (instr_jmp e s)"
  by (auto simp: instr_jmp_def intro!: counted_bind counted_jump_to dest: macro_Go)

lemma counted_arith: "counted e (instr_cnt s) (instr_arith f e s)"
  by (auto simp: instr_arith_def Let_def ins_stack_def intro!: counted_bind counted_goto_next dest: macro_Go)

lemma counted_divmod: "counted e (instr_cnt s) (instr_divmod f e s)"
  by (auto simp: instr_divmod_def Let_def ins_stack_def intro!: counted_bind counted_goto_next dest!: macro_Go)

lemma counted_jcc: "counted e (instr_cnt s) (instr_jcc c e s)"
  by (auto simp: instr_jcc_def Let_def intro!: counted_bind counted_goto_next counted_jmp dest!: macro_Go)

lemma counted_handlers:
  "counted e (instr_cnt s) (instr_finish e s)"
  "counted e (instr_cnt s) (instr_push e s)"
  "counted e (instr_cnt s) (instr_print e s)"
  "counted e (instr_cnt s) (instr_load e s)"
  "counted e (instr_cnt s) (instr_store e s)"
  "counted e (instr_cnt s) (instr_call e s)"
  "counted e (instr_cnt s) (instr_ret e s)"
  "counted e (instr_cnt s) (instr_prolog e s)"
  "counted e (instr_cnt s) (instr_epilog e s)"
  "counted e (instr_cnt s) (instr_argload e s)"
  by (auto simp: counted_def [of _ _ "Outro _"] instr_finish_def instr_push_def instr_print_def instr_load_def instr_store_def
      instr_call_def instr_ret_def instr_prolog_def instr_epilog_def instr_argload_def Let_def ins_stack_def
      intro!: counted_bind counted_goto_next counted_jump_to dest!: macro_Go)

lemma counted_step: "counted e (instr_cnt s) (jmp_through_table e s)"
proof (cases "decode (extr_next_instr s)")
  case None
  then show ?thesis by (auto simp: jmp_through_table_def decode_def Let_def split: if_splits)
next
  case (Some i)
  then have "jmp_through_table e s = (instr_table ! instr_index i) e s"
    unfolding decode_index by (simp add: jmp_through_table_def leD)
  also have "counted e (instr_cnt s) \<dots>"
    unfolding table_entry
    by (cases i; simp only: instr_type.case)
      (simp_all add: counted_handlers counted_arith counted_divmod counted_jcc counted_jmp counted_goto_next
        instr_nop_def instr_add_def instr_sub_def instr_mul_def instr_div_def instr_mod_def
        instr_jeq_def instr_jne_def instr_jl_def instr_jle_def instr_jg_def instr_jge_def)
  finally show ?thesis .
qed

section \<open>A cycle\<close>

definition plain_list :: "block_fun \<Rightarrow> line list \<Rightarrow> nat \<Rightarrow> u32 list" where
  "plain_list dec seg n = map (plain_word dec seg) [0..<n]"

lemma cached_list_clean: "cached_list dec seg k (decrypt_memory_cbc dec seg k) n = plain_list dec seg n"
  by (simp add: cached_list_def plain_list_def cached_word_clean)

text \<open>Between cycles all of the state is in memory.\<close>

definition rest_rel :: "asm_env \<Rightarrow> vm_env \<Rightarrow> machine \<Rightarrow> vm \<Rightarrow> bool" where
  "rest_rel e ve s a \<longleftrightarrow>
     env_rel e ve \<and> \<not> halt_flag s \<and> error_code s = 0 \<and>
     length (code_seg s) = length (ve_code ve) div 4 + 1 \<and>
     ve_code ve = plain_list (decblk e) (code_seg s) (length (ve_code ve)) \<and>
     instr_ptr s = int (vm_pc a) \<and> vm_pc a < length (ve_code ve) \<and>
     length (stack_seg s) = ve_stack_cap ve div 4 + 1 \<and>
     (\<exists>n. stack_ptr s = int n \<and> n < ve_stack_cap ve \<and> vm_stack a = plain_list (decblk e) (stack_seg s) (Suc n)) \<and>
     length (call_seg s) = ve_call_cap ve div 4 + 1 \<and>
     (\<exists>n. call_ptr s = int n \<and> n < ve_call_cap ve \<and> vm_call a = plain_list (decblk e) (call_seg s) (Suc n)) \<and>
     print_rel e (print_seg s) (print_ptr s) a"

lemma plain_list_eqI:
  "(\<And>i. i \<le> n \<Longrightarrow> plain_word dec seg' i = cached_word dec seg k l i) \<Longrightarrow>
   cached_list dec seg k l (Suc n) = plain_list dec seg' (Suc n)"
  by (simp add: cached_list_def plain_list_def del: upt_Suc)

lemma prologue_rel:
  assumes "rest_rel e ve s a"
  shows "\<exists>s'. cycle_prologue e s = Go s' \<and> vm_rel e ve s' a \<and> instr_cnt s' = 0"
proof -
  obtain n m where p: "instr_ptr s = int (vm_pc a)" "vm_pc a < length (ve_code ve)"
      "stack_ptr s = int n" "n < ve_stack_cap ve" "call_ptr s = int m" "m < ve_call_cap ve"
    and l: "length (code_seg s) = length (ve_code ve) div 4 + 1"
      "length (stack_seg s) = ve_stack_cap ve div 4 + 1" "length (call_seg s) = ve_call_cap ve div 4 + 1"
    and xs: "vm_stack a = plain_list (decblk e) (stack_seg s) (Suc n)"
      "vm_call a = plain_list (decblk e) (call_seg s) (Suc m)"
      "ve_code ve = plain_list (decblk e) (code_seg s) (length (ve_code ve))"
    and env: "env_rel e ve"
    using assms by (auto simp: rest_rel_def)
  have i: "vm_pc a div 4 + 1 < length (code_seg s)" "n div 4 + 1 < length (stack_seg s)"
      "m div 4 + 1 < length (call_seg s)"
    using p l env div4_less by (simp_all add: env_rel_def)
  let ?s = "s\<lparr>instr_cnt := 0, cur_instr_ptr := int (vm_pc a), cur_stack_ptr := int n, cur_call_ptr := int m,
     rinstr_line := decrypt_memory_cbc (decblk e) (code_seg s) (vm_pc a div 4),
     rstack_line := decrypt_memory_cbc (decblk e) (stack_seg s) (n div 4),
     rcall_line := decrypt_memory_cbc (decblk e) (call_seg s) (m div 4), cur_call_line := int (m div 4)\<rparr>"
  have "cycle_prologue e s = Go ?s"
    using i by (simp add: cycle_prologue_def fetch_instr_line_def fetch_stack_line_def force_call_line_fetch_def
        read_line_def p Let_def)
  moreover have code: "ve_code ve ! i = plain_word (decblk e) (code_seg s) i" if "i < length (ve_code ve)" for i
    by (subst xs(3)) (simp add: plain_list_def that)
  moreover have "vm_rel e ve ?s a"
    using assms p l code by (auto simp: rest_rel_def vm_rel_def code_rel_def stack_rel_def call_rel_def xs(1,2)
        cached_list_clean)
  ultimately show ?thesis by auto
qed

lemma outro_rel:
  assumes r: "vm_rel e ve (s\<lparr>halt_flag := h\<rparr>) a"
  shows "\<exists>s'. bispe_cycle_outro e s = Go s' \<and> rest_rel e ve (s'\<lparr>halt_flag := h\<rparr>) a \<and> halt_flag s' = halt_flag s"
proof -
  have env: "env_rel e ve" and inv: "\<And>b. decblk e (encblk e b) = b"
    using r by (auto simp: vm_rel_def env_rel_def)
  obtain n where n: "cur_stack_ptr s = int n" "n < ve_stack_cap ve"
      "vm_stack a = cached_list (decblk e) (stack_seg s) (n div 4) (rstack_line s) (Suc n)"
      "length (stack_seg s) = ve_stack_cap ve div 4 + 1"
    using r by (auto simp: vm_rel_def stack_rel_def)
  have n4: "n div 4 + 1 < length (stack_seg s)"
    using n env div4_less by (simp add: env_rel_def)
  obtain m k where m: "cur_call_ptr s = int m" "m < ve_call_cap ve" "cur_call_line s = int k" "k \<le> m div 4"
      "vm_call a = cached_list (decblk e) (call_seg s) k (rcall_line s) (Suc m)"
      "length (call_seg s) = ve_call_cap ve div 4 + 1"
    using r by (auto simp: vm_rel_def call_rel_def)
  have m4: "m div 4 + 1 < length (call_seg s)"
    using m env div4_less by (simp add: env_rel_def)
  let ?st = "encrypt_reg_cbc (encblk e) (rstack_line s) (n div 4) (stack_seg s)"
  let ?ca = "encrypt_reg_cbc_chain (encblk e) (decblk e) (rcall_line s) k (m div 4) (call_seg s)"
  let ?s = "s\<lparr>stack_seg := ?st, call_seg := ?ca, instr_ptr := cur_instr_ptr s, stack_ptr := int n, call_ptr := int m\<rparr>"
  have "bispe_cycle_outro e s = Go ?s"
    using n4 m4 m by (simp add: bispe_cycle_outro_def save_stack_line_def save_call_line_def write_line_def
        write_chain_def n(1))
  moreover have "vm_stack a = plain_list (decblk e) ?st (Suc n)"
    unfolding n(3)
    by (rule plain_list_eqI) (simp add: div_le_mono plain_word_write [of "decblk e" "encblk e", OF inv n4])
  moreover have "vm_call a = plain_list (decblk e) ?ca (Suc m)"
    unfolding m(5)
    by (rule plain_list_eqI) (simp add: div_le_mono plain_word_chain [of "decblk e" "encblk e", OF inv m(4) m4])
  moreover have "ve_code ve = plain_list (decblk e) (code_seg s) (length (ve_code ve))"
    using r by (intro nth_equalityI) (auto simp: vm_rel_def code_rel_def plain_list_def)
  ultimately show ?thesis
    using r n(2,4) m(2,6) by (auto simp: rest_rel_def vm_rel_def code_rel_def)
qed

section \<open>Runs\<close>

lemma vm_run_0 [simp]: "vm_run J ve 0 = Running"
  by (rule ext) simp

lemma vm_rel_halt: "vm_rel e ve s a \<Longrightarrow> vm_rel e ve (s\<lparr>halt_flag := False\<rparr>) a"
  by (simp add: vm_rel_def)

lemma rest_rel_halt: "rest_rel e ve (s\<lparr>halt_flag := False\<rparr>) a \<Longrightarrow> \<not> halt_flag s \<Longrightarrow> rest_rel e ve s a"
  by (simp add: rest_rel_def)

lemma vm_run_cong: "(\<And>i. i < n \<Longrightarrow> J i = J' i) \<Longrightarrow> vm_run J ve n a = vm_run J' ve n a"
proof (induction n arbitrary: J J' a)
  case (Suc n)
  have "vm_run (\<lambda>k. J (k + 1)) ve n = vm_run (\<lambda>k. J' (k + 1)) ve n"
    using Suc.prems by (intro ext Suc.IH) simp
  then show ?case using Suc.prems by simp
qed simp

lemma vm_run_add: "vm_run J ve (n + m) a = vbind (vm_run J ve n a) (vm_run (\<lambda>k. J (k + n)) ve m)"
proof (induction n arbitrary: J a)
  case (Suc n)
  have "vm_run (\<lambda>k. J (Suc k)) ve (n + m)
      = (\<lambda>b. vbind (vm_run (\<lambda>k. J (Suc k)) ve n b) (vm_run (\<lambda>k. J (Suc (k + n))) ve m))"
    by (rule ext) (simp add: Suc.IH)
  then show ?case by (simp add: vbind_assoc)
qed simp

lemma run_instrs_rel:
  assumes "vm_rel e ve s a" and "instr_cnt s + n \<le> instr_per_cycle e"
  shows "\<exists>J k. k \<le> n \<and> handler_rel e ve (run_instrs e n s) (vm_run J ve k a) \<and> (0 < n \<longrightarrow> 0 < k) \<and>
    (\<forall>s'. run_instrs e n s = Go s' \<longrightarrow> instr_cnt s + n < instr_per_cycle e \<or> n = 0) \<and>
    (\<forall>s'. run_instrs e n s = Outro s' \<longrightarrow> halt_flag s' \<or> instr_cnt s + k = instr_per_cycle e)"
  using assms
proof (induction n arbitrary: s a)
  case 0
  then show ?case
    by (intro exI [where x = "\<lambda>_. call_junk e s"] exI [where x = "0 :: nat"]) (auto simp: aref_def)
next
  case (Suc n)
  note step = step_rel [OF Suc.prems(1)] and cnt = counted_step [of e s]
  show ?case
  proof (cases "jmp_through_table e s")
    case (Go s1)
    then obtain a1 where a1: "vm_step (call_junk e s) ve a = Running a1" "vm_rel e ve s1 a1"
      using step by (auto elim: aref_GoE)
    have s1: "instr_cnt s1 = instr_cnt s + 1" "instr_cnt s + 1 \<noteq> instr_per_cycle e"
      using cnt Go by (simp_all add: counted_def)
    then obtain J k where J: "k \<le> n" "handler_rel e ve (run_instrs e n s1) (vm_run J ve k a1)"
      "\<forall>s'. run_instrs e n s1 = Go s' \<longrightarrow> instr_cnt s1 + n < instr_per_cycle e \<or> n = 0"
      "\<forall>s'. run_instrs e n s1 = Outro s' \<longrightarrow> halt_flag s' \<or> instr_cnt s1 + k = instr_per_cycle e"
      using Suc.IH [OF a1(2)] Suc.prems(2) by auto
    let ?J = "case_nat (call_junk e s) J"
    have "vm_run ?J ve (Suc k) a = vm_run J ve k a1" by (simp add: a1(1))
    then show ?thesis
      using J s1 Suc.prems(2) Go by (intro exI [where x = ?J] exI [where x = "Suc k"]) auto
  next
    case (Outro s1)
    then show ?thesis
      using step cnt by (intro exI [where x = "\<lambda>_. call_junk e s"] exI [where x = 1]) (auto simp: counted_def)
  next
    case (Error c s1)
    then show ?thesis
      using step by (intro exI [where x = "\<lambda>_. call_junk e s"] exI [where x = 1]) (auto simp: aref_def)
  next
    case Fault
    then show ?thesis
      using step by (intro exI [where x = "\<lambda>_. call_junk e s"] exI [where x = 1]) (auto simp: aref_def)
  qed
qed

text \<open>
  What a cycle may do, against \<open>k\<close> steps of the stack machine: all \<open>instr_per_cycle\<close> of
  them done and the state saved, finished, stopped by an error, or run out of the code.
\<close>

definition cycle_rel :: "asm_env \<Rightarrow> vm_env \<Rightarrow> nat \<Rightarrow> machine outcome \<Rightarrow> vm vres \<Rightarrow> bool" where
  "cycle_rel e ve k m r \<longleftrightarrow>
     (case m of
        Ret s \<Rightarrow>
          (case r of
             Running a \<Rightarrow> k = instr_per_cycle e \<and> rest_rel e ve s a
           | Halted a \<Rightarrow> halt_flag s \<and> rest_rel e ve (s\<lparr>halt_flag := False\<rparr>) a
           | Trap c a \<Rightarrow> halt_flag s \<and> error_code s = c \<and> print_seg s = vm_print a \<and>
               print_ptr s = int (vm_print_pos a)
           | Wild \<Rightarrow> False)
      | Segfault \<Rightarrow> r = Wild
      | _ \<Rightarrow> False)"

lemma cycle_entry_rel:
  assumes "rest_rel e ve s a" and ipc: "0 < instr_per_cycle e"
  shows "\<exists>J k. 0 < k \<and> k \<le> instr_per_cycle e \<and> cycle_rel e ve k (bispe_cycle_entry e s) (vm_run J ve k a)"
proof -
  let ?n = "instr_per_cycle e"
  obtain s1 where s1: "cycle_prologue e s = Go s1" "vm_rel e ve s1 a" "instr_cnt s1 = 0"
    using prologue_rel [OF assms(1)] by blast
  then obtain J k where J: "k \<le> ?n" "handler_rel e ve (run_instrs e ?n s1) (vm_run J ve k a)" "0 < k"
      "\<forall>s'. run_instrs e ?n s1 \<noteq> Go s'"
      "\<forall>s'. run_instrs e ?n s1 = Outro s' \<longrightarrow> halt_flag s' \<or> k = ?n"
    using run_instrs_rel [OF s1(2), of ?n] ipc by auto
  have entry: "bispe_cycle_entry e s = finish_cycle e (run_instrs e ?n s1)"
    by (simp add: bispe_cycle_entry_def s1(1))
  have "cycle_rel e ve k (bispe_cycle_entry e s) (vm_run J ve k a)"
  proof (cases "run_instrs e ?n s1")
    case (Go s2)
    then show ?thesis using J(4) by simp
  next
    case (Outro s2)
    then have "leaves_cycle e ve s2 (vm_run J ve k a)" using J(2) by (simp add: aref_def)
    then consider (run) a1 where "vm_run J ve k a = Running a1" "vm_rel e ve s2 a1"
      | (halt) a1 where "vm_run J ve k a = Halted a1" "halt_flag s2" "vm_rel e ve (s2\<lparr>halt_flag := False\<rparr>) a1"
      by (auto simp: leaves_cycle_def)
    then show ?thesis
    proof cases
      case run
      then have "\<not> halt_flag s2" by (simp add: vm_rel_def)
      then show ?thesis
        using Outro run(1) J(5) outro_rel [OF vm_rel_halt [OF run(2)]] unfolding entry
        by (auto simp: cycle_rel_def finish_cycle_def intro: rest_rel_halt)
    next
      case halt
      then show ?thesis
        using Outro outro_rel [OF halt(3)] unfolding entry
        by (auto simp: cycle_rel_def finish_cycle_def)
    qed
  next
    case (Error c s2)
    then show ?thesis
      using J(2) unfolding entry by (auto simp: aref_def cycle_rel_def finish_cycle_def set_error_def)
  next
    case Fault
    then show ?thesis
      using J(2) unfolding entry by (auto simp: aref_def cycle_rel_def finish_cycle_def)
  qed
  then show ?thesis using J(1,3) by blast
qed

text \<open>An error code is never 0, which is the return value of a run that finishes.\<close>

lemma vbind_Trap_iff: "vbind m f = Trap c a \<longleftrightarrow> m = Trap c a \<or> (\<exists>x. m = Running x \<and> f x = Trap c a)"
  by (cases m) auto

lemma vm_ops_trap:
  "vm_next ve a \<noteq> Trap 0 a'" "vm_push ve v a \<noteq> Trap 0 a'" "vm_pop a \<noteq> Trap 0 a'" "vm_slot d a \<noteq> Trap 0 a'"
  "vm_grow junk ve n a \<noteq> Trap 0 a'" "vm_shrink n a \<noteq> Trap 0 a'" "vm_target ve t a \<noteq> Trap 0 a'"
  by (simp_all add: vm_next_def vm_push_def vm_pop_def vm_slot_def vm_grow_def vm_shrink_def vm_target_def)

lemma vm_step_trap: "vm_step junk ve a \<noteq> Trap 0 a'"
proof (cases "decode (vm_word ve a)")
  case (Some i)
  have "vm_exec junk ve i a \<noteq> Trap 0 a'"
    by (cases i) (auto simp: vbind_Trap_iff vm_ops_trap vm_imm_def vm_arith_def vm_divmod_def vm_jmp_def
        vm_jcc_def vm_jump_def vm_load_def vm_store_def)
  then show ?thesis by (simp add: vm_step_def Some)
qed (simp add: vm_step_def)

lemma vm_run_trap: "vm_run J ve n a = Trap c a' \<Longrightarrow> c \<noteq> 0"
  by (induction n arbitrary: J a) (auto simp: vbind_Trap_iff vm_step_trap)

section \<open>The whole run\<close>

definition loop_rel :: "asm_env \<Rightarrow> vm_env \<Rightarrow> nat \<Rightarrow> nat \<Rightarrow> (nat \<times> machine) outcome \<Rightarrow> vm vres \<Rightarrow> bool" where
  "loop_rel e ve bound m out r \<longleftrightarrow>
     m \<le> bound \<and>
     (case out of
        Ret (k, s) \<Rightarrow> halt_flag s \<and>
          (case r of
             Halted a \<Rightarrow> rest_rel e ve (s\<lparr>halt_flag := False\<rparr>) a
           | Trap c a \<Rightarrow> error_code s = c \<and> print_seg s = vm_print a \<and> print_ptr s = int (vm_print_pos a)
           | _ \<Rightarrow> False)
      | No_Fuel \<Rightarrow> (\<exists>a. r = Running a) \<and> m = bound
      | Segfault \<Rightarrow> r = Wild
      | Exit_Failure \<Rightarrow> False)"

lemma loop_rel_later:
  "loop_rel e ve bound m out r \<Longrightarrow> loop_rel e ve (n + bound) (n + m) out r"
  by (cases out) (auto simp: loop_rel_def)

text \<open>
  What the cycles find above the call stack, as one sequence for the whole run: the cycles are
  chosen one after the other, from the states that the cycles before leave.
\<close>

definition next_states :: "asm_env \<Rightarrow> vm_env \<Rightarrow> (machine \<times> vm \<Rightarrow> nat \<Rightarrow> nat \<Rightarrow> u32) \<Rightarrow> machine \<times> vm \<Rightarrow> machine \<times> vm" where
  "next_states e ve J1 x =
     (case bispe_cycle_entry e (fst x) of
        Ret s1 \<Rightarrow> (case vm_run (J1 x) ve (instr_per_cycle e) (snd x) of Running a1 \<Rightarrow> (s1, a1) | _ \<Rightarrow> x)
      | _ \<Rightarrow> x)"

definition run_junk ::
  "asm_env \<Rightarrow> vm_env \<Rightarrow> (machine \<times> vm \<Rightarrow> nat \<Rightarrow> nat \<Rightarrow> u32) \<Rightarrow> machine \<times> vm \<Rightarrow> nat \<Rightarrow> nat \<Rightarrow> u32" where
  "run_junk e ve J1 x i = J1 ((next_states e ve J1 ^^ (i div instr_per_cycle e)) x) (i mod instr_per_cycle e)"

lemma run_junk_first: "i < instr_per_cycle e \<Longrightarrow> run_junk e ve J1 x i = J1 x i"
  by (simp add: run_junk_def)

lemma run_junk_later:
  "0 < instr_per_cycle e \<Longrightarrow> run_junk e ve J1 x (i + instr_per_cycle e) = run_junk e ve J1 (next_states e ve J1 x) i"
  by (simp add: run_junk_def funpow_swap1 div_add_self2)

lemma cycle_loop_rel:
  assumes "rest_rel e ve s a" and ipc: "0 < instr_per_cycle e"
    and J1: "\<And>s a. rest_rel e ve s a \<Longrightarrow> m1 (s, a) \<le> instr_per_cycle e \<and>
      cycle_rel e ve (m1 (s, a)) (bispe_cycle_entry e s) (vm_run (J1 (s, a)) ve (m1 (s, a)) a)"
  shows "\<exists>m. loop_rel e ve (fuel * instr_per_cycle e) m (cycle_loop e False stop k fuel s) (vm_run (run_junk e ve J1 (s, a)) ve m a)"
  using assms(1)
proof (induction fuel arbitrary: s a k)
  case 0
  then show ?case
    by (intro exI [where x = "0 :: nat"]) (simp add: loop_rel_def)
next
  case (Suc fuel)
  let ?n = "instr_per_cycle e" and ?m1 = "m1 (s, a)" and ?J = "run_junk e ve J1 (s, a)"
  have first: "vm_run ?J ve m a = vm_run (J1 (s, a)) ve m a" if "m \<le> ?n" for m
    using that by (intro vm_run_cong run_junk_first) simp
  have c: "?m1 \<le> ?n" "cycle_rel e ve ?m1 (bispe_cycle_entry e s) (vm_run ?J ve ?m1 a)"
    using J1 [OF Suc.prems] first [of ?m1] by simp_all
  have last: ?case if "loop_rel e ve (Suc fuel * ?n) ?m1 (cycle_loop e False stop k (Suc fuel) s) (vm_run ?J ve ?m1 a)"
    using that by blast
  have bound: "?m1 \<le> Suc fuel * ?n" using c(1) by simp
  show ?case
  proof (cases "bispe_cycle_entry e s")
    case (Ret s1)
    show ?thesis
    proof (cases "vm_run ?J ve ?m1 a")
      case (Running a1)
      then have s1: "?m1 = ?n" "rest_rel e ve s1 a1"
        using c(2) Ret by (simp_all add: cycle_rel_def)
      then have "\<not> halt_flag s1" by (simp add: rest_rel_def)
      then have loop: "cycle_loop e False stop k (Suc fuel) s = cycle_loop e False stop (k + 1) fuel s1"
        by (simp add: Ret)
      have "next_states e ve J1 (s, a) = (s1, a1)"
        using Ret Running first [of ?n] s1(1) by (simp add: next_states_def)
      then have later: "(\<lambda>i. ?J (i + ?n)) = run_junk e ve J1 (s1, a1)"
        using run_junk_later [OF ipc] by (simp add: fun_eq_iff)
      obtain m2 where "loop_rel e ve (fuel * ?n) m2 (cycle_loop e False stop (k + 1) fuel s1)
          (vm_run (run_junk e ve J1 (s1, a1)) ve m2 a1)"
        using Suc.IH [OF s1(2)] by blast
      moreover have "vm_run ?J ve (?n + m2) a = vm_run (run_junk e ve J1 (s1, a1)) ve m2 a1"
        using Running s1(1) by (simp add: vm_run_add later)
      ultimately have "loop_rel e ve (?n + fuel * ?n) (?n + m2) (cycle_loop e False stop k (Suc fuel) s)
          (vm_run ?J ve (?n + m2) a)"
        unfolding loop by (simp add: loop_rel_later)
      then show ?thesis unfolding mult_Suc by blast
    next
      case (Halted a1)
      then show ?thesis
        using c(2) Ret bound by (intro last) (auto simp: cycle_rel_def loop_rel_def)
    next
      case (Trap code a1)
      then show ?thesis
        using c(2) Ret bound by (intro last) (auto simp: cycle_rel_def loop_rel_def)
    next
      case Wild
      then show ?thesis using c(2) Ret by (simp add: cycle_rel_def)
    qed
  next
    case Segfault
    then show ?thesis
      using c(2) bound by (intro last) (auto simp: cycle_rel_def loop_rel_def)
  qed (use c(2) in \<open>auto simp: cycle_rel_def\<close>)
qed

lemma cycle_choice:
  assumes "0 < instr_per_cycle e"
  obtains J1 m1 where "\<And>s a. rest_rel e ve s a \<Longrightarrow> m1 (s, a) \<le> instr_per_cycle e \<and>
      cycle_rel e ve (m1 (s, a)) (bispe_cycle_entry e s) (vm_run (J1 (s, a)) ve (m1 (s, a)) a)"
proof -
  have "\<forall>x. \<exists>J m. rest_rel e ve (fst x) (snd x) \<longrightarrow> m \<le> instr_per_cycle e \<and>
      cycle_rel e ve m (bispe_cycle_entry e (fst x)) (vm_run J ve m (snd x))"
    using cycle_entry_rel [OF _ assms] by meson
  then obtain J1 m1 where "\<forall>x. rest_rel e ve (fst x) (snd x) \<longrightarrow> m1 x \<le> instr_per_cycle e \<and>
      cycle_rel e ve (m1 x) (bispe_cycle_entry e (fst x)) (vm_run (J1 x) ve (m1 x) (snd x))"
    by metis
  then show thesis by (intro that [of m1 J1]) auto
qed

text \<open>What \<open>start_interpreter\<close> finds: segments of the sizes in the globals, all in order.\<close>

definition loaded :: "asm_env \<Rightarrow> machine \<Rightarrow> bool" where
  "loaded e s \<longleftrightarrow>
     (\<forall>b. decblk e (encblk e b) = b) \<and> 0 < instr_per_cycle e \<and>
     16 dvd code_seg_size e \<and> 0 < code_seg_size e \<and> length (code_seg s) = code_seg_size e div 16 + 1 \<and>
     16 dvd stack_seg_size e \<and> 0 < stack_seg_size e \<and> length (stack_seg s) = stack_seg_size e div 16 + 1 \<and>
     16 dvd call_seg_size e \<and> 0 < call_seg_size e \<and> length (call_seg s) = call_seg_size e div 16 + 1 \<and>
     0 < print_seg_size e \<and> print_seg_size e = 4 * length (print_seg s)"

definition load_env :: "asm_env \<Rightarrow> machine \<Rightarrow> vm_env" where
  "load_env e s =
     \<lparr>ve_code = plain_list (decblk e) (code_seg s) (code_seg_size e div 4),
      ve_stack_cap = stack_seg_size e div 4, ve_call_cap = call_seg_size e div 4, ve_args = argv e\<rparr>"

definition load_vm :: "asm_env \<Rightarrow> machine \<Rightarrow> vm" where
  "load_vm e s =
     \<lparr>vm_pc = 0, vm_stack = plain_list (decblk e) (stack_seg s) 1, vm_call = plain_list (decblk e) (call_seg s) 1,
      vm_print = print_seg s, vm_print_pos = 0\<rparr>"

lemma plain_list_length [simp]: "length (plain_list dec seg n) = n"
  by (simp add: plain_list_def)

lemma loaded_rel:
  assumes "loaded e s"
  shows "rest_rel e (load_env e s) (bispe_reset_flags (reset_pointers s)) (load_vm e s)"
proof -
  have div: "n = 4 * (n div 4) \<and> 4 dvd n div 4" if "16 dvd n" for n :: nat
    using that by presburger
  have sizes: "16 dvd code_seg_size e" "16 dvd stack_seg_size e" "16 dvd call_seg_size e"
    using assms by (simp_all add: loaded_def)
  show ?thesis
    using assms sizes [THEN div] by (auto simp: loaded_def rest_rel_def load_env_def load_vm_def env_rel_def print_rel_def
        bispe_reset_flags_def reset_pointers_def div_mult2_eq [symmetric] intro!: exI [where x = "0 :: nat"])
qed

text \<open>The return value, the print buffer and its fill level, against the stack machine's result.\<close>

definition run_rel :: "nat \<Rightarrow> nat \<Rightarrow> (int \<times> machine) outcome \<Rightarrow> vm vres \<Rightarrow> bool" where
  "run_rel bound m out r \<longleftrightarrow>
     m \<le> bound \<and>
     (case out of
        Ret (c, s) \<Rightarrow>
          (case r of
             Halted a \<Rightarrow> c = 0 \<and> print_seg s = vm_print a \<and> bispe_get_print_count s = int (vm_print_pos a)
           | Trap code a \<Rightarrow> c = uint code \<and> c \<noteq> 0 \<and> print_seg s = vm_print a \<and>
               bispe_get_print_count s = int (vm_print_pos a)
           | _ \<Rightarrow> False)
      | No_Fuel \<Rightarrow> (\<exists>a. r = Running a) \<and> m = bound
      | Segfault \<Rightarrow> r = Wild
      | Exit_Failure \<Rightarrow> False)"

text \<open>One sequence of junk serves every number of cycles.\<close>

lemma start_interpreter_rel:
  assumes "loaded e s"
  shows "\<exists>J. \<forall>fuel. \<exists>m. run_rel (fuel * instr_per_cycle e) m (start_interpreter e False stop fuel s)
    (vm_run J (load_env e s) m (load_vm e s))"
proof -
  let ?s = "bispe_reset_flags (reset_pointers s)" and ?ve = "load_env e s" and ?a = "load_vm e s"
  have ipc: "0 < instr_per_cycle e" using assms by (simp add: loaded_def)
  obtain J1 m1 where J1: "\<And>s a. rest_rel e ?ve s a \<Longrightarrow> m1 (s, a) \<le> instr_per_cycle e \<and>
      cycle_rel e ?ve (m1 (s, a)) (bispe_cycle_entry e s) (vm_run (J1 (s, a)) ?ve (m1 (s, a)) a)"
    by (rule cycle_choice [OF ipc, of ?ve]) (rule that)
  define J where "J = run_junk e ?ve J1 (?s, ?a)"
  have "\<exists>m. run_rel (fuel * instr_per_cycle e) m (start_interpreter e False stop fuel s) (vm_run J ?ve m ?a)" for fuel
  proof -
    have "\<exists>m. loop_rel e ?ve (fuel * instr_per_cycle e) m (cycle_loop e False stop 0 fuel ?s) (vm_run J ?ve m ?a)"
      unfolding J_def by (rule cycle_loop_rel [OF loaded_rel [OF assms] ipc J1])
    then obtain m where l: "loop_rel e ?ve (fuel * instr_per_cycle e) m (cycle_loop e False stop 0 fuel ?s) (vm_run J ?ve m ?a)" ..
    have "run_rel (fuel * instr_per_cycle e) m (start_interpreter e False stop fuel s) (vm_run J ?ve m ?a)"
    proof (cases "cycle_loop e False stop 0 fuel ?s")
      case (Ret p)
      then obtain k s1 where p: "cycle_loop e False stop 0 fuel ?s = Ret (k, s1)" by (cases p) auto
      show ?thesis
      proof (cases "vm_run J ?ve m ?a")
        case (Halted a1)
        then show ?thesis
          using l p by (auto simp: start_interpreter_def loop_rel_def run_rel_def rest_rel_def print_rel_def
              bispe_get_print_count_def)
      next
        case (Trap c a1)
        then show ?thesis
          using l p vm_run_trap [OF Trap] by (auto simp: uint_0_iff start_interpreter_def loop_rel_def run_rel_def
              bispe_get_print_count_def)
      qed (use l p in \<open>simp_all add: loop_rel_def\<close>)
    qed (use l in \<open>auto simp: start_interpreter_def loop_rel_def run_rel_def\<close>)
    then show ?thesis by blast
  qed
  then show ?thesis by blast
qed

section \<open>Properties\<close>

text \<open>A small program, encrypted by xor with a constant: push 42, print it, finish.\<close>

definition sample_key :: line where
  "sample_key = Line 0x11111111 0x22222222 0x33333333 0x44444444"

definition sample_env :: asm_env where
  "sample_env =
     \<lparr>encblk = line_xor sample_key, decblk = line_xor sample_key, code_seg_size = 16, stack_seg_size = 32,
      call_seg_size = 16, print_seg_size = 8, argv = [], instr_per_cycle = 2\<rparr>"

definition sample_machine :: machine where
  "sample_machine =
     \<lparr>code_seg = [Line 7 7 7 7, line_xor sample_key (line_xor (Line 2 42 3 1) (Line 7 7 7 7))],
      stack_seg = [Line 1 2 3 4, Line 0 0 0 0, Line 0 0 0 0], call_seg = [Line 5 6 7 8, Line 0 0 0 0],
      print_seg = [0, 0], instr_ptr = 0, stack_ptr = 0, call_ptr = 0, print_ptr = 0,
      halt_flag = True, error_code = 9, cur_instr_ptr = 0, cur_stack_ptr = 0, cur_call_ptr = 0,
      cur_call_line = 0, rinstr_line = Line 0 0 0 0, rstack_line = Line 0 0 0 0, rcall_line = Line 0 0 0 0,
      instr_cnt = 0\<rparr>"

lemma sample_loaded: "loaded sample_env sample_machine"
proof -
  have "line_xor sample_key (line_xor sample_key b) = b" for b
    by (cases b) (simp add: line_xor_def flip: xor.assoc)
  then show ?thesis by (simp add: loaded_def sample_env_def sample_machine_def)
qed

definition sample_started :: machine where
  "sample_started =
     (case cycle_prologue sample_env (bispe_reset_flags (reset_pointers sample_machine)) of Go s \<Rightarrow> s | _ \<Rightarrow> sample_machine)"

lemma sample_started_rel:
  "vm_rel sample_env (load_env sample_env sample_machine) sample_started (load_vm sample_env sample_machine)"
  using prologue_rel [OF loaded_rel [OF sample_loaded]] by (auto simp: sample_started_def)

text \<open>C2 Refinement of one instruction: on related states, dispatching and executing an
  instruction on the encrypted, line-cached machine does what the stack machine does, for every
  opcode word and every outcome: it goes on or ends the cycle in related states, finishes, stops
  with the same error code, or has run out of the code exactly when the stack machine has.\<close>

theorem step_refines:
  assumes "vm_rel e ve s a"
  shows "handler_rel e ve (jmp_through_table e s) (vm_step (call_junk e s) ve a)"
  using assms by (rule step_rel)

theorem step_refines_witness:
  "handler_rel sample_env (load_env sample_env sample_machine) (jmp_through_table sample_env sample_started)
     (vm_step (call_junk sample_env sample_started) (load_env sample_env sample_machine)
       (load_vm sample_env sample_machine))"
  by (rule step_refines [OF sample_started_rel])

text \<open>C4 A cycle, from \<open>bispe_cycle_entry\<close> to its return, is between 1 and
  \<open>instr_per_cycle\<close> steps of the stack machine, and exactly \<open>instr_per_cycle\<close> when the
  program goes on; then everything is back in the encrypted segments and the next cycle can
  load it. A finished or failed cycle sets the halt flag and the error code.\<close>

theorem cycle_refines:
  assumes "rest_rel e ve s a" and "0 < instr_per_cycle e"
  shows "\<exists>J k. 0 < k \<and> k \<le> instr_per_cycle e \<and> cycle_rel e ve k (bispe_cycle_entry e s) (vm_run J ve k a)"
  using assms by (rule cycle_entry_rel)

theorem cycle_refines_witness:
  "\<exists>J k. 0 < k \<and> k \<le> instr_per_cycle sample_env \<and>
     cycle_rel sample_env (load_env sample_env sample_machine) k
       (bispe_cycle_entry sample_env (bispe_reset_flags (reset_pointers sample_machine)))
       (vm_run J (load_env sample_env sample_machine) k (load_vm sample_env sample_machine))"
  by (rule cycle_refines [OF loaded_rel [OF sample_loaded]]) (simp add: sample_env_def)

text \<open>C3 The whole run: \<open>start_interpreter\<close> on loaded segments returns 0 exactly for a run
  of the stack machine that finishes and the error code for one that is stopped, with the same
  print buffer and fill level; if it has not returned after \<open>fuel\<close> cycles, then the stack
  machine has made all of these cycles' steps and is still running. It is one run of the stack
  machine, whatever the number of cycles.\<close>

theorem interpreter_refines:
  assumes "loaded e s"
  shows "\<exists>J. \<forall>fuel. \<exists>m. run_rel (fuel * instr_per_cycle e) m (start_interpreter e False stop fuel s)
    (vm_run J (load_env e s) m (load_vm e s))"
  using assms by (rule start_interpreter_rel)

theorem interpreter_refines_witness:
  "\<exists>J. \<forall>fuel. \<exists>m. run_rel (fuel * instr_per_cycle sample_env) m
     (start_interpreter sample_env False (\<lambda>_. False) fuel sample_machine)
     (vm_run J (load_env sample_env sample_machine) m (load_vm sample_env sample_machine))"
  by (rule interpreter_refines [OF sample_loaded])

text \<open>The sample program, in cycles of two instructions, returns 0 with 42 as the only
  element of the print buffer.\<close>

lemma sample_run:
  "(case start_interpreter sample_env False (\<lambda>_. False) 3 sample_machine of
      Ret (c, s) \<Rightarrow> c = 0 \<and> print_seg s = [42, 0] \<and> bispe_get_print_count s = 1
    | _ \<Rightarrow> False)"
  by code_simp

end
