(* ===== verification/Program_Run.thy ===== *)
theory Program_Run
  imports Program Vm_Cycles
begin

text \<open>
  Runs of compiled programs: the entry code, the stack machine from the first instruction to
  FINISH, and the encrypted, cached machine of the interpreter core.
\<close>

section \<open>The entry code\<close>

text \<open>An argument that the caller of the program gave is stored in its slot.\<close>

lemma exec_argload:
  assumes "code_in (ve_code ve) pc [elem INSTR_ARGLOAD (of_nat i)]" "i < 2 ^ 30" "i < length C" "i < length (ve_args ve)"
    "Q (vm_at (pc + 2) S (set_slot C i (ve_args ve ! i)) p)"
  shows "leads ve overflow Q (vm_at pc S C p)"
proof -
  have "uint (of_nat i :: u32) = int i" "unat (of_nat i :: u32) = i"
    using assms(2) by (simp_all add: unsigned_of_nat take_bit_nat_eq_self flip: of_nat_take_bit)
  then show ?thesis
    using code_in_elem [OF assms(1)] assms(2-5)
    by (intro leads_exec [OF assms(1)])
      (auto simp: vm_imm_def vm_store_def vm_slot_def displacement_of_nat set_slot_def)
qed

lemma exec_argloads:
  assumes "code_in (ve_code ve) pc (map (\<lambda>i. elem INSTR_ARGLOAD (of_nat i)) [0..<n])"
    and "n < 2 ^ 30" "n < length C" "n \<le> length (ve_args ve)"
    and "\<And>C'. length C' = length C \<Longrightarrow> (\<forall>i < n. slot C' i = ve_args ve ! i) \<Longrightarrow>
      Q (vm_at (pc + code_size (map (\<lambda>i. elem INSTR_ARGLOAD (of_nat i)) [0..<n])) S C' p)"
  shows "leads ve overflow Q (vm_at pc S C p)"
  using assms
proof (induction n arbitrary: Q)
  case 0
  then show ?case by (auto intro: leads.here)
next
  case (Suc n)
  let ?code = "map (\<lambda>i. elem INSTR_ARGLOAD (of_nat i)) [0..<n]"
  have codes: "code_in (ve_code ve) pc ?code" "code_in (ve_code ve) (pc + code_size ?code) [elem INSTR_ARGLOAD (of_nat n)]"
    using Suc.prems(1) by (simp_all add: code_in_append)
  have last: "leads ve overflow Q (vm_at (pc + code_size ?code) S C1 p)"
    if C1: "length C1 = length C" "\<forall>i < n. slot C1 i = ve_args ve ! i" for C1
  proof (rule exec_argload [OF codes(2)])
    show "Q (vm_at (pc + code_size ?code + 2) S (set_slot C1 n (ve_args ve ! n)) p)"
      using Suc.prems(5) [of "set_slot C1 n (ve_args ve ! n)"] C1 Suc.prems(3)
      by (auto simp: slot_set_slot less_Suc_eq add.assoc) (auto simp: set_slot_def)
  qed (use Suc.prems C1 in auto)
  have "leads ve overflow (leads ve overflow Q) (vm_at pc S C p)"
    by (rule Suc.IH [OF codes(1)]) (use Suc.prems last in auto)
  then show ?case by (rule leads_trans) auto
qed

lemma exec_entry:
  assumes code: "code_in (ve_code ve) 0 (entry_code n (of_nat (addr ''main'')))" and n: "n < 2 ^ 30" "n \<le> length (ve_args ve)"
    and works: "call_works ve p0 call addr ''main'' n" and W: "length (ve_code ve) < 2 ^ 32" and S: "S \<noteq> []" and C: "C \<noteq> []"
  shows "achieves ve p0 (call ''main'' (take n (ve_args ve)) [])
    (\<lambda>(r, out) b. \<exists>pc C'. b = vm_at pc (S @ opt_word r) C' (printed p0 out) \<and> code_in (ve_code ve) pc [elem INSTR_FINISH 0])
    (vm_at 0 S C p0)"
    (is "achieves ve p0 ?r ?Q _")
proof -
  define prolog where "prolog = (if n > 0 then [elem INSTR_PROLOG (of_nat n)] else [])"
  let ?loads = "map (\<lambda>i. elem INSTR_ARGLOAD (of_nat i)) [0..<n]"
  let ?b = "code_size prolog"
  let ?pc = "?b + code_size ?loads"
  have codes: "code_in (ve_code ve) 0 prolog" "code_in (ve_code ve) ?b ?loads"
      "code_in (ve_code ve) ?pc [elem INSTR_CALL (of_nat (addr ''main''))]" "code_in (ve_code ve) (?pc + 2) [elem INSTR_FINISH 0]"
    using code code_in_Cons [of _ _ "elem INSTR_CALL (of_nat (addr ''main''))" "[elem INSTR_FINISH 0]"]
    unfolding entry_code_def prolog_def [symmetric] by (simp_all add: code_in_append add.assoc)
  have t: "?pc + 2 < length (ve_code ve)" using code_in_end [OF codes(3)] by simp
  have called: "achieves ve p0 ?r ?Q (vm_at ?pc S C1 p0)"
    if C1: "n < length C1" "\<forall>i < n. slot C1 i = ve_args ve ! i" for C1
  proof (rule achieves_after, rule exec_call [OF codes(3) _ W])
    show "addr ''main'' < length (ve_code ve)" using works by (simp add: call_works_def)
    have "achieves ve p0 ?r (\<lambda>(r, out') b. \<exists>C'. b = vm_at (?pc + 2) (S @ opt_word r) C' (printed p0 out') \<and> length C' = length C1 \<and>
         take (length C1 - n) C' = take (length C1 - n) C1) (vm_at (addr ''main'') S (C1 @ [of_nat (?pc + 2)]) (printed p0 []))"
    proof -
      have "length (take n (ve_args ve)) = n" "\<forall>i < n. slot C1 i = take n (ve_args ve) ! i"
        using n(2) C1(2) by simp_all
      then show ?thesis using works S t C1(1) unfolding call_works_def by blast
    qed
    then show "achieves ve p0 ?r ?Q (vm_at (addr ''main'') S (C1 @ [of_nat (?pc + 2)]) p0)"
      by (simp only: printed_simps) (rule achieves_mono, assumption, use codes(4) in auto)
  qed
  have loaded: "achieves ve p0 ?r ?Q (vm_at ?b S C1 p0)" if "n < length C1" for C1
    by (rule achieves_after, rule exec_argloads [OF codes(2) n(1) that n(2)]) (use called that in auto)
  show ?thesis
  proof (cases "n > 0")
    case True
    then have pc: "?b = 0 + 2" "code_in (ve_code ve) 0 [elem INSTR_PROLOG (of_nat n)]"
      using codes(1) by (simp_all add: prolog_def)
    show ?thesis
      by (rule achieves_after, rule exec_prolog [OF pc(2) n(1)])
        (use loaded pc(1) C in \<open>auto simp del: add_2_eq_Suc' add_2_eq_Suc\<close>)
  next
    case False
    then show ?thesis using loaded [of C] C by (simp add: prolog_def)
  qed
qed

section \<open>Runs of a program\<close>

text \<open>How a run must end, given the result of the source program.\<close>

fun run_result :: "printer \<Rightarrow> (u32 option \<times> u32 list) sres \<Rightarrow> vm vres \<Rightarrow> bool" where
  "run_result p0 (Ok (v, out)) r =
     (case r of Halted b \<Rightarrow> (vm_print b, vm_print_pos b) = printed p0 out | Trap c b \<Rightarrow> overflow c b | _ \<Rightarrow> False)"
| "run_result p0 (Div_By_Zero out) r = (case r of Trap c b \<Rightarrow> div_stop p0 out c b | _ \<Rightarrow> False)"
| "run_result p0 Stuck r = True"
| "run_result p0 Timeout r = True"

lemma achieves_run:
  assumes "achieves ve p0 res
    (\<lambda>(v, out) b. \<exists>pc S C. b = vm_at pc S C (printed p0 out) \<and> code_in (ve_code ve) pc [elem INSTR_FINISH 0]) a"
  shows "\<exists>k. run_result p0 res (vm_run junk ve k a)"
proof (cases res)
  case (Ok x)
  then obtain v out where res: "res = Ok (v, out)" by (cases x) auto
  with assms have "leads ve overflow
      (\<lambda>b. \<exists>pc S C. b = vm_at pc S C (printed p0 out) \<and> code_in (ve_code ve) pc [elem INSTR_FINISH 0]) a" by simp
  from leads_run [OF this, of junk] show ?thesis
  proof (elim exE disjE conjE)
    fix k b pc S C
    assume "vm_run junk ve k a = Running b" "b = vm_at pc S C (printed p0 out)" "code_in (ve_code ve) pc [elem INSTR_FINISH 0]"
    then have "vm_run junk ve (k + 1) a = Halted (vm_at pc S C (printed p0 out))"
      unfolding vm_run_add by (simp add: exec_finish)
    then show ?thesis using res by (intro exI [of _ "k + 1"]) simp
  next
    fix k c b
    assume "vm_run junk ve k a = Trap c b" "overflow c b"
    then show ?thesis using res by (intro exI [of _ k]) simp
  qed
next
  case (Div_By_Zero out)
  with assms have "leads ve (div_stop p0 out) (\<lambda>b. False) a" by simp
  from leads_run [OF this, of junk] obtain k c b where "vm_run junk ve k a = Trap c b" "div_stop p0 out c b" by blast
  then show ?thesis using Div_By_Zero by (intro exI [of _ k]) simp
qed simp_all

lemma program_run:
  assumes "symbols_ok syms" "decls_ok syms {} ds"
    and main: "get_func ''main'' syms = Some m" "''main'' \<in> fst ` set (decl_funcs ds)"
    and gen: "generate_code (head_node ds) syms junk0 = Ret (Some code)"
    and W: "code_in (ve_code ve) 0 code" "length (ve_code ve) < 2 ^ 32"
    and args: "fi_arg_count m \<le> length (ve_args ve)" and a: "vm_pc a = 0" "vm_stack a \<noteq> []" "vm_call a \<noteq> []"
  shows "\<exists>k. run_result (vm_print a, vm_print_pos a)
    (call_func (program_of ds) n ''main'' (take (fi_arg_count m) (ve_args ve)) []) (vm_run junk ve k a)"
proof -
  let ?p = "(vm_print a, vm_print_pos a)" and ?call = "call_func (program_of ds) n"
  obtain addr un where linked: "linked (ve_code ve) (program_of ds) addr un"
    and entry: "code_in (ve_code ve) 0 (entry_code (fi_arg_count m) (of_nat (addr ''main'')))"
    using linked_program [OF assms(1) main assms(2), of junk0] gen W by auto
  obtain fd where fd: "program_of ds ''main'' = Some fd" "length (fd_params fd) = fi_arg_count m"
  proof -
    have "\<forall>(f, fd) \<in> set (decl_funcs ds). program_of ds f = Some fd"
      using decls_ok_names [OF assms(2)] by (auto simp: program_of_def)
    from decls_ok_defined [OF assms(2) this main(2)] show thesis
      using main(1) that by (auto simp: defined_as_def)
  qed
  have "fi_arg_count m < 2 ^ 30"
    using assms(2) main by (rule decls_ok_args)
  moreover have "call_works ve ?p ?call addr ''main'' (fi_arg_count m)"
    using call_works_linked [OF linked fd(1)] fd(2) by simp
  ultimately have "achieves ve ?p (?call ''main'' (take (fi_arg_count m) (ve_args ve)) [])
    (\<lambda>(r, out) b. \<exists>pc C'. b = vm_at pc (vm_stack a @ opt_word r) C' (printed ?p out) \<and> code_in (ve_code ve) pc [elem INSTR_FINISH 0])
    (vm_at 0 (vm_stack a) (vm_call a) ?p)"
    using entry args W(2) a(2,3) by (intro exec_entry)
  then have "achieves ve ?p (?call ''main'' (take (fi_arg_count m) (ve_args ve)) [])
    (\<lambda>(r, out) b. \<exists>pc S C. b = vm_at pc S C (printed ?p out) \<and> code_in (ve_code ve) pc [elem INSTR_FINISH 0])
    (vm_at 0 (vm_stack a) (vm_call a) ?p)"
    by (rule achieves_mono) auto
  moreover have "vm_at 0 (vm_stack a) (vm_call a) ?p = a" using a(1) by (simp add: vm_at_def)
  ultimately show ?thesis by (intro achieves_run) simp
qed

section \<open>On the interpreter's machine\<close>

lemma vm_run_stops:
  "vm_run J ve k a = r \<Longrightarrow> \<not> (\<exists>b. r = Running b) \<Longrightarrow> k \<le> m \<Longrightarrow> vm_run J ve m a = r"
  using vm_run_add [of J ve k "m - k" a] by (cases r) auto

definition is_overflow :: "int \<Rightarrow> bool" where
  "is_overflow c \<longleftrightarrow> c = uint ERR_STACK_OVERFLOW \<or> c = uint ERR_CALL_OVERFLOW"

definition printed_on :: "printer \<Rightarrow> u32 list \<Rightarrow> machine \<Rightarrow> bool" where
  "printed_on p0 out s \<longleftrightarrow> (print_seg s, nat (bispe_get_print_count s)) = printed p0 out"

text \<open>
  What \<open>start_interpreter\<close> must return: 0 and the output of the program; or the code of a
  division by zero and the output before it; or the code of a stack that was too small.
\<close>

fun machine_result :: "printer \<Rightarrow> (u32 option \<times> u32 list) sres \<Rightarrow> (int \<times> machine) outcome \<Rightarrow> bool" where
  "machine_result p0 (Ok (v, out)) (Ret (c, s)) = (is_overflow c \<or> (c = 0 \<and> printed_on p0 out s))"
| "machine_result p0 (Div_By_Zero out) (Ret (c, s)) =
     (is_overflow c \<or> (c = uint ERR_DIV_ZERO \<and> printed_on p0 out s))"
| "machine_result p0 _ _ = False"

definition defined_result :: "'a sres \<Rightarrow> bool" where
  "defined_result res \<longleftrightarrow> res \<noteq> Stuck \<and> res \<noteq> Timeout"

lemma machine_ends:
  assumes run: "run_result p0 res (vm_run J ve k a)" and res: "defined_result res" and n: "0 < n" and fuel: "k < fuel"
    and rel: "\<exists>m. run_rel (fuel * n) m out (vm_run J ve m a)"
  shows "machine_result p0 res out"
proof -
  obtain m where m: "run_rel (fuel * n) m out (vm_run J ve m a)" using rel by blast
  have stopped: "\<not> (\<exists>b. vm_run J ve k a = Running b)"
    using run res by (cases "(p0, res, vm_run J ve k a)" rule: run_result.cases) (auto simp: defined_result_def)
  have "fuel \<le> fuel * n" using n by (cases n) auto
  then have "k < fuel * n" using fuel by linarith
  then have "m < k \<Longrightarrow> \<not> (\<exists>b. vm_run J ve m a = Running b)"
    using m by (auto simp: run_rel_def split: outcome.splits)
  then have same: "vm_run J ve m a = vm_run J ve k a"
    using vm_run_stops [OF refl stopped, of m] vm_run_stops [of J ve m a, OF refl _ less_imp_le] by (metis not_less)
  show ?thesis
    using res
  proof (cases res)
    case (Ok x)
    then show ?thesis
      using run m unfolding same
      by (cases x; cases out) (auto simp: run_rel_def overflow_def is_overflow_def printed_on_def split: vres.splits)
  next
    case (Div_By_Zero o1)
    then show ?thesis
      using run m unfolding same
      by (cases out) (auto simp: run_rel_def overflow_def is_overflow_def printed_on_def div_stop_def split: vres.splits)
  qed (simp_all add: defined_result_def)
qed

lemma machine_runs_program:
  assumes loaded: "loaded e s" and syms: "symbols_ok syms" "decls_ok syms {} ds"
    and main: "get_func ''main'' syms = Some m" "''main'' \<in> fst ` set (decl_funcs ds)"
    and gen: "generate_code (head_node ds) syms junk = Ret (Some code)"
    and W: "code_in (plain_list (decblk e) (code_seg s) (code_seg_size e div 4)) 0 code" "code_seg_size e div 4 < 2 ^ 32"
    and args: "fi_arg_count m \<le> length (argv e)"
    and res: "defined_result (call_func (program_of ds) n ''main'' (take (fi_arg_count m) (argv e)) [])"
  shows "\<exists>fuel0. \<forall>fuel > fuel0. machine_result (print_seg s, 0)
    (call_func (program_of ds) n ''main'' (take (fi_arg_count m) (argv e)) []) (start_interpreter e False stop fuel s)"
proof -
  let ?ve = "load_env e s" and ?a = "load_vm e s"
  obtain J where J: "\<And>fuel. \<exists>m. run_rel (fuel * instr_per_cycle e) m (start_interpreter e False stop fuel s) (vm_run J ?ve m ?a)"
    using start_interpreter_rel [OF loaded] by blast
  have "vm_stack ?a \<noteq> []" "vm_call ?a \<noteq> []"
    using plain_list_length [of "decblk e" "stack_seg s" 1] plain_list_length [of "decblk e" "call_seg s" 1]
    by (auto simp: load_vm_def simp del: plain_list_length)
  then have "\<exists>k. run_result (vm_print ?a, vm_print_pos ?a)
      (call_func (program_of ds) n ''main'' (take (fi_arg_count m) (ve_args ?ve)) []) (vm_run J ?ve k ?a)"
    using W args by (intro program_run [OF syms main gen]) (simp_all add: load_env_def load_vm_def)
  then obtain k where "run_result (print_seg s, 0)
      (call_func (program_of ds) n ''main'' (take (fi_arg_count m) (argv e)) []) (vm_run J ?ve k ?a)"
    by (auto simp: load_env_def load_vm_def)
  then show ?thesis
    using machine_ends [OF _ res _ _ J] loaded by (intro exI [of _ k]) (auto simp: loaded_def)
qed

end
