(* ===== verification/Sensible.thy ===== *)
theory Sensible
  imports Parser_Program Program_Run
begin

text \<open>
  The programs that the compiler translates correctly: a condition on the source alone, and the
  proof that a parse of such a program leaves a symbol table that suits it.
\<close>

section \<open>A condition on the source\<close>

text \<open>
  A definition repeats the type and the parameters of its prototype; what is called has a
  definition before, or is being defined; a call as a statement is of a void function; the code of
  a body is not empty, and when it ends in a return, then no branch jumps behind that.
\<close>

type_synonym protos = "string \<Rightarrow> (dtype \<times> string list) option"

fun sensible :: "protos \<Rightarrow> (string \<Rightarrow> dtype option) \<Rightarrow> decl list \<Rightarrow> bool" where
  "sensible P D [] = True"
| "sensible P D (Proto_Decl ty f ps # ds) = sensible (P(f \<mapsto> (ty, ps))) D ds"
| "sensible P D (Func_Decl ty f ps is # ds) =
     ((P f = None \<or> P f = Some (ty, ps)) \<and>
      wf_items UNIV (\<lambda>g n. (D(f \<mapsto> ty)) g \<noteq> None) (\<lambda>g n. (D(f \<mapsto> ty)) g = Some DTYPE_VOID) is \<and>
      items_end is \<noteq> None \<and> closed_body is \<and> sensible P (D(f \<mapsto> ty)) ds)"

definition sensible_program :: "decl list \<Rightarrow> bool" where
  "sensible_program ds \<longleftrightarrow> sensible Map.empty Map.empty ds \<and> list_ex (\<lambda>(f, fd). f = ''main'') (decl_funcs ds)"

definition small_frames :: "symbols \<Rightarrow> decl list \<Rightarrow> bool" where
  "small_frames syms ds \<longleftrightarrow> list_all (\<lambda>(f, fd). case get_func f syms of
     None \<Rightarrow> False | Some h \<Rightarrow> frame_size h + fi_arg_count h < 2 ^ 30) (decl_funcs ds)"

section \<open>The table of a sensible program\<close>

text \<open>The entry of a function that has been defined does not change any more.\<close>

lemma defined_stays:
  assumes "decl_steps s ds s'" "get_func g s = Some h" "\<not> fi_prototyped h"
  shows "get_func g s' = Some h"
proof -
  have one: "get_func g s1 = Some h" if "decl_step s d s1" "get_func g s = Some h" for s d s1
  proof (cases "(s, d, s1)" rule: decl_step.cases)
    case (1 _ ty f ps)
    then show ?thesis using that by (cases "f = g") (auto simp: declared_by_def)
  next
    case (2 _ ty f ps "is")
    then show ?thesis using that assms(3) by (cases "f = g") (auto simp: defined_by_def)
  qed
  show ?thesis
    using assms(1,2) by (induction ds arbitrary: s) (auto dest: one)
qed

fun entry_ok :: "dtype option \<Rightarrow> (dtype \<times> string list) option \<Rightarrow> func_info option \<Rightarrow> bool" where
  "entry_ok (Some ty) p e = (\<exists>h. e = Some h \<and> \<not> fi_prototyped h \<and> fi_ret_type h = ty)"
| "entry_ok None None e = (e = None)"
| "entry_ok None (Some (ty, ps)) e = (\<exists>h. e = Some h \<and> fi_prototyped h \<and> fi_ret_type h = ty \<and> args_entered h ps)"

definition table_of :: "protos \<Rightarrow> (string \<Rightarrow> dtype option) \<Rightarrow> symbols \<Rightarrow> bool" where
  "table_of P D s \<longleftrightarrow> (\<forall>f. entry_ok (D f) (P f) (get_func f s))"

lemma table_ofD: "table_of P D s \<Longrightarrow> entry_ok (D f) (P f) (get_func f s)"
  by (simp add: table_of_def)

lemma table_of_proto:
  assumes "table_of P D s" "declared_by s ty f ps s'"
  shows "table_of (P(f \<mapsto> (ty, ps))) D s'"
proof -
  have "D f = None" using table_ofD [OF assms(1), of f] assms(2) by (cases "D f") (auto simp: declared_by_def)
  then show ?thesis
    using assms unfolding table_of_def declared_by_def by auto
qed

text \<open>What a definition finds and leaves.\<close>

lemma table_of_func:
  assumes t: "table_of P D s" and d: "defined_by s ty f ps is calls s'" and P: "P f = None \<or> P f = Some (ty, ps)"
  shows "D f = None" "table_of P (D(f \<mapsto> ty)) s'"
    and "\<exists>h. get_func f s' = Some h \<and> \<not> fi_prototyped h \<and> fi_ret_type h = ty \<and> frame_laid_out h ps \<and>
      fi_max_call_size h = calls \<and> wf_items (dom (var_pos h)) any_call any_call is \<and>
      (\<forall>h0. get_func f s = Some h0 \<longrightarrow> fi_arg_count h0 = fi_arg_count h)"
proof -
  obtain h where h: "get_func f s' = Some h" "\<not> fi_prototyped h" "wf_items (dom (var_pos h)) any_call any_call is"
      "fi_max_call_size h = calls"
    and old: "case get_func f s of None \<Rightarrow> fi_ret_type h = ty \<and> frame_laid_out h ps
      | Some h0 \<Rightarrow> fi_prototyped h0 \<and> fi_ret_type h = fi_ret_type h0 \<and> (args_entered h0 ps \<longrightarrow> frame_laid_out h ps)"
    and others: "\<forall>g. g \<noteq> f \<longrightarrow> get_func g s' = get_func g s"
    using d by (auto simp: defined_by_def)
  show new: "D f = None"
    using table_ofD [OF t, of f] old by (cases "D f") auto
  have P': "entry_ok None (P f) (get_func f s)"
    using table_ofD [OF t, of f] new by simp
  have main: "fi_ret_type h = ty \<and> frame_laid_out h ps \<and> (\<forall>h0. get_func f s = Some h0 \<longrightarrow> fi_arg_count h0 = fi_arg_count h)"
    using P P' old frame_laid_out_slots(3) [of h ps] by (auto simp: args_entered_def)
  then show "\<exists>h. get_func f s' = Some h \<and> \<not> fi_prototyped h \<and> fi_ret_type h = ty \<and> frame_laid_out h ps \<and>
      fi_max_call_size h = calls \<and> wf_items (dom (var_pos h)) any_call any_call is \<and>
      (\<forall>h0. get_func f s = Some h0 \<longrightarrow> fi_arg_count h0 = fi_arg_count h)"
    using h by blast
  show "table_of P (D(f \<mapsto> ty)) s'"
    using t others h main unfolding table_of_def by auto
qed

lemma sensible_func:
  assumes t: "table_of P D s" and b: "as_symbols b = s" "sound_items b is"
    and d: "defined_by s ty f ps is (as_max_arg_count b) s1" and P: "P f = None \<or> P f = Some (ty, ps)"
    and calls: "wf_items UNIV (\<lambda>g n. (D(f \<mapsto> ty)) g \<noteq> None) (\<lambda>g n. (D(f \<mapsto> ty)) g = Some DTYPE_VOID) is"
    and ends: "items_end is \<noteq> None" "closed_body is"
    and rest: "decl_steps s1 ds s'"
    and small: "\<And>h. get_func f s' = Some h \<Longrightarrow> frame_size h + fi_arg_count h < 2 ^ 30"
  shows "func_ok s' (dom D) ty f ps is"
proof -
  note new = table_of_func [OF t d P]
  obtain h where h: "get_func f s1 = Some h" "\<not> fi_prototyped h" "fi_ret_type h = ty" "frame_laid_out h ps"
      "fi_max_call_size h = as_max_arg_count b" "wf_items (dom (var_pos h)) any_call any_call is"
      "\<forall>h0. get_func f s = Some h0 \<longrightarrow> fi_arg_count h0 = fi_arg_count h"
    using new(3) by blast
  have final: "get_func f s' = Some h" by (rule defined_stays [OF rest h(1,2)])
  have known: "\<exists>k. get_func g s' = Some k \<and> fi_ret_type k = ty' \<and> (\<forall>n. stat_call b g n \<longrightarrow> fi_arg_count k = n)"
    if g: "(D(f \<mapsto> ty)) g = Some ty'" for g ty'
  proof (cases "g = f")
    case True
    then show ?thesis using final h(3,7) g b(1) by (auto simp: stat_call_def)
  next
    case False
    then obtain k where "get_func g s = Some k" "\<not> fi_prototyped k" "fi_ret_type k = ty'"
      using table_ofD [OF t, of g] g by auto
    moreover have "get_func g s1 = get_func g s" using d False by (simp add: defined_by_def)
    ultimately show ?thesis using defined_stays [OF rest, of g k] b(1) by (auto simp: stat_call_def)
  qed
  have ret: "ret_call b g n \<Longrightarrow> stat_call b g n" for g n by (simp add: ret_call_def)
  have size: "stat_call b g n \<Longrightarrow> n \<le> fi_max_call_size h" for g n using h(5) by (simp add: stat_call_def)
  have both: "wf_items (dom (var_pos h) \<inter> (UNIV \<inter> UNIV))
      (\<lambda>g n. True \<and> ret_call b g n \<and> (D(f \<mapsto> ty)) g \<noteq> None)
      (\<lambda>g n. True \<and> stat_call b g n \<and> (D(f \<mapsto> ty)) g = Some DTYPE_VOID) is"
    by (rule wf_items_inter(2) [OF h(6) wf_items_inter(2) [OF b(2) calls]])
  have "wf_items (dom (var_pos h)) (may_call s' h (insert f (dom D))) (may_call_void s' h (insert f (dom D))) is"
  proof (rule wf_items_mono(2) [OF _ _ _ both])
    show "may_call s' h (insert f (dom D)) g n" if "True \<and> ret_call b g n \<and> (D(f \<mapsto> ty)) g \<noteq> None" for g n
      using that known [of g] ret [of g n] size [of g n] by (auto simp: may_call_def split: if_splits)
    show "may_call_void s' h (insert f (dom D)) g n" if "True \<and> stat_call b g n \<and> (D(f \<mapsto> ty)) g = Some DTYPE_VOID" for g n
      using that known [of g] size [of g n] by (auto simp: may_call_void_def may_call_def split: if_splits)
  qed simp
  then show ?thesis
    unfolding func_ok_def using final h(3,4) small ends by auto
qed

lemma sensible_decls_ok:
  assumes "decl_steps s ds s'" "table_of P D s" "sensible P D ds" "small_frames s' ds"
  shows "decls_ok s' (dom D) ds"
  using assms
proof (induction P D ds arbitrary: s rule: sensible.induct)
  case (2 P D ty f ps ds)
  then obtain s1 where s1: "declared_by s ty f ps s1" "decl_steps s1 ds s'" by auto
  have "decls_ok s' (dom D) ds"
    by (rule "2.IH" [OF s1(2) table_of_proto [OF "2.prems"(2) s1(1)]]) (use "2.prems"(3,4) in \<open>simp_all add: small_frames_def fun_upd_def\<close>)
  then show ?case by simp
next
  case (3 P D ty f ps "is" ds)
  obtain s1 b where s1: "decl_steps s1 ds s'" "as_symbols b = s" "sound_items b is"
      "defined_by s ty f ps is (as_max_arg_count b) s1"
    using "3.prems"(1) by auto
  have s: "P f = None \<or> P f = Some (ty, ps)" "items_end is \<noteq> None" "closed_body is" "sensible P (D(f \<mapsto> ty)) ds"
      "wf_items UNIV (\<lambda>g n. (D(f \<mapsto> ty)) g \<noteq> None) (\<lambda>g n. (D(f \<mapsto> ty)) g = Some DTYPE_VOID) is"
    using "3.prems"(3) by simp_all
  note new = table_of_func [OF "3.prems"(2) s1(4) s(1)]
  have small: "small_frames s' ds" "\<And>h. get_func f s' = Some h \<Longrightarrow> frame_size h + fi_arg_count h < 2 ^ 30"
    using "3.prems"(4) by (auto simp: small_frames_def)
  have "func_ok s' (dom D) ty f ps is"
    by (rule sensible_func [OF "3.prems"(2) s1(2-4) s(1,5,2,3) s1(1) small(2)])
  moreover have "decls_ok s' (dom (D(f \<mapsto> ty))) ds"
    by (rule "3.IH" [OF s1(1) new(2) s(4) small(1)])
  moreover have "dom (D(f \<mapsto> ty)) = insert f (dom D)" by auto
  ultimately show ?case using new(1) by auto
qed simp

end
