(* ===== verification/Unambiguous.thy ===== *)
theory Unambiguous
  imports Parser_Program
begin

text \<open>
  A token list is the text of at most one program. What follows a construct decides where it
  ends: no operator continues an expression, no else a branch.
\<close>

section \<open>What may follow\<close>

definition starts_with :: "token_type set \<Rightarrow> token list \<Rightarrow> bool" where
  "starts_with T w \<longleftrightarrow> w \<noteq> [] \<and> tok_type (hd w) \<in> T"

lemma starts_with_simps [simp]:
  "\<not> starts_with T []" "starts_with T (t # w) \<longleftrightarrow> tok_type t \<in> T"
  by (simp_all add: starts_with_def)

lemma starts_with_append: "starts_with T w \<Longrightarrow> starts_with T (w @ r)"
  by (cases w) auto

text \<open>\<open>reads_one P F\<close>: of two texts in front of rests that \<open>F\<close> allows, none is a part of the other.\<close>

definition reads_one :: "('a \<Rightarrow> token list \<Rightarrow> bool) \<Rightarrow> (token list \<Rightarrow> bool) \<Rightarrow> bool" where
  "reads_one P F \<longleftrightarrow> (\<forall>x w r y v q. P x w \<longrightarrow> P y v \<longrightarrow> w @ r = v @ q \<longrightarrow> F r \<longrightarrow> F q \<longrightarrow> x = y \<and> w = v)"

lemma reads_oneD: "reads_one P F \<Longrightarrow> P x w \<Longrightarrow> P y v \<Longrightarrow> w @ r = v @ q \<Longrightarrow> F r \<Longrightarrow> F q \<Longrightarrow> x = y \<and> w = v \<and> r = q"
  unfolding reads_one_def by (metis same_append_eq)

definition arith_toks :: "token_type set" where
  "arith_toks = {TOK_PLUS, TOK_MINUS, TOK_STAR, TOK_SLASH, TOK_PERCENT}"

definition after_fac :: "token list \<Rightarrow> bool" where
  "after_fac r \<longleftrightarrow> \<not> starts_with {TOK_OPENPA} r"

definition after_expr :: "token list \<Rightarrow> bool" where
  "after_expr r \<longleftrightarrow> \<not> starts_with (insert TOK_OPENPA arith_toks) r"

section \<open>Expressions\<close>

definition expr_toks :: "token_type set" where
  "expr_toks = {TOK_IDENTIFIER, TOK_INTLITERAL, TOK_MINUS, TOK_OPENPA}"

lemma expr_start:
  "expr_text e w \<Longrightarrow> starts_with expr_toks w"
  "fac_text x w \<Longrightarrow> starts_with expr_toks w"
  "args_text es w \<Longrightarrow> es = No_Args \<and> w = [] \<or> starts_with expr_toks w"
  by (induction e and x and es arbitrary: w and w and w)
    (auto simp: num_text_def ident_token_def expr_toks_def intro!: starts_with_append)

lemma num_text_one: "num_text n w \<Longrightarrow> num_text m v \<Longrightarrow> w @ r = v @ q \<Longrightarrow> n = m \<and> w = v"
  by (auto simp: num_text_def)

lemma num_text_start: "num_text n w \<Longrightarrow> starts_with {TOK_INTLITERAL, TOK_MINUS} w"
  by (auto simp: num_text_def)

lemma expr_text_one:
  "expr_text e w \<Longrightarrow> expr_text e' w' \<Longrightarrow> w @ r = w' @ r' \<Longrightarrow> after_expr r \<Longrightarrow> after_expr r' \<Longrightarrow> e = e' \<and> w = w'"
  "fac_text x w \<Longrightarrow> fac_text x' w' \<Longrightarrow> w @ r = w' @ r' \<Longrightarrow> after_fac r \<Longrightarrow> after_fac r' \<Longrightarrow> x = x' \<and> w = w'"
  "args_text es w \<Longrightarrow> args_text es' w' \<Longrightarrow> w @ r = w' @ r' \<Longrightarrow> starts_with {TOK_CLOSEPA} r \<Longrightarrow> starts_with {TOK_CLOSEPA} r' \<Longrightarrow>
     es = es' \<and> w = w'"
proof (induction e and x and es arbitrary: e' w w' r r' and x' w w' r r' and es' w w' r r')
  case (Single x)
  have fac: "after_fac r" using Single.prems(4) by (auto simp: after_fac_def after_expr_def starts_with_def)
  show ?case
  proof (cases e')
    case (Single y)
    moreover have "after_fac r'" using Single.prems(5) by (auto simp: after_fac_def after_expr_def starts_with_def)
    ultimately show ?thesis using Single.prems Single.IH fac by fastforce
  next
    case (Binop y op e)
    then obtain u t v where "w' = u @ t # v" "fac_text y u" "tok_type t = op" "arith_op op" using Single.prems(2) by auto
    moreover from this have "w = u \<and> x = y"
      using Single.prems(1,3) Single.IH [of w y u r "t # v @ r'"] fac by (auto simp: after_fac_def arith_op_def)
    ultimately show ?thesis
      using Single.prems(3,4) by (auto simp: after_expr_def arith_op_def arith_toks_def)
  qed
next
  case (Binop x op e)
  obtain u t v where w: "w = u @ t # v" "fac_text x u" "tok_type t = op" "arith_op op" "expr_text e v" using Binop.prems(1) by auto
  show ?case
  proof (cases e')
    case (Single y)
    have "after_fac r'" using Binop.prems(5) by (auto simp: after_fac_def after_expr_def starts_with_def)
    then have "u = w'"
      using Binop.IH(1) [of u y w' "t # v @ r" r'] Binop.prems(2,3) w Single by (auto simp: after_fac_def arith_op_def)
    then show ?thesis
      using Binop.prems(3,5) w by (auto simp: after_expr_def arith_op_def arith_toks_def)
  next
    case (Binop y op' d)
    then obtain u' t' v' where w': "w' = u' @ t' # v'" "fac_text y u'" "tok_type t' = op'" "arith_op op'" "expr_text d v'"
      using Binop.prems(2) by auto
    have "x = y \<and> u = u'"
      using Binop.IH(1) [of u y u' "t # v @ r" "t' # v' @ r'"] Binop.prems(3) w w' by (auto simp: after_fac_def arith_op_def)
    moreover from this have "e = d \<and> v = v' \<and> t = t'"
      using Binop.IH(2) [of v d v' r r'] Binop.prems(3-5) w w' by auto
    ultimately show ?thesis using w w' Binop by auto
  qed
next
  case (Call_Fac g es)
  obtain t1 t2 u t3 where w: "w = t1 # t2 # u @ [t3]" "ident_token g t1" "tok_type t2 = TOK_OPENPA" "args_text es u"
      "tok_type t3 = TOK_CLOSEPA" using Call_Fac.prems(1) by auto
  show ?case
  proof (cases x')
    case (Call_Fac h ds)
    then obtain s1 s2 v s3 where w': "w' = s1 # s2 # v @ [s3]" "ident_token h s1" "args_text ds v" "tok_type s3 = TOK_CLOSEPA"
      using Call_Fac.prems(2) by auto
    then have "es = ds \<and> u = v"
      using Call_Fac.IH [of u ds v "t3 # r" "s3 # r'"] Call_Fac.prems(3) w by auto
    then show ?thesis using w w' Call_Fac Call_Fac.prems(3) by (auto simp: ident_token_def)
  next
    case (Num_Fac n)
    then show ?thesis using Call_Fac.prems(2,3) w(1,2) num_text_start [of n w'] by (cases w') (auto simp: ident_token_def)
  qed (use Call_Fac.prems w in \<open>auto simp: ident_token_def after_fac_def\<close>)
next
  case (Var_Fac y)
  then obtain t where w: "w = [t]" "ident_token y t" by auto
  show ?case
  proof (cases x')
    case (Num_Fac n)
    then show ?thesis using Var_Fac.prems(2,3) w num_text_start [of n w'] by (cases w') (auto simp: ident_token_def)
  qed (use Var_Fac.prems w in \<open>auto simp: ident_token_def after_fac_def\<close>)
next
  case (Num_Fac n)
  then have n: "num_text n w" by simp
  note s = num_text_start [OF n]
  show ?case
  proof (cases x')
    case (Num_Fac m)
    then show ?thesis using num_text_one [OF n] Num_Fac.prems(2,3) by auto
  qed (use Num_Fac.prems(2,3) s in \<open>cases w; auto simp: ident_token_def\<close>)+
next
  case (Paren_Fac e)
  obtain t1 u t2 where w: "w = t1 # u @ [t2]" "tok_type t1 = TOK_OPENPA" "expr_text e u" "tok_type t2 = TOK_CLOSEPA"
    using Paren_Fac.prems(1) by auto
  show ?case
  proof (cases x')
    case (Paren_Fac d)
    then obtain s1 v s2 where w': "w' = s1 # v @ [s2]" "expr_text d v" "tok_type s2 = TOK_CLOSEPA"
      using Paren_Fac.prems(2) by auto
    then have "e = d \<and> u = v"
      using Paren_Fac.IH [of u d v "t2 # r" "s2 # r'"] Paren_Fac.prems(3) w by (auto simp: after_expr_def arith_toks_def)
    then show ?thesis using w w' Paren_Fac Paren_Fac.prems(3) by auto
  next
    case (Num_Fac n)
    then show ?thesis using Paren_Fac.prems(2,3) w(1,2) num_text_start [of n w'] by (cases w') auto
  qed (use Paren_Fac.prems w in \<open>auto simp: ident_token_def\<close>)
next
  case No_Args
  then show ?case using expr_start(3) [of es' w'] by (cases w') (auto simp: expr_toks_def starts_with_def)
next
  case (Last_Arg e)
  have close: "after_expr r" if "starts_with {TOK_CLOSEPA} r" for r
    using that by (auto simp: after_expr_def arith_toks_def starts_with_def)
  show ?case
  proof (cases es')
    case No_Args
    then show ?thesis using Last_Arg.prems expr_start(1) [of e w] by (cases w) (auto simp: expr_toks_def starts_with_def)
  next
    case (Last_Arg d)
    then show ?thesis using Last_Arg.prems Last_Arg.IH [of w d w' r r'] close by auto
  next
    case (Cons_Arg d ds)
    then obtain u t v where w': "w' = u @ t # v" "expr_text d u" "tok_type t = TOK_COMMA" using Last_Arg.prems(2) by auto
    then have "w = u"
      using Last_Arg.prems(1,3,4) Last_Arg.IH [of w d u r "t # v @ r'"] close by (auto simp: after_expr_def arith_toks_def)
    then show ?thesis using Last_Arg.prems(3,4) w' by auto
  qed
next
  case (Cons_Arg e es)
  have close: "after_expr r" if "starts_with {TOK_CLOSEPA} r" for r
    using that by (auto simp: after_expr_def arith_toks_def starts_with_def)
  obtain u t v where w: "w = u @ t # v" "expr_text e u" "tok_type t = TOK_COMMA" "args_text es v" using Cons_Arg.prems(1) by auto
  show ?case
  proof (cases es')
    case No_Args
    then show ?thesis using Cons_Arg.prems w expr_start(1) [of e u] by (cases u) (auto simp: expr_toks_def starts_with_def)
  next
    case (Last_Arg d)
    then have "u = w'"
      using Cons_Arg.prems(2,3,5) Cons_Arg.IH(1) [of u d w' "t # v @ r" r'] w close by (auto simp: after_expr_def arith_toks_def)
    then show ?thesis using Cons_Arg.prems(3,5) w by auto
  next
    case (Cons_Arg d ds)
    then obtain u' t' v' where w': "w' = u' @ t' # v'" "expr_text d u'" "tok_type t' = TOK_COMMA" "args_text ds v'"
      using Cons_Arg.prems(2) by auto
    have "e = d \<and> u = u'"
      using Cons_Arg.prems(3) Cons_Arg.IH(1) [of u d u' "t # v @ r" "t' # v' @ r'"] w w' by (auto simp: after_expr_def arith_toks_def)
    moreover from this have "es = ds \<and> v = v' \<and> t = t'"
      using Cons_Arg.IH(2) [of v ds v' r r'] Cons_Arg.prems(3-5) w w' by auto
    ultimately show ?thesis using w w' Cons_Arg by auto
  qed
qed

lemmas expr_one = expr_text_one(1) and args_one = expr_text_one(3)

section \<open>Statements\<close>

definition after_stat :: "token list \<Rightarrow> bool" where
  "after_stat r \<longleftrightarrow> starts_with {TOK_SEMICL, TOK_CLOSEPA} r"

lemma after_stat_expr: "after_stat r \<Longrightarrow> after_expr r"
  by (auto simp: after_stat_def after_expr_def arith_toks_def starts_with_def)

lemma after_expr_simps [simp]:
  "after_expr (t # r) \<longleftrightarrow> tok_type t \<notin> insert TOK_OPENPA arith_toks" "after_expr []"
  by (simp_all add: after_expr_def)

lemma cond_text_one:
  assumes "cond_text c w" "cond_text c' w'" "w @ r = w' @ r'" "after_stat r" "after_stat r'"
  shows "c = c' \<and> w = w'"
proof -
  obtain e1 op e2 u t v where c: "c = Cond e1 op e2" "w = u @ t # v" "expr_text e1 u" "tok_type t = op" "compare_op op" "expr_text e2 v"
    using assms(1) by (cases c) auto
  obtain d1 op' d2 u' t' v' where c': "c' = Cond d1 op' d2" "w' = u' @ t' # v'" "expr_text d1 u'" "tok_type t' = op'" "compare_op op'"
      "expr_text d2 v'"
    using assms(2) by (cases c') auto
  have "e1 = d1 \<and> u = u'"
    by (rule expr_one [OF c(3) c'(3), of "t # v @ r" "t' # v' @ r'"])
      (use assms(3) c c' in \<open>auto simp: compare_op_def arith_toks_def\<close>)
  moreover from this have "e2 = d2 \<and> v = v' \<and> t = t'"
    using expr_one [OF c(6) c'(6), of r r'] assms(3) after_stat_expr [OF assms(4)] after_stat_expr [OF assms(5)] c c' by auto
  ultimately show ?thesis using c c' by auto
qed

lemma not_expr_rest: "expr_text e w \<Longrightarrow> after_stat r \<Longrightarrow> w @ q = r \<Longrightarrow> False"
  using expr_start(1) [of e w] by (cases w) (auto simp: after_stat_def expr_toks_def)

text \<open>The first tokens tell which statement it is.\<close>

lemma stat_head:
  "stat_text s w \<Longrightarrow> (case s of
     Var_Def x eo \<Rightarrow> \<exists>t1 t2 u. w = t1 # t2 # u \<and> is_type (tok_type t1)
   | Var_Assign x e \<Rightarrow> \<exists>t1 t2 u. w = t1 # t2 # u \<and> tok_type t1 = TOK_IDENTIFIER \<and> tok_type t2 = TOK_EQ
   | Call_Stat g es \<Rightarrow> \<exists>t1 t2 u. w = t1 # t2 # u \<and> tok_type t1 = TOK_IDENTIFIER \<and> tok_type t2 = TOK_OPENPA
   | Print_Stat e \<Rightarrow> \<exists>t1 u. w = t1 # u \<and> tok_type t1 = TOK_PRINT
   | Return_Stat eo \<Rightarrow> \<exists>t1 u. w = t1 # u \<and> tok_type t1 = TOK_RETURN)"
  by (cases "(s, w)" rule: stat_text.cases) (auto simp: ident_token_def)

lemma stat_text_one:
  assumes "stat_text s w" "stat_text s' w'" "w @ r = w' @ r'" "after_stat r" "after_stat r'"
  shows "s = s' \<and> w = w'"
proof -
  note heads = stat_head [OF assms(1)] stat_head [OF assms(2)]
  show ?thesis
  proof (cases s)
    case (Var_Def x eo)
    show ?thesis
    proof (cases s')
      case Def': (Var_Def y fo)
      show ?thesis
      proof (cases eo)
        case None
        then show ?thesis
          using assms Var_Def Def' by (cases fo) (auto simp: ident_token_def after_stat_def)
      next
        case (Some e)
        then obtain d where "fo = Some d" using assms Var_Def Def' by (cases fo) (auto simp: after_stat_def)
        then show ?thesis
          using assms Var_Def Def' Some expr_one [of e _ d _ r r'] after_stat_expr by (auto simp: ident_token_def)
      qed
    qed (use heads assms(3) Var_Def in \<open>auto simp: is_type_def\<close>)
  next
    case (Var_Assign x e)
    show ?thesis
    proof (cases s')
      case (Var_Assign y d)
      then show ?thesis
        using assms \<open>s = Var_Assign x e\<close> expr_one [of e _ d _ r r'] after_stat_expr by (auto simp: ident_token_def)
    qed (use heads assms(3) Var_Assign in \<open>auto simp: is_type_def\<close>)
  next
    case (Call_Stat g es)
    show ?thesis
    proof (cases s')
      case (Call_Stat h ds)
      then obtain t1 t2 u t3 s1 s2 v s3 where w: "w = t1 # t2 # u @ [t3]" "w' = s1 # s2 # v @ [s3]" "ident_token g t1" "ident_token h s1"
          "args_text es u" "args_text ds v" "tok_type t3 = TOK_CLOSEPA" "tok_type s3 = TOK_CLOSEPA"
        using assms \<open>s = Call_Stat g es\<close> by auto
      then have "es = ds \<and> u = v" using args_one [of es u ds v "t3 # r" "s3 # r'"] assms(3) by auto
      then show ?thesis using w assms(3) \<open>s = Call_Stat g es\<close> Call_Stat by (auto simp: ident_token_def)
    qed (use heads assms(3) Call_Stat in \<open>auto simp: is_type_def\<close>)
  next
    case (Print_Stat e)
    show ?thesis
    proof (cases s')
      case (Print_Stat d)
      then show ?thesis
        using assms \<open>s = Print_Stat e\<close> expr_one [of e _ d _ r r'] after_stat_expr by auto
    qed (use heads assms(3) Print_Stat in \<open>auto simp: is_type_def\<close>)
  next
    case (Return_Stat eo)
    show ?thesis
    proof (cases s')
      case Return': (Return_Stat fo)
      show ?thesis
      proof (cases eo)
        case None
        then show ?thesis
          using assms Return_Stat Return' by (cases fo) (auto dest: not_expr_rest [OF _ assms(4)])
      next
        case (Some e)
        then obtain d where "fo = Some d"
          using assms Return_Stat Return' by (cases fo) (auto dest: not_expr_rest [OF _ assms(5) sym])
        then show ?thesis
          using assms Return_Stat Return' Some expr_one [of e _ d _ r r'] after_stat_expr by auto
      qed
    qed (use heads assms(3) Return_Stat in \<open>auto simp: is_type_def\<close>)
  qed
qed

section \<open>Items\<close>

definition item_toks :: "token_type set" where
  "item_toks = {TOK_VOID, TOK_INT, TOK_IDENTIFIER, TOK_PRINT, TOK_RETURN, TOK_IF, TOK_WHILE, TOK_FOR, TOK_DO}"

lemma stat_start: "stat_text s w \<Longrightarrow> starts_with {TOK_VOID, TOK_INT, TOK_IDENTIFIER, TOK_PRINT, TOK_RETURN} w"
  by (cases "(s, w)" rule: stat_text.cases) (auto simp: is_type_def ident_token_def)

lemma item_start: "item_text i w \<Longrightarrow> starts_with item_toks w"
proof (cases i)
  case (Stat_Item s)
  assume "item_text i w"
  then show ?thesis using Stat_Item stat_start by (fastforce simp: item_toks_def starts_with_def)
qed (auto simp: item_toks_def)

definition after_item :: "token list \<Rightarrow> bool" where
  "after_item r \<longleftrightarrow> \<not> starts_with {TOK_ELSE} r"

definition after_items :: "token list \<Rightarrow> bool" where
  "after_items r \<longleftrightarrow> starts_with {TOK_CLOSEBR} r"

lemma toks_one: "toks tys a \<Longrightarrow> toks tys b \<Longrightarrow> a @ r = b @ q \<Longrightarrow> a = b \<and> r = q"
  by (metis append_eq_append_conv length_map)

lemma toks_first: "toks (ty # tys) a \<Longrightarrow> \<exists>t b. a = t # b \<and> tok_type t = ty \<and> toks tys b"
  by (cases a) auto

lemma after_toks:
  "toks (ty # tys) a \<Longrightarrow> ty \<in> {TOK_SEMICL, TOK_CLOSEPA} \<Longrightarrow> after_stat (a @ r)"
  "toks (ty # tys) a \<Longrightarrow> ty = TOK_CLOSEBR \<Longrightarrow> after_items (a @ r)"
  by (auto simp: after_stat_def after_items_def dest!: toks_first)

text \<open>What an item starts with.\<close>

fun item_word :: "item \<Rightarrow> token_type set" where
  "item_word (Stat_Item s) = {TOK_VOID, TOK_INT, TOK_IDENTIFIER, TOK_PRINT, TOK_RETURN}"
| "item_word (If_Item c is) = {TOK_IF}"
| "item_word (If_Else_Item c is js) = {TOK_IF}"
| "item_word (While_Item c is) = {TOK_WHILE}"
| "item_word (For_Item s c t is) = {TOK_FOR}"
| "item_word (Do_Item is c) = {TOK_DO}"

lemma item_word: "item_text i w \<Longrightarrow> starts_with (item_word i) w"
proof (cases i)
  case (Stat_Item s)
  assume "item_text i w"
  then show ?thesis using Stat_Item stat_start by (auto intro: starts_with_append)
qed (auto dest!: toks_first)

lemma item_word_one:
  assumes "item_text i w" "item_text i' w'" "w @ r = w' @ r'"
  shows "item_word i \<inter> item_word i' \<noteq> {}"
  using item_word [OF assms(1)] item_word [OF assms(2)] assms(3) by (cases w; cases w') auto

text \<open>A branch or a while loop up to the end of its first block.\<close>

lemma block_one:
  assumes "a @ u @ b @ v @ d @ r = a' @ u' @ b' @ v' @ d' @ r'"
    and "toks A a" "toks A a'" "cond_text c u" "cond_text c' u'" "toks [TOK_CLOSEPA, TOK_OPENBR] b" "toks [TOK_CLOSEPA, TOK_OPENBR] b'"
    and "items_text is v" "items_text is' v'" "toks (TOK_CLOSEBR # D) d" "toks (TOK_CLOSEBR # D') d'"
    and IH: "\<And>is' w w' r r'. items_text is w \<Longrightarrow> items_text is' w' \<Longrightarrow> w @ r = w' @ r' \<Longrightarrow> after_items r \<Longrightarrow> after_items r' \<Longrightarrow>
      is = is' \<and> w = w'"
  shows "c = c' \<and> is = is' \<and> a = a' \<and> u = u' \<and> b = b' \<and> v = v' \<and> d @ r = d' @ r'"
proof -
  have 1: "a = a'" "u @ b @ v @ d @ r = u' @ b' @ v' @ d' @ r'" using toks_one [OF assms(2,3,1)] by simp_all
  have 2: "c = c' \<and> u = u'"
    by (rule cond_text_one [OF assms(4,5) 1(2)]) (use assms(6,7) after_toks in auto)
  then have 3: "b = b'" "v @ d @ r = v' @ d' @ r'" using toks_one [OF assms(6,7)] 1(2) by auto
  have "is = is' \<and> v = v'"
    by (rule IH [OF assms(8,9) 3(2)]) (use assms(10,11) after_toks in auto)
  then show ?thesis using 1 2 3 by auto
qed

lemma after_items_item: "items_text is w \<Longrightarrow> after_items r \<Longrightarrow> after_item (w @ r)"
proof (cases "is")
  case Nil
  assume "items_text is w" "after_items r"
  then show ?thesis using Nil by (cases r) (auto simp: after_items_def after_item_def)
next
  case (Cons i js)
  assume "items_text is w"
  then obtain u v where "w = u @ v" "item_text i u" using Cons by auto
  then show ?thesis using item_start [of i u] by (cases u) (auto simp: after_item_def item_toks_def)
qed

lemma items_text_one:
  "item_text i w \<Longrightarrow> item_text i' w' \<Longrightarrow> w @ r = w' @ r' \<Longrightarrow> after_item r \<Longrightarrow> after_item r' \<Longrightarrow> i = i' \<and> w = w'"
  "items_text is w \<Longrightarrow> items_text is' w' \<Longrightarrow> w @ r = w' @ r' \<Longrightarrow> after_items r \<Longrightarrow> after_items r' \<Longrightarrow> is = is' \<and> w = w'"
proof (induction i and "is" arbitrary: i' w w' r r' and is' w w' r r' rule: items_induct)
  case (Stat s)
  obtain s' where i': "i' = Stat_Item s'"
    using item_word_one [OF Stat.prems(1-3)] by (cases i') auto
  then obtain u t v t' where w: "w = u @ [t]" "stat_text s u" "tok_type t = TOK_SEMICL" "w' = v @ [t']" "stat_text s' v" "tok_type t' = TOK_SEMICL"
    using Stat.prems(1,2) by auto
  then have "s = s' \<and> u = v"
    using stat_text_one [of s u s' v "t # r" "t' # r'"] Stat.prems(3) by (auto simp: after_stat_def)
  then show ?case using w i' Stat.prems(3) by auto
next
  case (If c "is")
  obtain a u b v d where w: "w = a @ u @ b @ v @ d" "toks [TOK_IF, TOK_OPENPA] a" "cond_text c u"
      "toks [TOK_CLOSEPA, TOK_OPENBR] b" "items_text is v" "toks [TOK_CLOSEBR] d" using If.prems(1) unfolding item_text.simps by (elim exE conjE) (rule that)
  consider (one) c' is' where "i' = If_Item c' is'" | (two) c' is' js where "i' = If_Else_Item c' is' js"
    using item_word_one [OF If.prems(1-3)] by (cases i') auto
  then show ?case
  proof cases
    case one
    then obtain a' u' b' v' d' where w': "w' = a' @ u' @ b' @ v' @ d'" "toks [TOK_IF, TOK_OPENPA] a'" "cond_text c' u'"
        "toks [TOK_CLOSEPA, TOK_OPENBR] b'" "items_text is' v'" "toks [TOK_CLOSEBR] d'" using If.prems(2) unfolding one item_text.simps by (elim exE conjE) (rule that)
    note same = block_one [OF _ w(2) w'(2) w(3) w'(3) w(4) w'(4) w(5) w'(5) w(6) w'(6) If.IH, of r r']
    then show ?thesis using toks_one [OF w(6) w'(6), of r r'] If.prems(3) one w w' by auto
  next
    case two
    then obtain a' u' b' v' d' x y where w': "w' = a' @ u' @ b' @ v' @ d' @ x @ y" "toks [TOK_IF, TOK_OPENPA] a'" "cond_text c' u'"
        "toks [TOK_CLOSEPA, TOK_OPENBR] b'" "items_text is' v'" "toks [TOK_CLOSEBR, TOK_ELSE, TOK_OPENBR] d'" using If.prems(2) unfolding two item_text.simps by (elim exE conjE) (rule that)
    note same = block_one [OF _ w(2) w'(2) w(3) w'(3) w(4) w'(4) w(5) w'(5) w(6) w'(6) If.IH, of r "x @ y @ r'"]
    have "d @ r = d' @ x @ y @ r'" using same If.prems(3) w(1) w'(1) by simp
    then show ?thesis using If.prems(4) w(6) w'(6) by (auto dest!: toks_first simp: after_item_def)
  qed
next
  case (If_Else c "is" js)
  obtain a u b v d x y where w: "w = a @ u @ b @ v @ d @ x @ y" "toks [TOK_IF, TOK_OPENPA] a" "cond_text c u"
      "toks [TOK_CLOSEPA, TOK_OPENBR] b" "items_text is v" "toks [TOK_CLOSEBR, TOK_ELSE, TOK_OPENBR] d" "items_text js x"
      "toks [TOK_CLOSEBR] y" using If_Else.prems(1) unfolding item_text.simps by (elim exE conjE) (rule that)
  consider (one) c' is' where "i' = If_Item c' is'" | (two) c' is' js' where "i' = If_Else_Item c' is' js'"
    using item_word_one [OF If_Else.prems(1-3)] by (cases i') auto
  then show ?case
  proof cases
    case one
    then obtain a' u' b' v' d' where w': "w' = a' @ u' @ b' @ v' @ d'" "toks [TOK_IF, TOK_OPENPA] a'" "cond_text c' u'"
        "toks [TOK_CLOSEPA, TOK_OPENBR] b'" "items_text is' v'" "toks [TOK_CLOSEBR] d'"
      using If_Else.prems(2) unfolding one item_text.simps by (elim exE conjE) (rule that)
    note same = block_one [OF _ w(2) w'(2) w(3) w'(3) w(4) w'(4) w(5) w'(5) w(6) w'(6) If_Else.IH(1), of "x @ y @ r" r']
    have "d @ x @ y @ r = d' @ r'" using same If_Else.prems(3) w(1) w'(1) by simp
    then show ?thesis using If_Else.prems(5) w(6) w'(6) by (auto dest!: toks_first simp: after_item_def)
  next
    case two
    then obtain a' u' b' v' d' x' y' where w': "w' = a' @ u' @ b' @ v' @ d' @ x' @ y'" "toks [TOK_IF, TOK_OPENPA] a'" "cond_text c' u'"
        "toks [TOK_CLOSEPA, TOK_OPENBR] b'" "items_text is' v'" "toks [TOK_CLOSEBR, TOK_ELSE, TOK_OPENBR] d'" "items_text js' x'"
        "toks [TOK_CLOSEBR] y'" using If_Else.prems(2) unfolding two item_text.simps by (elim exE conjE) (rule that)
    note same = block_one [OF _ w(2) w'(2) w(3) w'(3) w(4) w'(4) w(5) w'(5) w(6) w'(6) If_Else.IH(1), of "x @ y @ r" "x' @ y' @ r'"]
    have d: "c = c' \<and> is = is' \<and> a = a' \<and> u = u' \<and> b = b' \<and> v = v'" "d @ x @ y @ r = d' @ x' @ y' @ r'"
      using same If_Else.prems(3) w(1) w'(1) by simp_all
    have e: "d = d'" "x @ y @ r = x' @ y' @ r'" using toks_one [OF w(6) w'(6) d(2)] by simp_all
    have "js = js' \<and> x = x'"
      by (rule If_Else.IH(2) [OF w(7) w'(7) e(2)]) (use w(8) w'(8) after_toks in auto)
    then show ?thesis using d(1) e toks_one [OF w(8) w'(8), of r r'] two w(1) w'(1) by auto
  qed
next
  case (While c "is")
  obtain a u b v d where w: "w = a @ u @ b @ v @ d" "toks [TOK_WHILE, TOK_OPENPA] a" "cond_text c u"
      "toks [TOK_CLOSEPA, TOK_OPENBR] b" "items_text is v" "toks [TOK_CLOSEBR] d" using While.prems(1) unfolding item_text.simps by (elim exE conjE) (rule that)
  obtain c' is' where i': "i' = While_Item c' is'"
    using item_word_one [OF While.prems(1-3)] by (cases i') auto
  then obtain a' u' b' v' d' where w': "w' = a' @ u' @ b' @ v' @ d'" "toks [TOK_WHILE, TOK_OPENPA] a'" "cond_text c' u'"
      "toks [TOK_CLOSEPA, TOK_OPENBR] b'" "items_text is' v'" "toks [TOK_CLOSEBR] d'" using While.prems(2) unfolding i' item_text.simps by (elim exE conjE) (rule that)
  note same = block_one [OF _ w(2) w'(2) w(3) w'(3) w(4) w'(4) w(5) w'(5) w(6) w'(6) While.IH, of r r']
  then show ?case using toks_one [OF w(6) w'(6), of r r'] While.prems(3) i' w w' by auto
next
  case (For s c t "is")
  obtain a u b v d x f y h where w: "w = a @ u @ b @ v @ d @ x @ f @ y @ h" "toks [TOK_FOR, TOK_OPENPA] a" "stat_text s u"
      "toks [TOK_SEMICL] b" "cond_text c v" "toks [TOK_SEMICL] d" "stat_text t x" "toks [TOK_CLOSEPA, TOK_OPENBR] f"
      "items_text is y" "toks [TOK_CLOSEBR] h" using For.prems(1) unfolding item_text.simps by (elim exE conjE) (rule that)
  obtain s' c' t' is' where i': "i' = For_Item s' c' t' is'"
    using item_word_one [OF For.prems(1-3)] by (cases i') auto
  then obtain a' u' b' v' d' x' f' y' h' where w': "w' = a' @ u' @ b' @ v' @ d' @ x' @ f' @ y' @ h'" "toks [TOK_FOR, TOK_OPENPA] a'"
      "stat_text s' u'" "toks [TOK_SEMICL] b'" "cond_text c' v'" "toks [TOK_SEMICL] d'" "stat_text t' x'"
      "toks [TOK_CLOSEPA, TOK_OPENBR] f'" "items_text is' y'" "toks [TOK_CLOSEBR] h'"
    using For.prems(2) unfolding i' item_text.simps by (elim exE conjE) (rule that)
  have 1: "a = a'" "u @ b @ v @ d @ x @ f @ y @ h @ r = u' @ b' @ v' @ d' @ x' @ f' @ y' @ h' @ r'"
    using toks_one [OF w(2) w'(2)] For.prems(3) w(1) w'(1) by auto
  have 2: "s = s' \<and> u = u'"
    by (rule stat_text_one [OF w(3) w'(3) 1(2)]) (use w(4) w'(4) after_toks in auto)
  have 3: "b = b'" "v @ d @ x @ f @ y @ h @ r = v' @ d' @ x' @ f' @ y' @ h' @ r'"
    using toks_one [OF w(4) w'(4)] 1(2) 2 by auto
  have 4: "c = c' \<and> v = v'"
    by (rule cond_text_one [OF w(5) w'(5) 3(2)]) (use w(6) w'(6) after_toks in auto)
  have 5: "d = d'" "x @ f @ y @ h @ r = x' @ f' @ y' @ h' @ r'"
    using toks_one [OF w(6) w'(6)] 3(2) 4 by auto
  have 6: "t = t' \<and> x = x'"
    by (rule stat_text_one [OF w(7) w'(7) 5(2)]) (use w(8) w'(8) after_toks in auto)
  have 7: "f = f'" "y @ h @ r = y' @ h' @ r'"
    using toks_one [OF w(8) w'(8)] 5(2) 6 by auto
  have "is = is' \<and> y = y'"
    by (rule For.IH [OF w(9) w'(9) 7(2)]) (use w(10) w'(10) after_toks in auto)
  then show ?case using 1(1) 2 3(1) 4 5(1) 6 7 toks_one [OF w(10) w'(10)] i' w(1) w'(1) by auto
next
  case (Do c "is")
  obtain c' is' where i': "i' = Do_Item is' c'"
    using item_word_one [OF Do.prems(1-3)] by (cases i') auto
  obtain a u b v d where w: "w = a @ u @ b @ v @ d" "toks [TOK_DO, TOK_OPENBR] a" "items_text is u"
      "toks [TOK_CLOSEBR, TOK_WHILE, TOK_OPENPA] b" "cond_text c v" "toks [TOK_CLOSEPA, TOK_SEMICL] d"
    using Do.prems(1) unfolding item_text.simps by (elim exE conjE) (rule that)
  obtain a' u' b' v' d' where w': "w' = a' @ u' @ b' @ v' @ d'" "toks [TOK_DO, TOK_OPENBR] a'" "items_text is' u'"
      "toks [TOK_CLOSEBR, TOK_WHILE, TOK_OPENPA] b'" "cond_text c' v'" "toks [TOK_CLOSEPA, TOK_SEMICL] d'"
    using Do.prems(2) unfolding i' item_text.simps by (elim exE conjE) (rule that)
  have 1: "a = a'" "u @ b @ v @ d @ r = u' @ b' @ v' @ d' @ r'"
    using toks_one [OF w(2) w'(2)] Do.prems(3) w(1) w'(1) by auto
  have 2: "is = is' \<and> u = u'"
    by (rule Do.IH [OF w(3) w'(3) 1(2)]) (use w(4) w'(4) after_toks in auto)
  have 3: "b = b'" "v @ d @ r = v' @ d' @ r'"
    using toks_one [OF w(4) w'(4)] 1(2) 2 by auto
  have "c = c' \<and> v = v'"
    by (rule cond_text_one [OF w(5) w'(5) 3(2)]) (use w(6) w'(6) after_toks in auto)
  then show ?case using 1(1) 2 3 toks_one [OF w(6) w'(6), of r r'] i' w(1) w'(1) by auto
next
  case Nil
  then show ?case
    by (cases is') (auto simp: after_items_def item_toks_def starts_with_def dest!: item_start)
next
  case (Cons i "is")
  obtain u v where w: "w = u @ v" "item_text i u" "items_text is v" using Cons.prems(1) by auto
  show ?case
  proof (cases is')
    case Nil
    then show ?thesis
      using Cons.prems w item_start [OF w(2)] by (cases u) (auto simp: after_items_def item_toks_def)
  next
    case (Cons j js)
    then obtain u' v' where w': "w' = u' @ v'" "item_text j u'" "items_text js v'" using Cons.prems(2) by auto
    have "i = j \<and> u = u'"
      by (rule Cons.IH(1) [OF w(2) w'(2), of "v @ r" "v' @ r'"])
        (use Cons.prems(3-5) w w' after_items_item in auto)
    moreover from this have "is = js \<and> v = v'"
      using Cons.IH(2) [OF w(3) w'(3), of r r'] Cons.prems(3-5) w(1) w'(1) by auto
    ultimately show ?thesis using w(1) w'(1) \<open>is' = j # js\<close> by auto
  qed
qed

section \<open>Programs\<close>

lemma params_text_one:
  "params_text ps w \<Longrightarrow> params_text qs v \<Longrightarrow> w @ r = v @ q \<Longrightarrow> starts_with {TOK_CLOSEPA} r \<Longrightarrow> starts_with {TOK_CLOSEPA} q \<Longrightarrow>
     ps = qs \<and> w = v"
proof (induction ps arbitrary: qs w v r q)
  case Nil
  then obtain t where w: "w = [t]" "tok_type t = TOK_VOID" by auto
  show ?case
  proof (cases qs)
    case Nil
    then show ?thesis using Nil.prems w by auto
  next
    case (Cons x xs)
    then show ?thesis using Nil.prems w by (auto simp: ident_token_def)
  qed
next
  case (Cons x xs)
  show ?case
  proof (cases qs)
    case Nil
    then show ?thesis using Cons.prems by (auto simp: ident_token_def)
  next
    case qs: (Cons y ys)
    obtain t1 t2 u where w: "w = t1 # t2 # u" "ident_token x t2"
        "xs = [] \<and> u = [] \<or> (\<exists>t3 v. u = t3 # v \<and> tok_type t3 = TOK_COMMA \<and> params_text xs v)" using Cons.prems(1) by auto
    obtain s1 s2 u' where v: "v = s1 # s2 # u'" "ident_token y s2"
        "ys = [] \<and> u' = [] \<or> (\<exists>t3 v. u' = t3 # v \<and> tok_type t3 = TOK_COMMA \<and> params_text ys v)" using Cons.prems(2) qs by auto
    have rest: "t1 = s1" "x = y" "t2 = s2" "u @ r = u' @ q" using Cons.prems(3) w(1,2) v(1,2) by (auto simp: ident_token_def)
    have "xs = ys \<and> u = u'"
    proof (cases u)
      case Nil
      then show ?thesis using w(3) v(3) rest(4) Cons.prems(4) by auto
    next
      case (Cons t3 a)
      then obtain b where "u' = t3 # b" "params_text xs a" "params_text ys b" "a @ r = b @ q"
        using w(3) v(3) rest(4) \<open>starts_with {TOK_CLOSEPA} q\<close> by auto
      then show ?thesis using Cons.IH [of a ys b r q] Cons.prems(4,5) Cons by auto
    qed
    then show ?thesis using rest w(1) v(1) qs by simp
  qed
qed

text \<open>The two kinds of declarations share everything up to the parameters.\<close>

definition decl_head :: "dtype \<Rightarrow> string \<Rightarrow> string list \<Rightarrow> token list \<Rightarrow> bool" where
  "decl_head ty f ps w \<longleftrightarrow>
     (\<exists>t1 t2 t3 u. w = t1 # t2 # t3 # u \<and> ty = tok_type_to_dtype (tok_type t1) \<and> ident_token f t2 \<and> params_text ps u)"

lemma decl_head_one:
  assumes "decl_head ty f ps w" "decl_head ty' f' ps' w'" "w @ r = w' @ r'" "starts_with {TOK_CLOSEPA} r" "starts_with {TOK_CLOSEPA} r'"
  shows "ty = ty' \<and> f = f' \<and> ps = ps' \<and> w = w' \<and> r = r'"
proof -
  obtain t1 t2 t3 u where w: "w = t1 # t2 # t3 # u" "ty = tok_type_to_dtype (tok_type t1)" "ident_token f t2" "params_text ps u"
    using assms(1) by (auto simp: decl_head_def)
  obtain s1 s2 s3 v where w': "w' = s1 # s2 # s3 # v" "ty' = tok_type_to_dtype (tok_type s1)" "ident_token f' s2" "params_text ps' v"
    using assms(2) by (auto simp: decl_head_def)
  have "ps = ps' \<and> u = v"
    by (rule params_text_one [OF w(4) w'(4) _ assms(4,5)]) (use assms(3) w(1) w'(1) in simp)
  then show ?thesis using assms(3) w w' by (auto simp: ident_token_def)
qed

lemma decl_text_split:
  assumes "decl_text d w"
  obtains (proto) ty f ps u v where "d = Proto_Decl ty f ps" "w = u @ v" "decl_head ty f ps u" "toks [TOK_CLOSEPA, TOK_SEMICL] v"
  | (func) ty f ps "is" u v x y where "d = Func_Decl ty f ps is" "w = u @ v @ x @ y" "decl_head ty f ps u"
      "toks [TOK_CLOSEPA, TOK_OPENBR] v" "items_text is x" "toks [TOK_CLOSEBR] y"
proof (cases d)
  case (Proto_Decl ty f ps)
  then obtain t1 t2 t3 u v where "w = (t1 # t2 # t3 # u) @ v" "decl_head ty f ps (t1 # t2 # t3 # u)" "toks [TOK_CLOSEPA, TOK_SEMICL] v"
    using assms unfolding decl_head_def Proto_Decl decl_text.simps append_Cons by metis
  then show thesis using Proto_Decl by (intro proto)
next
  case (Func_Decl ty f ps "is")
  then obtain t1 t2 t3 u v x y where "w = (t1 # t2 # t3 # u) @ v @ x @ y" "decl_head ty f ps (t1 # t2 # t3 # u)"
      "toks [TOK_CLOSEPA, TOK_OPENBR] v" "items_text is x" "toks [TOK_CLOSEBR] y"
    using assms unfolding decl_head_def Func_Decl decl_text.simps append_Cons by metis
  then show thesis using Func_Decl by (intro func)
qed

lemma starts_toks: "toks (ty # tys) v \<Longrightarrow> starts_with {ty} (v @ r)"
  by (auto dest!: toks_first)

lemma decl_text_one:
  assumes "decl_text d w" "decl_text d' w'" "w @ r = w' @ r'"
  shows "d = d' \<and> w = w'"
  using assms(1)
proof (cases rule: decl_text_split)
  case d: (proto ty f ps u v)
  from assms(2) show ?thesis
  proof (cases rule: decl_text_split)
    case d': (proto ty' f' ps' u' v')
    have "ty = ty' \<and> f = f' \<and> ps = ps' \<and> u = u' \<and> v @ r = v' @ r'"
      by (rule decl_head_one [OF d(3) d'(3)]) (use assms(3) d d' starts_toks in auto)
    then show ?thesis using d d' toks_one [OF d(4) d'(4), of r r'] by auto
  next
    case d': (func ty' f' ps' "is" u' v' x y)
    have "ty = ty' \<and> f = f' \<and> ps = ps' \<and> u = u' \<and> v @ r = v' @ x @ y @ r'"
      by (rule decl_head_one [OF d(3) d'(3)]) (use assms(3) d d' starts_toks in auto)
    then show ?thesis using d(4) d'(4) by (auto dest!: toks_first)
  qed
next
  case d: (func ty f ps "is" u v x y)
  from assms(2) show ?thesis
  proof (cases rule: decl_text_split)
    case d': (proto ty' f' ps' u' v')
    have "ty = ty' \<and> f = f' \<and> ps = ps' \<and> u = u' \<and> v @ x @ y @ r = v' @ r'"
      by (rule decl_head_one [OF d(3) d'(3)]) (use assms(3) d d' starts_toks in auto)
    then show ?thesis using d(4) d'(4) by (auto dest!: toks_first)
  next
    case d': (func ty' f' ps' is' u' v' x' y')
    have "ty = ty' \<and> f = f' \<and> ps = ps' \<and> u = u' \<and> v @ x @ y @ r = v' @ x' @ y' @ r'"
      by (rule decl_head_one [OF d(3) d'(3)]) (use assms(3) d d' starts_toks in auto)
    moreover from this have "v = v'" "x @ y @ r = x' @ y' @ r'" using toks_one [OF d(4) d'(4)] by auto
    moreover from this have "is = is' \<and> x = x'"
      by (intro items_text_one(2) [OF d(5) d'(5)]) (use d(6) d'(6) in \<open>auto simp: after_items_def\<close>)
    ultimately show ?thesis using d d' toks_one [OF d(6) d'(6), of r r'] by auto
  qed
qed

lemma decls_text_one:
  "decls_text ds w \<Longrightarrow> decls_text ds' w' \<Longrightarrow> w @ r = w' @ r' \<Longrightarrow> starts_with {TOK_EOF} r \<Longrightarrow> starts_with {TOK_EOF} r' \<Longrightarrow>
     ds = ds' \<and> w = w'"
proof (induction ds arbitrary: ds' w w')
  case Nil
  then show ?case
    by (cases ds') (auto dest!: decl_starts(3) simp: starts_with_def neq_Nil_conv)
next
  case (Cons d ds)
  obtain u v where w: "w = u @ v" "decl_text d u" "decls_text ds v" using Cons.prems(1) by auto
  show ?case
  proof (cases ds')
    case Nil
    then show ?thesis using Cons.prems w decl_starts(3) [OF w(2)] by (cases u) (auto simp: starts_with_def)
  next
    case ds': (Cons d' es)
    then obtain u' v' where w': "w' = u' @ v'" "decl_text d' u'" "decls_text es v'" using Cons.prems(2) by auto
    have "d = d' \<and> u = u'"
      using decl_text_one [OF w(2) w'(2), of "v @ r" "v' @ r'"] Cons.prems(3) w(1) w'(1) by simp
    moreover from this have "ds = es \<and> v = v'"
      using Cons.IH [OF w(3) w'(3)] Cons.prems(3-5) w(1) w'(1) by simp
    ultimately show ?thesis using w(1) w'(1) ds' by simp
  qed
qed

lemma program_text_one: "program_text ds ts \<Longrightarrow> program_text ds' ts \<Longrightarrow> ds = ds'"
  unfolding program_text_def by (metis decls_text_one starts_with_simps(2) singletonI)

end
