(* ===== verification/Runtime.thy ===== *)
theory Runtime
  imports Bispe_Prelude
begin

text \<open>
  backend/bispe_interpreter.c: the runtime context of a run, its allocation and release.
  The heap is the set of live blocks with their sizes; a pointer is a block and an offset in
  dwords. \<open>hp_fail b\<close> says whether the b-th allocation fails. NULL is None. The contents of
  the buffers are not part of this theory.
\<close>

section \<open>Aligned memory\<close>

unbundle bit_operations_syntax

definition ALIGNMENT :: u64 where "ALIGNMENT = 128"

text \<open>The bytes that \<open>amalloc\<close> asks \<open>vmalloc\<close> for, and the pointer it makes of the answer.\<close>

definition amalloc_request :: "u64 \<Rightarrow> u64" where
  "amalloc_request n = n + (ALIGNMENT - 1) + 8"

definition amalloc_align :: "u64 \<Rightarrow> u64" where
  "amalloc_align mem = (mem + (ALIGNMENT - 1) + 8) AND NOT (ALIGNMENT - 1)"

record heap =
  hp_blocks :: "nat \<Rightarrow> u64 option"
  hp_next :: nat
  hp_fail :: "nat \<Rightarrow> bool"

type_synonym ptr = "nat \<times> int"

definition vmalloc :: "u64 \<Rightarrow> heap \<Rightarrow> nat option \<times> heap" where
  "vmalloc n h =
     (let b = hp_next h; h1 = h\<lparr>hp_next := b + 1\<rparr>
      in if hp_fail h b then (None, h1) else (Some b, h1\<lparr>hp_blocks := (hp_blocks h)(b \<mapsto> n)\<rparr>))"

text \<open>Freeing what is not live is undefined.\<close>

definition vfree :: "nat \<Rightarrow> heap \<Rightarrow> heap outcome" where
  "vfree b h = (if hp_blocks h b = None then Segfault else Ret (h\<lparr>hp_blocks := (hp_blocks h)(b := None)\<rparr>))"

text \<open>The block of an aligned pointer is recorded with the size that was asked for.\<close>

definition amalloc :: "u64 \<Rightarrow> heap \<Rightarrow> ptr option \<times> heap" where
  "amalloc n h = (case vmalloc n h of (Some b, h1) \<Rightarrow> (Some (b, 0), h1) | (None, h1) \<Rightarrow> (None, h1))"

text \<open>\<open>ptr[-1]\<close> is the original pointer only at the pointer that \<open>amalloc\<close> returned.\<close>

definition afree :: "ptr option \<Rightarrow> heap \<Rightarrow> heap outcome" where
  "afree p h = (case p of None \<Rightarrow> Ret h | Some (b, ofs) \<Rightarrow> if ofs = 0 then vfree b h else Segfault)"

section \<open>Contexts\<close>

text \<open>\<open>struct invoke_ctx\<close>: the settings and the sizes of the user's buffers.\<close>

record invoke_ctx =
  ic_stack_size :: u32
  ic_call_size :: u32
  ic_ipc :: u32
  ic_code_size :: u64
  ic_arg_size :: u64
  ic_out_size :: u64

record buf_info =
  bi_ptr :: "ptr option"
  bi_size :: u64

record runtime_ctx =
  rc_block :: nat
  rc_code_seg_bp :: "ptr option"
  rc_stack_seg_bp :: "ptr option"
  rc_call_seg_bp :: "ptr option"
  rc_print_seg_bp :: "ptr option"
  rc_code_seg_size :: u64
  rc_stack_seg_size :: u64
  rc_call_seg_size :: u64
  rc_print_seg_size :: u64
  rc_argc :: u64
  rc_argv :: "ptr option"
  rc_ipc :: u64

text \<open>The globals \<open>bispe_..._seg_size\<close>, \<open>bispe_argc\<close> and \<open>bispe_instr_per_cycle\<close>.\<close>

record globals =
  bispe_code_seg_size :: u64
  bispe_stack_seg_size :: u64
  bispe_call_seg_size :: u64
  bispe_print_seg_size :: u64
  bispe_argc :: u64
  bispe_instr_per_cycle :: u64

definition initial_globals :: globals where
  "initial_globals =
     \<lparr>bispe_code_seg_size = 0, bispe_stack_seg_size = 0, bispe_call_seg_size = 0,
      bispe_print_seg_size = 0, bispe_argc = 0, bispe_instr_per_cycle = 0\<rparr>"

definition DEFAULT_STACK_SIZE :: u64 where "DEFAULT_STACK_SIZE = 20"
definition DEFAULT_CALL_SIZE :: u64 where "DEFAULT_CALL_SIZE = 20"
definition DEFAULT_PRINT_SIZE :: u64 where "DEFAULT_PRINT_SIZE = 20"
definition DEFAULT_INSTR_PER_CYCLE :: u64 where "DEFAULT_INSTR_PER_CYCLE = 2000"

text \<open>The size of a pointer, which is what \<open>sizeof(runtime_ctx)\<close> is.\<close>

definition vzalloc_request :: u64 where "vzalloc_request = 8"

section \<open>Making and releasing a context\<close>

definition free_segments :: "runtime_ctx \<Rightarrow> heap \<Rightarrow> heap outcome" where
  "free_segments rc h =
     obind (afree (rc_code_seg_bp rc) h) (\<lambda>h1. obind (afree (rc_stack_seg_bp rc) h1) (\<lambda>h2.
     obind (afree (rc_call_seg_bp rc) h2) (\<lambda>h3. obind (afree (rc_print_seg_bp rc) h3) (\<lambda>h4.
       afree (rc_argv rc) h4))))"

text \<open>\<open>p += n\<close> on a pointer to dwords.\<close>

definition ptr_add :: "int \<Rightarrow> ptr option \<Rightarrow> ptr option" where
  "ptr_add n p = map_option (\<lambda>(b, ofs). (b, ofs + n)) p"

definition cleanup_runtime_ctx :: "runtime_ctx option \<Rightarrow> heap \<Rightarrow> heap outcome" where
  "cleanup_runtime_ctx rco h =
     (case rco of
        None \<Rightarrow> Ret h
      | Some rc \<Rightarrow>
          obind (free_segments (rc\<lparr>rc_code_seg_bp := ptr_add (- 4) (rc_code_seg_bp rc),
                                   rc_stack_seg_bp := ptr_add (- 4) (rc_stack_seg_bp rc),
                                   rc_call_seg_bp := ptr_add (- 4) (rc_call_seg_bp rc)\<rparr>) h)
            (vfree (rc_block rc)))"

text \<open>The label \<open>error\<close> of \<open>create_runtime_ctx\<close>.\<close>

definition ctx_error :: "runtime_ctx \<Rightarrow> heap \<Rightarrow> (runtime_ctx option \<times> heap) outcome" where
  "ctx_error rc h = obind (free_segments rc h) (\<lambda>h1. obind (vfree (rc_block rc) h1) (\<lambda>h2. Ret (None, h2)))"

text \<open>The context before the segments are allocated.\<close>

definition ctx_settings :: "nat \<Rightarrow> invoke_ctx \<Rightarrow> buf_info \<Rightarrow> buf_info \<Rightarrow> runtime_ctx" where
  "ctx_settings b ic code_buf arg_buf =
     (let argc = bi_size arg_buf div 4;
          stack = (if ic_stack_size ic > 0 then ucast (ic_stack_size ic) else DEFAULT_STACK_SIZE);
          call = (if ic_call_size ic > 0 then ucast (ic_call_size ic) else DEFAULT_CALL_SIZE)
      in \<lparr>rc_block = b, rc_code_seg_bp = bi_ptr code_buf, rc_stack_seg_bp = None, rc_call_seg_bp = None,
          rc_print_seg_bp = None, rc_code_seg_size = bi_size code_buf,
          rc_stack_seg_size = stack * (4 * 4) + 16, rc_call_seg_size = call * (4 * 4) + 16,
          rc_print_seg_size = (if ic_out_size ic > 0 then ic_out_size ic else DEFAULT_PRINT_SIZE),
          rc_argc = argc, rc_argv = (if argc > 0 then bi_ptr arg_buf else None),
          rc_ipc = (if ic_ipc ic > 0 then ucast (ic_ipc ic) else DEFAULT_INSTR_PER_CYCLE)\<rparr>)"

text \<open>The shadowing of the init vectors.\<close>

definition ctx_shadow :: "runtime_ctx \<Rightarrow> runtime_ctx" where
  "ctx_shadow rc =
     rc\<lparr>rc_code_seg_bp := ptr_add 4 (rc_code_seg_bp rc), rc_stack_seg_bp := ptr_add 4 (rc_stack_seg_bp rc),
        rc_call_seg_bp := ptr_add 4 (rc_call_seg_bp rc), rc_code_seg_size := rc_code_seg_size rc - 16,
        rc_stack_seg_size := rc_stack_seg_size rc - 16, rc_call_seg_size := rc_call_seg_size rc - 16\<rparr>"

definition create_runtime_ctx ::
  "globals \<Rightarrow> invoke_ctx \<Rightarrow> buf_info \<Rightarrow> buf_info \<Rightarrow> heap \<Rightarrow> (runtime_ctx option \<times> heap) outcome" where
  "create_runtime_ctx g ic code_buf arg_buf h =
     (case vmalloc vzalloc_request h of
        (None, h1) \<Rightarrow> Segfault
      | (Some b, h1) \<Rightarrow>
          let rc = ctx_settings b ic code_buf arg_buf
          in (case amalloc (bispe_stack_seg_size g) h1 of
                (None, h2) \<Rightarrow> ctx_error rc h2
              | (Some p, h2) \<Rightarrow>
                  let rc1 = rc\<lparr>rc_stack_seg_bp := Some p\<rparr>
                  in (case amalloc (bispe_call_seg_size g) h2 of
                        (None, h3) \<Rightarrow> ctx_error rc1 h3
                      | (Some q, h3) \<Rightarrow>
                          let rc2 = rc1\<lparr>rc_call_seg_bp := Some q\<rparr>
                          in (case amalloc (bispe_print_seg_size g) h3 of
                                (None, h4) \<Rightarrow> ctx_error rc2 h4
                              | (Some r, h4) \<Rightarrow> Ret (Some (ctx_shadow (rc2\<lparr>rc_print_seg_bp := Some r\<rparr>)), h4)))))"

text \<open>\<open>copied\<close>: whether \<open>copy_from_user\<close> succeeds.\<close>

definition get_buf_from_user :: "bool \<Rightarrow> u64 \<Rightarrow> heap \<Rightarrow> ptr option \<times> heap" where
  "get_buf_from_user copied n h =
     (case amalloc n h of
        (None, h1) \<Rightarrow> (None, h1)
      | (Some p, h1) \<Rightarrow> (if copied then (Some p, h1) else (None, h1)))"

text \<open>The two copies are \<open>copied_code\<close> and \<open>copied_args\<close>.\<close>

definition init_interpreter ::
  "bool \<Rightarrow> bool \<Rightarrow> globals \<Rightarrow> invoke_ctx \<Rightarrow> heap \<Rightarrow> (runtime_ctx option \<times> heap) outcome" where
  "init_interpreter copied_code copied_args g ic h =
     (case get_buf_from_user copied_code (ic_code_size ic) h of
        (None, h1) \<Rightarrow> obind (afree None h1) (\<lambda>h2. obind (afree None h2) (\<lambda>h3. Ret (None, h3)))
      | (Some p, h1) \<Rightarrow>
          let code_buf = \<lparr>bi_ptr = Some p, bi_size = ic_code_size ic\<rparr>
          in if ic_arg_size ic > 0 then
               (case get_buf_from_user copied_args (ic_arg_size ic) h1 of
                  (None, h2) \<Rightarrow> obind (afree (Some p) h2) (\<lambda>h3. obind (afree None h3) (\<lambda>h4. Ret (None, h4)))
                | (Some q, h2) \<Rightarrow>
                    create_runtime_ctx g ic code_buf \<lparr>bi_ptr = Some q, bi_size = ic_arg_size ic\<rparr> h2)
             else create_runtime_ctx g ic code_buf \<lparr>bi_ptr = None, bi_size = ic_arg_size ic\<rparr> h1)"

text \<open>\<open>start_interpreter\<close> first copies the context to the globals.\<close>

definition install_ctx :: "runtime_ctx \<Rightarrow> globals" where
  "install_ctx rc =
     \<lparr>bispe_code_seg_size = rc_code_seg_size rc, bispe_stack_seg_size = rc_stack_seg_size rc,
      bispe_call_seg_size = rc_call_seg_size rc, bispe_print_seg_size = rc_print_seg_size rc,
      bispe_argc = rc_argc rc, bispe_instr_per_cycle = rc_ipc rc\<rparr>"

section \<open>Aligned pointers\<close>

lemma mask_ALIGNMENT: "ALIGNMENT - 1 = mask 7"
  by (simp add: ALIGNMENT_def mask_eq_exp_minus_1)

lemma unat_align_down: "unat (push_bit 7 (drop_bit 7 x)) = unat x div 128 * 128" for x :: u64
proof -
  have "unat x < 2 ^ 64" using unsigned_less [of x, where 'a = nat] by simp
  from this have "unat x div 128 * 128 < 2 ^ 64" by (rule le_less_trans [OF div_times_less_eq_dividend])
  moreover have "unat (push_bit 7 (drop_bit 7 x)) = take_bit 64 (push_bit 7 (drop_bit 7 (unat x)))"
    using \<open>unat x < 2 ^ 64\<close> by (simp only: unsigned_push_bit_eq unsigned_drop_bit_eq) (simp add: take_bit_nat_eq_self)
  ultimately show ?thesis by (simp add: push_bit_eq_mult drop_bit_eq_div take_bit_nat_eq_self)
qed



section \<open>Blocks are released once\<close>

definition heap_ok :: "heap \<Rightarrow> bool" where
  "heap_ok h \<longleftrightarrow> (\<forall>b \<ge> hp_next h. hp_blocks h b = None)"

text \<open>The heap \<open>h\<close> is the heap \<open>h0\<close> and the new blocks \<open>B\<close>.\<close>

definition holds :: "heap \<Rightarrow> nat set \<Rightarrow> heap \<Rightarrow> bool" where
  "holds h0 B h \<longleftrightarrow>
     (\<forall>b \<in> B. hp_blocks h0 b = None \<and> hp_blocks h b \<noteq> None) \<and>
     (\<forall>b. b \<notin> B \<longrightarrow> hp_blocks h b = hp_blocks h0 b) \<and>
     (\<forall>b \<ge> hp_next h. hp_blocks h b = None)"

lemma holds_start: "heap_ok h \<Longrightarrow> holds h {} h"
  by (simp add: holds_def heap_ok_def)

lemma holds_empty: "holds h0 {} h \<Longrightarrow> hp_blocks h = hp_blocks h0"
  by (simp add: holds_def fun_eq_iff)

lemma vmalloc_holds:
  assumes "holds h0 B h" "vmalloc n h = (r, h1)"
  shows "case r of None \<Rightarrow> holds h0 B h1 | Some b \<Rightarrow> b \<notin> B \<and> holds h0 (insert b B) h1"
proof -
  have fresh: "hp_blocks h (hp_next h) = None" using assms(1) by (simp add: holds_def)
  moreover have "hp_next h \<notin> B" using fresh assms(1) by (auto simp: holds_def)
  ultimately show ?thesis using assms by (auto simp: vmalloc_def holds_def Let_def split: if_splits)
qed

lemma amalloc_holds:
  assumes "holds h0 B h" "amalloc n h = (r, h1)"
  shows "case r of None \<Rightarrow> holds h0 B h1 | Some (b, ofs) \<Rightarrow> ofs = 0 \<and> b \<notin> B \<and> holds h0 (insert b B) h1"
  using assms vmalloc_holds [OF assms(1), of n] by (auto simp: amalloc_def split: prod.splits option.splits)

lemma vfree_holds:
  assumes "holds h0 B h" "b \<in> B"
  obtains h1 where "vfree b h = Ret h1" "holds h0 (B - {b}) h1"
  using assms by (auto simp: vfree_def holds_def)

text \<open>The blocks behind the five pointers of a context.\<close>

definition seg_ptrs :: "runtime_ctx \<Rightarrow> ptr option list" where
  "seg_ptrs rc = [rc_code_seg_bp rc, rc_stack_seg_bp rc, rc_call_seg_bp rc, rc_print_seg_bp rc, rc_argv rc]"

definition ptr_blocks :: "ptr option list \<Rightarrow> nat list" where
  "ptr_blocks ps = concat (map (\<lambda>p. case p of None \<Rightarrow> [] | Some (b, ofs) \<Rightarrow> [b]) ps)"

lemma ptr_blocks_simps [simp]:
  "ptr_blocks [] = []" "ptr_blocks (None # ps) = ptr_blocks ps" "ptr_blocks (Some (b, ofs) # ps) = b # ptr_blocks ps"
  by (simp_all add: ptr_blocks_def)

fun free_all :: "ptr option list \<Rightarrow> heap \<Rightarrow> heap outcome" where
  "free_all [] h = Ret h"
| "free_all (p # ps) h = obind (afree p h) (free_all ps)"

lemma obind_Ret_right: "obind m Ret = m"
  by (cases m) auto

lemma free_all_fun: "free_all [] = Ret" "free_all (p # ps) = (\<lambda>h. obind (afree p h) (free_all ps))"
  by (simp_all add: fun_eq_iff)

lemma free_segments_all: "free_segments rc h = free_all (seg_ptrs rc) h"
  by (simp add: free_segments_def seg_ptrs_def free_all_fun obind_Ret_right del: free_all.simps)

lemma free_all_holds:
  assumes "holds h0 B h" "distinct (ptr_blocks ps)" "set (ptr_blocks ps) \<subseteq> B"
    and "\<forall>b ofs. Some (b, ofs) \<in> set ps \<longrightarrow> ofs = 0"
  shows "\<exists>h1. free_all ps h = Ret h1 \<and> holds h0 (B - set (ptr_blocks ps)) h1"
  using assms
proof (induction ps arbitrary: h B)
  case (Cons p ps)
  show ?case
  proof (cases p)
    case None
    then show ?thesis using Cons by (simp add: afree_def)
  next
    case (Some q)
    obtain b where q: "q = (b, 0)" using Cons.prems(4) Some by (cases q) auto
    then obtain h1 where h1: "vfree b h = Ret h1" "holds h0 (B - {b}) h1"
      using Cons.prems Some by (auto elim: vfree_holds)
    have "B - insert b (set (ptr_blocks ps)) = B - {b} - set (ptr_blocks ps)" by auto
    moreover have "set (ptr_blocks ps) \<subseteq> B - {b}" using Cons.prems(2,3) Some q by auto
    ultimately show ?thesis
      using Cons.IH [OF h1(2)] Cons.prems Some q h1(1) by (auto simp: afree_def)
  qed
qed simp

text \<open>A context whose pointers are as \<open>amalloc\<close> returned them, and that owns all new blocks.\<close>

definition owns :: "heap \<Rightarrow> runtime_ctx \<Rightarrow> heap \<Rightarrow> bool" where
  "owns h0 rc h \<longleftrightarrow>
     (\<forall>b ofs. Some (b, ofs) \<in> set (seg_ptrs rc) \<longrightarrow> ofs = 0) \<and>
     distinct (rc_block rc # ptr_blocks (seg_ptrs rc)) \<and> holds h0 (set (rc_block rc # ptr_blocks (seg_ptrs rc))) h"

lemma release_owned:
  assumes "owns h0 rc h"
  shows "\<exists>h1. obind (free_segments rc h) (vfree (rc_block rc)) = Ret h1 \<and> holds h0 {} h1"
proof -
  let ?B = "set (ptr_blocks (seg_ptrs rc))"
  obtain h1 where h1: "free_segments rc h = Ret h1" "holds h0 (insert (rc_block rc) ?B - ?B) h1"
    using free_all_holds [of h0 "insert (rc_block rc) ?B" h "seg_ptrs rc"] assms unfolding free_segments_all owns_def by auto
  have "insert (rc_block rc) ?B - ?B = {rc_block rc}" using assms by (auto simp: owns_def)
  with h1 obtain h2 where "vfree (rc_block rc) h1 = Ret h2" "holds h0 {} h2"
    by (auto elim: vfree_holds [of h0 "{rc_block rc}"])
  with h1(1) show ?thesis by simp
qed

lemma ctx_error_holds:
  assumes "owns h0 rc h"
  shows "\<exists>h1. ctx_error rc h = Ret (None, h1) \<and> holds h0 {} h1"
  using release_owned [OF assms] by (auto simp: ctx_error_def outcome_simps)

lemma set_ptr_blocks: "set (ptr_blocks ps) = {b. \<exists>ofs. Some (b, ofs) \<in> set ps}"
  by (induction ps) (auto split: option.splits simp: ptr_blocks_def)

text \<open>One more block for a free slot.\<close>

lemma owns_add:
  assumes "owns h0 rc h" "amalloc n h = (r, h1)"
    and "seg_ptrs rc = ps @ None # qs" "\<And>p. seg_ptrs (upd p rc) = ps @ Some p # qs" "\<And>p. rc_block (upd p rc) = rc_block rc"
  shows "case r of None \<Rightarrow> owns h0 rc h1 | Some p \<Rightarrow> owns h0 (upd p rc) h1"
proof (cases r)
  case None
  then show ?thesis using amalloc_holds [OF _ assms(2)] assms(1) by (simp add: owns_def)
next
  case (Some p)
  let ?L = "rc_block rc # ptr_blocks (ps @ qs)"
  have L: "ptr_blocks (ps @ None # qs) = ptr_blocks (ps @ qs)" by (simp add: ptr_blocks_def)
  obtain b where b: "p = (b, 0)" "b \<notin> set ?L" "holds h0 (insert b (set ?L)) h1"
    using amalloc_holds [OF _ assms(2)] assms(1,3) Some by (cases p) (auto simp: owns_def L)
  have split: "ptr_blocks (ps @ Some p # qs) = ptr_blocks ps @ b # ptr_blocks qs" "ptr_blocks (ps @ qs) = ptr_blocks ps @ ptr_blocks qs"
    by (simp_all add: ptr_blocks_def b(1))
  then have "set (rc_block rc # ptr_blocks (ps @ Some p # qs)) = insert b (set ?L)" by auto
  then show ?thesis
    using assms(1,3,4,5) b Some split by (auto simp: owns_def L)
qed

lemmas owns_add_stack = owns_add [where upd = "\<lambda>p rc. rc\<lparr>rc_stack_seg_bp := Some p\<rparr>"]
lemmas owns_add_call = owns_add [where upd = "\<lambda>p rc. rc\<lparr>rc_call_seg_bp := Some p\<rparr>"]
lemmas owns_add_print = owns_add [where upd = "\<lambda>p rc. rc\<lparr>rc_print_seg_bp := Some p\<rparr>"]

lemma cleanup_shadowed:
  "cleanup_runtime_ctx (Some (ctx_shadow rc)) h = obind (free_segments rc h) (vfree (rc_block rc))"
proof -
  have "ptr_add (- 4) (ptr_add 4 p) = p" for p by (cases p) (auto simp: ptr_add_def)
  then show ?thesis by (simp add: cleanup_runtime_ctx_def ctx_shadow_def free_segments_def)
qed

text \<open>The result of making a context: released completely, or owned and shadowed.\<close>

definition made :: "heap \<Rightarrow> (runtime_ctx option \<times> heap) outcome \<Rightarrow> bool" where
  "made h0 m \<longleftrightarrow>
     m = Segfault \<or> (\<exists>h1. m = Ret (None, h1) \<and> holds h0 {} h1) \<or>
     (\<exists>rc h1. m = Ret (Some (ctx_shadow rc), h1) \<and> owns h0 rc h1)"

lemma create_runtime_ctx_made:
  assumes "holds h0 (set (ptr_blocks [bi_ptr code_buf, bi_ptr arg_buf])) h"
    and "distinct (ptr_blocks [bi_ptr code_buf, bi_ptr arg_buf])"
    and "\<And>b ofs. Some (b, ofs) \<in> {bi_ptr code_buf, bi_ptr arg_buf} \<Longrightarrow> ofs = 0"
    and "bi_ptr arg_buf = None \<longleftrightarrow> bi_size arg_buf div 4 = 0"
  shows "made h0 (create_runtime_ctx g ic code_buf arg_buf h)"
proof -
  have argv: "(if bi_size arg_buf div 4 > 0 then bi_ptr arg_buf else None) = bi_ptr arg_buf"
    using assms(4) by (cases "bi_ptr arg_buf") (auto simp: word_greater_zero_iff)
  obtain r h1 where v: "vmalloc vzalloc_request h = (r, h1)" by (cases "vmalloc vzalloc_request h")
  show ?thesis
  proof (cases r)
    case None
    then show ?thesis by (simp add: create_runtime_ctx_def v made_def)
  next
    case (Some b)
    let ?rc = "ctx_settings b ic code_buf arg_buf"
    have ptrs: "seg_ptrs ?rc = [bi_ptr code_buf, None, None, None, bi_ptr arg_buf]" "rc_block ?rc = b"
      using argv by (simp_all add: ctx_settings_def seg_ptrs_def Let_def)
    then have owns: "owns h0 ?rc h1"
      using vmalloc_holds [OF assms(1) v] Some assms(2,3) by (auto simp: owns_def ptr_blocks_def)
    obtain r1 h2 where a1: "amalloc (bispe_stack_seg_size g) h1 = (r1, h2)" by (cases "amalloc (bispe_stack_seg_size g) h1")
    note o1 = owns_add_stack [OF owns a1, of "[bi_ptr code_buf]" "[None, None, bi_ptr arg_buf]"]
    show ?thesis
    proof (cases r1)
      case None
      then show ?thesis using o1 ptrs Some ctx_error_holds [of h0 ?rc h2]
        by (auto simp: create_runtime_ctx_def v a1 made_def seg_ptrs_def)
    next
      case s: (Some s)
      let ?rc1 = "?rc\<lparr>rc_stack_seg_bp := Some s\<rparr>"
      have owns1: "owns h0 ?rc1 h2" using o1 ptrs s by (simp add: seg_ptrs_def)
      obtain r2 h3 where a2: "amalloc (bispe_call_seg_size g) h2 = (r2, h3)" by (cases "amalloc (bispe_call_seg_size g) h2")
      note o2 = owns_add_call [OF owns1 a2, of "[bi_ptr code_buf, Some s]" "[None, bi_ptr arg_buf]"]
      show ?thesis
      proof (cases r2)
        case None
        then show ?thesis using o2 ptrs Some s ctx_error_holds [of h0 ?rc1 h3]
          by (auto simp: create_runtime_ctx_def v a1 a2 made_def seg_ptrs_def)
      next
        case k: (Some k)
        let ?rc2 = "?rc1\<lparr>rc_call_seg_bp := Some k\<rparr>"
        have owns2: "owns h0 ?rc2 h3" using o2 ptrs k by (simp add: seg_ptrs_def)
        obtain r3 h4 where a3: "amalloc (bispe_print_seg_size g) h3 = (r3, h4)" by (cases "amalloc (bispe_print_seg_size g) h3")
        note o3 = owns_add_print [OF owns2 a3, of "[bi_ptr code_buf, Some s, Some k]" "[bi_ptr arg_buf]"]
        then show ?thesis
          using ptrs Some s k ctx_error_holds [of h0 ?rc2 h4]
          by (cases r3) (auto simp: create_runtime_ctx_def v a1 a2 a3 made_def seg_ptrs_def)
      qed
    qed
  qed
qed

lemma get_buf_True: "get_buf_from_user True n h = amalloc n h"
  by (auto simp: get_buf_from_user_def split: prod.splits option.splits)

lemma get_buf_copied:
  "get_buf_from_user copied n h = (Some p, h1) \<Longrightarrow> get_buf_from_user True n h = (Some p, h1)"
  by (auto simp: get_buf_from_user_def split: prod.splits option.splits if_splits)

lemma afree_holds: "holds h0 (insert b {}) h \<Longrightarrow> \<exists>h1. afree (Some (b, 0)) h = Ret h1 \<and> holds h0 {} h1"
  by (erule vfree_holds [of _ _ _ b]) (auto simp: afree_def)

lemma init_interpreter_made:
  assumes "heap_ok h" "ic_arg_size ic = 0 \<or> 4 \<le> ic_arg_size ic"
  shows "made h (init_interpreter True True g ic h)"
proof -
  have size: "ic_arg_size ic div 4 = 0 \<longleftrightarrow> ic_arg_size ic = 0"
    using assms(2) by (auto simp: unat_eq_0 [symmetric] unat_div word_le_nat_alt)
  obtain r h1 where a: "get_buf_from_user True (ic_code_size ic) h = (r, h1)" by (cases "get_buf_from_user True (ic_code_size ic) h")
  note h1 = amalloc_holds [OF holds_start [OF assms(1)] a [unfolded get_buf_True]]
  show ?thesis
  proof (cases r)
    case None
    then show ?thesis using h1 by (simp add: init_interpreter_def a made_def afree_def)
  next
    case (Some p)
    obtain b where b: "p = (b, 0)" "holds h {b} h1" using h1 Some by (cases p) auto
    show ?thesis
    proof (cases "ic_arg_size ic = 0")
      case True
      then show ?thesis
        using Some b size by (auto simp: init_interpreter_def a Let_def intro!: create_runtime_ctx_made)
    next
      case False
      obtain r1 h2 where a1: "get_buf_from_user True (ic_arg_size ic) h1 = (r1, h2)"
        by (cases "get_buf_from_user True (ic_arg_size ic) h1")
      note h2 = amalloc_holds [OF b(2) a1 [unfolded get_buf_True]]
      show ?thesis
      proof (cases r1)
        case None
        then show ?thesis using h2 Some b False afree_holds [of h b h2]
          by (auto simp: init_interpreter_def a a1 Let_def made_def word_greater_zero_iff afree_def [of None])
      next
        case q: (Some q)
        then show ?thesis
          using h2 Some b size False
          by (cases q) (auto simp: init_interpreter_def a a1 Let_def word_greater_zero_iff insert_commute
              intro!: create_runtime_ctx_made)
      qed
    qed
  qed
qed

text \<open>A context is only made when both copies succeeded.\<close>

lemma init_Some_copied:
  assumes "init_interpreter cc ca g ic h = Ret (Some rc, h')"
  shows "init_interpreter True True g ic h = Ret (Some rc, h')"
proof -
  obtain p h1 where p: "get_buf_from_user cc (ic_code_size ic) h = (Some p, h1)"
    using assms by (auto simp: init_interpreter_def outcome_simps afree_def split: prod.splits option.splits)
  show ?thesis
  proof (cases "ic_arg_size ic > 0")
    case True
    obtain q h2 where q: "get_buf_from_user ca (ic_arg_size ic) h1 = (Some q, h2)"
      using assms p True by (auto simp: init_interpreter_def outcome_simps Let_def split: prod.splits option.splits)
    show ?thesis using assms p q True by (simp add: init_interpreter_def get_buf_copied [OF p] get_buf_copied [OF q])
  next
    case False
    then show ?thesis using assms p by (simp add: init_interpreter_def get_buf_copied [OF p])
  qed
qed

lemma init_released:
  assumes "heap_ok h" "ic_arg_size ic = 0 \<or> 4 \<le> ic_arg_size ic"
    and "init_interpreter copied_code copied_args g ic h = Ret (Some rc, h')"
  shows "\<exists>h''. cleanup_runtime_ctx (Some rc) h' = Ret h'' \<and> hp_blocks h'' = hp_blocks h"
proof -
  obtain rc0 where rc0: "rc = ctx_shadow rc0" "owns h rc0 h'"
    using init_interpreter_made [OF assms(1,2), of g] init_Some_copied [OF assms(3)] by (auto simp: made_def)
  from release_owned [OF rc0(2)] show ?thesis
    unfolding rc0(1) cleanup_shadowed by (auto dest: holds_empty)
qed


definition sample_heap :: heap where
  "sample_heap = \<lparr>hp_blocks = (\<lambda>_. None), hp_next = 0, hp_fail = (\<lambda>_. False)\<rparr>"

definition sample_invoke :: invoke_ctx where
  "sample_invoke =
     \<lparr>ic_stack_size = 0, ic_call_size = 0, ic_ipc = 0, ic_code_size = 64, ic_arg_size = 4, ic_out_size = 160\<rparr>"

lemma sample_made:
  obtains rc h' where "init_interpreter True True initial_globals sample_invoke sample_heap = Ret (Some rc, h')"
proof -
  have "case init_interpreter True True initial_globals sample_invoke sample_heap of Ret (Some rc, h') \<Rightarrow> True | _ \<Rightarrow> False"
    by code_simp
  then show thesis using that by (auto split: outcome.splits option.splits)
qed




section \<open>Sizes\<close>

lemma vmalloc_Some: "vmalloc n h = (Some b, h1) \<longleftrightarrow> \<not> hp_fail h (hp_next h) \<and> b = hp_next h \<and>
    h1 = h\<lparr>hp_next := b + 1, hp_blocks := (hp_blocks h)(b \<mapsto> n)\<rparr>"
  by (auto simp: vmalloc_def Let_def)

lemma amalloc_Some: "amalloc n h = (Some p, h1) \<longleftrightarrow> (\<exists>b. p = (b, 0) \<and> vmalloc n h = (Some b, h1))"
  by (auto simp: amalloc_def split: prod.splits option.splits)

lemma ctx_error_None: "ctx_error rc h \<noteq> Ret (Some rc', h')"
  by (auto simp: ctx_error_def outcome_simps)

lemma create_runtime_ctx_Some:
  assumes "create_runtime_ctx g ic code_buf arg_buf h = Ret (Some rc, h')"
  obtains b s k p where
    "rc = ctx_shadow ((ctx_settings b ic code_buf arg_buf)\<lparr>rc_stack_seg_bp := Some (s, 0), rc_call_seg_bp := Some (k, 0),
       rc_print_seg_bp := Some (p, 0)\<rparr>)"
    "hp_blocks h' s = Some (bispe_stack_seg_size g)" "hp_blocks h' k = Some (bispe_call_seg_size g)"
    "hp_blocks h' p = Some (bispe_print_seg_size g)"
proof -
  obtain b h1 where b: "vmalloc vzalloc_request h = (Some b, h1)"
    using assms by (auto simp: create_runtime_ctx_def split: prod.splits option.splits)
  obtain s h2 where s: "amalloc (bispe_stack_seg_size g) h1 = (Some s, h2)"
    using assms b by (auto simp: create_runtime_ctx_def Let_def ctx_error_None split: prod.splits option.splits)
  obtain k h3 where k: "amalloc (bispe_call_seg_size g) h2 = (Some k, h3)"
    using assms b s by (auto simp: create_runtime_ctx_def Let_def ctx_error_None split: prod.splits option.splits)
  obtain p where p: "amalloc (bispe_print_seg_size g) h3 = (Some p, h')"
    using assms b s k by (auto simp: create_runtime_ctx_def Let_def ctx_error_None split: prod.splits option.splits)
  have rc: "rc = ctx_shadow ((ctx_settings b ic code_buf arg_buf)\<lparr>rc_stack_seg_bp := Some s, rc_call_seg_bp := Some k,
       rc_print_seg_bp := Some p\<rparr>)"
    using assms by (simp add: create_runtime_ctx_def b s k p Let_def)
  obtain s' k' p' where ptrs: "s = (s', 0)" "k = (k', 0)" "p = (p', 0)"
    using s k p by (auto simp: amalloc_Some)
  show thesis
    by (rule that [OF rc [unfolded ptrs]]) (use s k p ptrs in \<open>auto simp: amalloc_Some vmalloc_Some\<close>)
qed

lemma init_Some_create:
  assumes "init_interpreter cc ca g ic h = Ret (Some rc, h')"
  obtains q arg h1 where "create_runtime_ctx g ic \<lparr>bi_ptr = Some q, bi_size = ic_code_size ic\<rparr> arg h1 = Ret (Some rc, h')"
    "bi_size arg = ic_arg_size ic"
proof -
  obtain q h1 where q: "get_buf_from_user cc (ic_code_size ic) h = (Some q, h1)"
    using assms by (auto simp: init_interpreter_def outcome_simps afree_def split: prod.splits option.splits)
  then show thesis
    using assms that by (auto simp: init_interpreter_def outcome_simps Let_def split: prod.splits option.splits if_splits)
qed

lemma lines_to_bytes: "unat ((ucast n :: u64) * (4 * 4)) = 16 * unat n" for n :: u32
proof -
  have "unat n < 2 ^ 32" using unsigned_less [of n, where 'a = nat] by simp
  then show ?thesis by (simp add: unat_word_ariths unsigned_ucast_eq take_bit_nat_eq_self)
qed

lemma init_sizes:
  assumes "init_interpreter copied_code copied_args g ic h = Ret (Some rc, h')"
  shows "unat (rc_stack_seg_size rc) = 16 * (if ic_stack_size ic = 0 then 20 else unat (ic_stack_size ic)) \<and>
    unat (rc_call_seg_size rc) = 16 * (if ic_call_size ic = 0 then 20 else unat (ic_call_size ic)) \<and>
    rc_print_seg_size rc = (if ic_out_size ic = 0 then 20 else ic_out_size ic) \<and>
    unat (rc_argc rc) = unat (ic_arg_size ic) div 4 \<and>
    rc_code_seg_size rc = ic_code_size ic - 16 \<and>
    (\<exists>s k p. rc_stack_seg_bp rc = Some (s, 4) \<and> hp_blocks h' s = Some (bispe_stack_seg_size g) \<and>
       rc_call_seg_bp rc = Some (k, 4) \<and> hp_blocks h' k = Some (bispe_call_seg_size g) \<and>
       rc_print_seg_bp rc = Some (p, 0) \<and> hp_blocks h' p = Some (bispe_print_seg_size g))"
proof -
  obtain q arg h1 where "create_runtime_ctx g ic \<lparr>bi_ptr = Some q, bi_size = ic_code_size ic\<rparr> arg h1 = Ret (Some rc, h')"
    and arg: "bi_size arg = ic_arg_size ic"
    by (rule init_Some_create [OF assms])
  from this(1) show ?thesis
    by (rule create_runtime_ctx_Some)
      (auto simp: ctx_shadow_def ctx_settings_def ptr_add_def arg Let_def lines_to_bytes [simplified] unat_div word_greater_zero_iff
        DEFAULT_STACK_SIZE_def DEFAULT_CALL_SIZE_def DEFAULT_PRINT_SIZE_def)
qed

text \<open>C33 The sizes of a new context: stack and call segment have the given number of 16-byte lines
  or the default, and a code buffer of \<open>n\<close> bytes leaves \<open>n - 16\<close> bytes of code. The blocks
  behind the three segments do not have these sizes: they have what the globals hold from the
  run before, nothing for the first run.\<close>

theorem ctx_sizes:
  assumes "init_interpreter copied_code copied_args g ic h = Ret (Some rc, h')"
  shows "unat (rc_stack_seg_size rc) = 16 * (if ic_stack_size ic = 0 then 20 else unat (ic_stack_size ic)) \<and>
    unat (rc_call_seg_size rc) = 16 * (if ic_call_size ic = 0 then 20 else unat (ic_call_size ic)) \<and>
    rc_print_seg_size rc = (if ic_out_size ic = 0 then 20 else ic_out_size ic) \<and>
    unat (rc_argc rc) = unat (ic_arg_size ic) div 4 \<and>
    rc_code_seg_size rc = ic_code_size ic - 16 \<and>
    (\<exists>s k p. rc_stack_seg_bp rc = Some (s, 4) \<and> hp_blocks h' s = Some (bispe_stack_seg_size g) \<and>
       rc_call_seg_bp rc = Some (k, 4) \<and> hp_blocks h' k = Some (bispe_call_seg_size g) \<and>
       rc_print_seg_bp rc = Some (p, 0) \<and> hp_blocks h' p = Some (bispe_print_seg_size g))"
  using assms by (rule init_sizes)

theorem ctx_sizes_witness:
  "\<exists>rc h'. init_interpreter True True initial_globals sample_invoke sample_heap = Ret (Some rc, h') \<and>
     unat (rc_stack_seg_size rc) = 320 \<and> rc_code_seg_size rc = 48 \<and>
     (\<exists>s. rc_stack_seg_bp rc = Some (s, 4) \<and> hp_blocks h' s = Some 0)"
proof -
  obtain rc h' where made: "init_interpreter True True initial_globals sample_invoke sample_heap = Ret (Some rc, h')"
    by (rule sample_made)
  from ctx_sizes [OF this] have "unat (rc_stack_seg_size rc) = 320 \<and> rc_code_seg_size rc = 48 \<and>
     (\<exists>s. rc_stack_seg_bp rc = Some (s, 4) \<and> hp_blocks h' s = Some 0)"
    by (auto simp: sample_invoke_def initial_globals_def)
  with made show ?thesis by blast
qed

end
