(* ===== verification/Frontend.thy ===== *)
theory Frontend
  imports Ast Runtime
begin

text \<open>
  frontend/bispe.c: reading the executable and the password, the command line, and the report
  of the run. \<open>getopt_long\<close> is the list of options it returns one after the other; streams are
  the bytes that \<open>fgetc\<close> returns; memory that C does not initialise is an argument.
\<close>

section \<open>Reading\<close>

definition FILE_BUFSIZE :: nat where "FILE_BUFSIZE = 256"

text \<open>
  The loop of \<open>read_file\<close> on the bytes that are left: the buffer has \<open>buf_size\<close> bytes, the
  first \<open>pos\<close> of which are written; \<open>realloc\<close> keeps them and adds \<open>junk\<close>. None is a write
  outside the buffer.
\<close>

fun read_loop :: "(nat \<Rightarrow> u8) \<Rightarrow> u8 list \<Rightarrow> u8 list \<Rightarrow> nat \<Rightarrow> nat \<Rightarrow> (u8 list \<times> nat) option" where
  "read_loop junk [] buf pos buf_size = Some (buf, pos)"
| "read_loop junk (ch # chs) buf pos buf_size =
     (if pos < length buf then
        (let buf1 = buf[pos := ch]; pos1 = pos + 1
         in if pos1 = buf_size
            then read_loop junk chs (buf1 @ map junk [0..<buf_size]) pos1 (buf_size * 2)
            else read_loop junk chs buf1 pos1 buf_size)
      else None)"

text \<open>The buffer and \<open>*size\<close>.\<close>

definition read_file :: "(nat \<Rightarrow> u8) \<Rightarrow> u8 list \<Rightarrow> (u8 list \<times> nat) option" where
  "read_file junk content =
     read_loop junk content (map junk [0..<FILE_BUFSIZE + 1]) 0 (FILE_BUFSIZE + 1)"

text \<open>
  The loop of \<open>read_password\<close> with \<open>size\<close> \<open>n\<close>. Its \<open>ch\<close> is a \<open>char\<close>, so the byte 0xFF
  compares equal to \<open>EOF\<close>.
\<close>

fun password_loop :: "u8 list \<Rightarrow> u8 list \<Rightarrow> nat \<Rightarrow> nat \<Rightarrow> u8 list" where
  "password_loop [] buf pos n = buf"
| "password_loop (ch # chs) buf pos n =
     (if ch = 0xFF \<or> ch = 10 then buf
      else let buf1 = buf[pos := ch] in
           if pos + 1 \<ge> n then buf1 else password_loop chs buf1 (pos + 1) n)"

text \<open>\<open>pw\<close> is the array of 54 bytes on the stack before the call; the result tells whether it is
  not NULL, and the array.\<close>

definition read_password :: "bool \<Rightarrow> u8 list \<Rightarrow> u8 list \<Rightarrow> bool \<times> u8 list" where
  "read_password failed input pw =
     (if failed then (False, replicate (length pw) 0) else (True, password_loop input pw 0 (length pw)))"

section \<open>The command line\<close>

text \<open>\<open>strtoul(s, &endptr, 10)\<close>: the value, and whether the whole string was read.\<close>

definition ULONG_MAX :: int where "ULONG_MAX = 2 ^ 64 - 1"

definition strtoul :: "string \<Rightarrow> int \<times> bool" where
  "strtoul s =
     (let s1 = dropWhile is_c_space s;
          neg = char_at s1 0 = CHR ''-'';
          s2 = (if neg \<or> char_at s1 0 = CHR ''+'' then tl s1 else s1);
          ds = takeWhile (\<lambda>c. digit_value c < 10) s2;
          n = digits_value 10 ds
      in if ds = [] then (0, s = [])
         else (if n > ULONG_MAX then ULONG_MAX else if neg \<and> n \<noteq> 0 then ULONG_MAX + 1 - n else n,
               drop (length ds) s2 = []))"

datatype option_char = Opt_Password | Opt_Stack_Size | Opt_Call_Size | Opt_Print_Size | Opt_Instr_Per_Cycle | Opt_Unknown

record settings =
  set_password :: bool
  stack_size :: u64
  call_size :: u64
  print_size :: u64
  instr_per_cycle' :: u64

definition initial_settings :: settings where
  "initial_settings = \<lparr>set_password = False, stack_size = 0, call_size = 0, print_size = 40, instr_per_cycle' = 0\<rparr>"

text \<open>One turn of the option loop; \<open>exit(EXIT_FAILURE)\<close> on a number with other characters.\<close>

definition number_option :: "string \<Rightarrow> (u64 \<Rightarrow> settings) \<Rightarrow> settings outcome" where
  "number_option optarg store =
     (case strtoul optarg of (n, complete) \<Rightarrow> if complete then Ret (store (of_int n)) else Exit_Failure)"

fun parse_option :: "option_char \<times> string \<Rightarrow> settings \<Rightarrow> settings outcome" where
  "parse_option (Opt_Password, optarg) s = Ret (s\<lparr>set_password := True\<rparr>)"
| "parse_option (Opt_Stack_Size, optarg) s = number_option optarg (\<lambda>n. s\<lparr>stack_size := n\<rparr>)"
| "parse_option (Opt_Call_Size, optarg) s = number_option optarg (\<lambda>n. s\<lparr>call_size := n\<rparr>)"
| "parse_option (Opt_Print_Size, optarg) s = number_option optarg (\<lambda>n. s\<lparr>print_size := n\<rparr>)"
| "parse_option (Opt_Instr_Per_Cycle, optarg) s = number_option optarg (\<lambda>n. s\<lparr>instr_per_cycle' := n\<rparr>)"
| "parse_option (Opt_Unknown, optarg) s = Exit_Failure"

fun parse_options :: "(option_char \<times> string) list \<Rightarrow> settings \<Rightarrow> settings outcome" where
  "parse_options [] s = Ret s"
| "parse_options (opt # opts) s = obind (parse_option opt s) (parse_options opts)"

text \<open>One argument of the program, and all of them.\<close>

definition parse_arg :: "string \<Rightarrow> u32 outcome" where
  "parse_arg arg =
     (let r = strtol arg; number = st_value r
      in if st_erange r \<or> number > UINT32_MAX \<or> number < INT32_MIN then Exit_Failure
         else if st_rest r \<noteq> [] then Exit_Failure
         else Ret (of_int number))"

fun parse_args :: "string list \<Rightarrow> u32 list outcome" where
  "parse_args [] = Ret []"
| "parse_args (arg # args) = obind (parse_arg arg) (\<lambda>n. obind (parse_args args) (\<lambda>ns. Ret (n # ns)))"

text \<open>The initializer of \<open>invoke_ctx\<close>: \<open>size_t\<close> settings become \<open>unsigned int\<close>.\<close>

definition build_invoke_ctx :: "settings \<Rightarrow> u32 list \<Rightarrow> u64 \<Rightarrow> invoke_ctx" where
  "build_invoke_ctx s interpr_argv infile_size =
     \<lparr>ic_stack_size = ucast (stack_size s), ic_call_size = ucast (call_size s), ic_ipc = ucast (instr_per_cycle' s),
      ic_code_size = infile_size, ic_arg_size = of_nat (length interpr_argv) * 4, ic_out_size = print_size s * 4\<rparr>"

section \<open>The report\<close>

definition digit_of :: "nat \<Rightarrow> char" where
  "digit_of n = char_of (48 + n)"

fun dec_digits :: "nat \<Rightarrow> string" where
  "dec_digits n = (if n < 10 then [digit_of n] else dec_digits (n div 10) @ [digit_of (n mod 10)])"

declare dec_digits.simps [simp del]

text \<open>\<open>printf("%d", w)\<close>.\<close>

definition printf_d :: "int \<Rightarrow> string" where
  "printf_d i = (if i < 0 then CHR ''-'' # dec_digits (nat (- i)) else dec_digits (nat i))"

definition error_code_strings :: "string option list" where
  "error_code_strings =
    [None, Some ''illegal opcode'', Some ''invalid jump target'', Some ''stack overflow'', Some ''stack underflow'',
     Some ''call stack overflow'', Some ''call stack underflow'', Some ''division by zero'', Some ''argument out of range'']"

definition error_help_strings :: "string option list" where
  "error_help_strings =
    [None, Some ''Check if the correct password is set.'', None,
     Some ''Try to increase the stack size with --stack-size.'', None,
     Some ''Try to increase the call stack size with --call-size.'', None, None,
     Some ''Try to supply more command line arguments.'']"

definition newline :: string where "newline = [CHR 0x0A]"

text \<open>What is written to stdout for a result \<open>r > 0\<close>; printing a NULL string is undefined.\<close>

definition report_error :: "int \<Rightarrow> string outcome" where
  "report_error r =
     (if r < int (length error_code_strings) then
        (case error_code_strings ! nat r of
           None \<Rightarrow> Segfault
         | Some msg \<Rightarrow>
             Ret (''interpreter runtime error '' @ printf_d r @ '': '' @ msg @ newline @
                  (case error_help_strings ! nat r of None \<Rightarrow> [] | Some help \<Rightarrow> help @ newline)))
      else Ret (''interpreter runtime error '' @ printf_d r @ '': unknown error code.'' @ newline))"

text \<open>\<open>written\<close> is the byte count that the backend returned.\<close>

definition report :: "int \<Rightarrow> nat \<Rightarrow> u32 list \<Rightarrow> string outcome" where
  "report interpr_result written print_buf =
     (if interpr_result = - 1 then Exit_Failure
      else if drop_bit 2 written > length print_buf then Segfault
      else obind (if interpr_result > 0 then report_error interpr_result else Ret []) (\<lambda>msg.
        Ret (msg @ concat (map (\<lambda>i. printf_d (sint (print_buf ! i)) @ newline) [0..<drop_bit 2 written]))))"

section \<open>The main program\<close>

text \<open>
  Setting the password: \<open>confirm\<close> is the line that \<open>fgets\<close> returns, \<open>set_pw\<close> is whether the write to
  the backend succeeds. The result is what is sent to the backend and whether the program goes on.
\<close>

definition password_dialog ::
  "string option \<Rightarrow> bool \<Rightarrow> u8 list \<Rightarrow> u8 list \<Rightarrow> (u8 list \<Rightarrow> bool) \<Rightarrow> u8 list option \<times> bool" where
  "password_dialog confirm stdin_failed input pw set_pw =
     (case confirm of
        None \<Rightarrow> (None, False)
      | Some line \<Rightarrow>
          if char_at line 0 \<noteq> CHR ''y'' then (None, False)
          else (let (ok, buf) = read_password stdin_failed input pw
                in if set_pw buf then (Some buf, True) else (Some buf, False)))"

text \<open>
  Running the executable: \<open>fopen\<close> gives the bytes of a file, \<open>backend\<close> is the write of the
  request: given the request, the code and the arguments it returns the result, the return value
  of the write and the print buffer, or None when the device cannot be opened or written.
\<close>

definition run_executable ::
  "(string \<Rightarrow> u8 list option) \<Rightarrow> (nat \<Rightarrow> u8) \<Rightarrow>
   (invoke_ctx \<Rightarrow> u8 list \<Rightarrow> u32 list \<Rightarrow> (int \<times> nat \<times> u32 list) option) \<Rightarrow>
   settings \<Rightarrow> string \<Rightarrow> u32 list \<Rightarrow> string outcome" where
  "run_executable fopen junk backend s infile interpr_argv =
     (case fopen infile of
        None \<Rightarrow> Exit_Failure
      | Some content \<Rightarrow>
          (case read_file junk content of
             None \<Rightarrow> Segfault
           | Some (infile_buf, infile_size) \<Rightarrow>
               (case backend (build_invoke_ctx s interpr_argv (of_nat infile_size)) (take infile_size infile_buf)
                       interpr_argv of
                  None \<Rightarrow> Exit_Failure
                | Some (interpr_result, written, print_buf) \<Rightarrow> report interpr_result written print_buf)))"

text \<open>
  \<open>argv\<close> are the arguments from \<open>optind\<close> on. With \<open>-p\<close> and no executable, \<open>interpr_argc\<close> is
  negative and the array \<open>interpr_argv\<close> of that length is undefined. The result is what was
  sent to the password device, and what is printed.
\<close>

definition frontend_main ::
  "(option_char \<times> string) list \<Rightarrow> string list \<Rightarrow> (u8 list option \<times> bool) \<Rightarrow>
   (settings \<Rightarrow> string \<Rightarrow> u32 list \<Rightarrow> string outcome) \<Rightarrow> u8 list option \<times> string outcome" where
  "frontend_main opts argv dialog run =
     (case parse_options opts initial_settings of
        Ret s \<Rightarrow>
          (case argv of
             [] \<Rightarrow> (None, if set_password s then Segfault else Exit_Failure)
           | infile # args \<Rightarrow>
               (case parse_args args of
                  Ret interpr_argv \<Rightarrow>
                    if set_password s then
                      (case dialog of (sent, go_on) \<Rightarrow> (sent, if go_on then run s infile interpr_argv else Exit_Failure))
                    else (None, run s infile interpr_argv)
                | _ \<Rightarrow> (None, Exit_Failure)))
      | _ \<Rightarrow> (None, Exit_Failure))"

section \<open>Reading is complete and in bounds\<close>

lemma read_loop_content:
  assumes "length buf = n" "pos < n"
  shows "\<exists>buf'. read_loop junk chs buf pos n = Some (buf', pos + length chs) \<and>
    take (pos + length chs) buf' = take pos buf @ chs \<and> pos + length chs < length buf'"
  using assms
proof (induction chs arbitrary: buf pos n)
  case (Cons ch chs)
  let ?buf = "buf[pos := ch]"
  have written: "take (Suc pos) ?buf = take pos buf @ [ch]"
    using Cons.prems by (simp add: take_Suc_conv_app_nth)
  show ?case
  proof (cases "pos + 1 = n")
    case True
    let ?buf' = "?buf @ map junk [0..<n]"
    have "take (Suc pos) ?buf' = take pos buf @ [ch]" using written Cons.prems by simp
    then show ?thesis
      using Cons.IH [of ?buf' "n * 2" "pos + 1"] Cons.prems True by (auto simp: Let_def)
  next
    case False
    then show ?thesis
      using Cons.IH [of ?buf n "pos + 1"] Cons.prems written by (auto simp: Let_def)
  qed
qed simp

lemma read_file_whole:
  "\<exists>buf. read_file junk content = Some (buf, length content) \<and> take (length content) buf = content \<and>
     length content < length buf"
  using read_loop_content [of "map junk [0..<FILE_BUFSIZE + 1]" "FILE_BUFSIZE + 1" 0 junk content]
  by (simp add: read_file_def del: upt_Suc)


section \<open>The password that is sent\<close>

lemma password_loop_typed:
  assumes "\<forall>ch \<in> set p. ch \<noteq> 0xFF \<and> ch \<noteq> 10" "pos + length p < n" "n = length buf"
  shows "password_loop (p @ 10 # rest) buf pos n = take pos buf @ p @ drop (pos + length p) buf"
  using assms
proof (induction p arbitrary: buf pos)
  case (Cons ch p)
  have "take (Suc pos) (buf[pos := ch]) = take pos buf @ [ch]"
    using Cons.prems by (simp add: take_Suc_conv_app_nth)
  then show ?case using Cons.IH [of "Suc pos" "buf[pos := ch]"] Cons.prems by (auto simp: Let_def)
qed simp

text \<open>C36 The password is sent without a terminator: the backend, which hashes the bytes up to the
  first zero, sees the typed password only if the next byte of the uninitialised array happens
  to be zero; otherwise the array's garbage is part of the key.\<close>

theorem password_garbage:
  assumes "length pw = 54" "length p < 53" "\<forall>ch \<in> set p. ch \<noteq> 0xFF \<and> ch \<noteq> 10 \<and> ch \<noteq> 0"
  shows "takeWhile (\<lambda>b. b \<noteq> 0) (take 53 (snd (read_password False (p @ 10 # rest) pw))) = p \<longleftrightarrow> pw ! length p = 0"
proof -
  have "snd (read_password False (p @ 10 # rest) pw) = p @ drop (length p) pw"
    using password_loop_typed [of p 0 "length pw" pw rest] assms(2,3) by (simp add: read_password_def assms(1))
  moreover have "53 - length p = Suc (52 - length p)" using assms(2) by linarith
  moreover have "drop (length p) pw = pw ! length p # drop (Suc (length p)) pw"
    using assms(1,2) by (simp add: Cons_nth_drop_Suc)
  ultimately have "take 53 (snd (read_password False (p @ 10 # rest) pw)) = p @ pw ! length p # take (52 - length p) (drop (Suc (length p)) pw)"
    using assms(2) by (simp only: take_append take_Suc_Cons take_all less_imp_le)
  then show ?thesis using assms(3) by (simp only: takeWhile_append) auto
qed

theorem password_garbage_witness:
  "takeWhile (\<lambda>b. b \<noteq> 0) (take 53 (snd (read_password False ([0x61, 0x62] @ 10 # []) (replicate 54 0x78)))) \<noteq> [0x61, 0x62]"
  using password_garbage [of "replicate 54 0x78" "[0x61, 0x62]" "[]"] by simp

section \<open>Arguments\<close>

lemma digits_value_snoc: "digits_value b (ds @ [c]) = digits_value b ds * b + digit_value c"
  by (simp add: digits_value_def)

lemma digit_char: "n < 10 \<Longrightarrow> digit_value (digit_of n) = int n \<and> \<not> is_c_space (digit_of n) \<and>
    (digit_of n = CHR ''0'' \<longleftrightarrow> n = 0) \<and> digit_of n \<noteq> CHR ''-'' \<and> digit_of n \<noteq> CHR ''+'' \<and>
    digit_of n \<noteq> CHR ''x'' \<and> digit_of n \<noteq> CHR ''X''"
proof -
  have all: "list_all (\<lambda>n. digit_value (digit_of n) = int n \<and> \<not> is_c_space (digit_of n) \<and>
    (digit_of n = CHR ''0'' \<longleftrightarrow> n = 0) \<and> digit_of n \<noteq> CHR ''-'' \<and> digit_of n \<noteq> CHR ''+'' \<and>
    digit_of n \<noteq> CHR ''x'' \<and> digit_of n \<noteq> CHR ''X'') [0..<10 :: nat]"
    by code_simp
  assume "n < 10"
  then have "n \<in> set [0..<10]" by simp
  with all show ?thesis unfolding list_all_iff by blast
qed

lemma dec_digits_facts:
  "dec_digits n \<noteq> [] \<and> digits_value 10 (dec_digits n) = int n \<and>
   (\<forall>c \<in> set (dec_digits n). \<exists>d < 10. c = digit_of d) \<and>
   (0 < n \<longrightarrow> hd (dec_digits n) \<noteq> CHR ''0'') \<and> (n = 0 \<longrightarrow> dec_digits n = [digit_of 0])"
proof (induction n rule: less_induct)
  case (less n)
  show ?case
  proof (cases "n < 10")
    case True
    then show ?thesis
      using digit_char [OF True] by (auto simp: dec_digits.simps [of n] dec_digits.simps [of 0] digits_value_def)
  next
    case False
    have "0 < n div 10" "n div 10 < n" using False by auto
    moreover from this have "digits_value 10 (dec_digits (n div 10)) = int (n div 10)"
        "dec_digits (n div 10) \<noteq> []" "hd (dec_digits (n div 10)) \<noteq> CHR ''0''"
        "\<forall>c \<in> set (dec_digits (n div 10)). \<exists>d < 10. c = digit_of d"
      using less [of "n div 10"] by auto
    moreover have "int n = int (n div 10) * 10 + int (n mod 10)"
      by (metis div_mult_mod_eq of_nat_add of_nat_mult of_nat_numeral)
    moreover have "digit_value (digit_of (n mod 10)) = int (n mod 10)" "\<exists>d < 10. digit_of (n mod 10) = digit_of d"
      using digit_char [of "n mod 10"] by (auto intro!: exI [of _ "n mod 10"])
    moreover have "dec_digits n = dec_digits (n div 10) @ [digit_of (n mod 10)]"
      using False by (simp add: dec_digits.simps [of n])
    ultimately show ?thesis
      using False by (simp only: digits_value_snoc) auto
  qed
qed

lemma dec_digits_head: "\<exists>c cs. dec_digits n = c # cs \<and> \<not> is_c_space c \<and> c \<noteq> CHR ''-'' \<and> c \<noteq> CHR ''+'' \<and>
    (0 < n \<longrightarrow> c \<noteq> CHR ''0'')"
  using dec_digits_facts [of n] digit_char by (cases "dec_digits n") auto

lemma takeWhile_dec_digits: "takeWhile (\<lambda>c. digit_value c < 10) (dec_digits n) = dec_digits n"
  using dec_digits_facts [of n] digit_char by (auto simp: takeWhile_eq_all_conv)

text \<open>The digits after the sign.\<close>

lemma strtol_base_dec:
  "\<exists>b. strtol_base (dec_digits n) = (b, dec_digits n) \<and>
     takeWhile (\<lambda>c. digit_value c < b) (dec_digits n) = dec_digits n \<and> digits_value b (dec_digits n) = int n"
proof (cases "n = 0")
  case True
  have "strtol_base ''0'' = (8, ''0'')" "takeWhile (\<lambda>c. digit_value c < 8) ''0'' = ''0''" "digits_value 8 ''0'' = 0"
    by code_simp+
  moreover have "dec_digits 0 = ''0''" by code_simp
  ultimately show ?thesis using True by auto
next
  case False
  then show ?thesis
    using dec_digits_head [of n] dec_digits_facts [of n] takeWhile_dec_digits [of n]
    by (intro exI [of _ 10]) (auto simp: strtol_base_def)
qed

lemma strtol_printf_d:
  assumes "LONG_MIN \<le> i" "i \<le> LONG_MAX"
  shows "strtol (printf_d i) = \<lparr>st_value = i, st_erange = False, st_rest = []\<rparr>"
proof -
  define n where "n = nat \<bar>i\<bar>"
  obtain b where b: "strtol_base (dec_digits n) = (b, dec_digits n)"
      "takeWhile (\<lambda>c. digit_value c < b) (dec_digits n) = dec_digits n" "digits_value b (dec_digits n) = int n"
    using strtol_base_dec by blast
  obtain c cs where c: "dec_digits n = c # cs" "\<not> is_c_space c" "c \<noteq> CHR ''-''" "c \<noteq> CHR ''+''"
    using dec_digits_head by blast
  show ?thesis
  proof (cases "i < 0")
    case True
    then have "printf_d i = CHR ''-'' # dec_digits n" "int n = - i" by (simp_all add: printf_d_def n_def)
    then show ?thesis using b c assms by (auto simp: strtol_def Let_def is_c_space_def)
  next
    case False
    then have "printf_d i = dec_digits n" "int n = i" by (simp_all add: printf_d_def n_def)
    then show ?thesis using b c assms by (auto simp: strtol_def Let_def)
  qed
qed

lemma parse_printed: "parse_arg (printf_d (sint w)) = Ret w"
proof -
  have "- (2 ^ 31) \<le> sint w" "sint w < 2 ^ 31"
    using sint_greater_eq [of w] sint_less [of w] by simp_all
  moreover from this have "strtol (printf_d (sint w)) = \<lparr>st_value = sint w, st_erange = False, st_rest = []\<rparr>"
    by (intro strtol_printf_d) (simp_all add: LONG_MIN_def LONG_MAX_def)
  ultimately show ?thesis by (simp add: parse_arg_def UINT32_MAX_def INT32_MIN_def Let_def)
qed

lemma parse_args_printed: "parse_args (map (\<lambda>w. printf_d (sint w)) ws) = Ret ws"
  by (induction ws) (auto simp: parse_printed)

text \<open>C35 Numbers go round: the text that the report prints for a word is accepted as an argument of
  a program and gives the word.\<close>

theorem printed_argument: "parse_arg (printf_d (sint w)) = Ret w"
  by (rule parse_printed)

text \<open>C34 The request of the frontend: without options, a file's bytes and the words of its
  arguments reach the backend unchanged, with the file's length as the size of the code and four
  bytes for each argument, default sizes everywhere and room for 40 words of output; what the
  backend answers is reported, and nothing is sent to the password device.\<close>

theorem frontend_request:
  assumes "fopen infile = Some content"
  shows "frontend_main [] (infile # map (\<lambda>w. printf_d (sint w)) ws) dialog (run_executable fopen junk backend) =
    (None,
     case backend \<lparr>ic_stack_size = 0, ic_call_size = 0, ic_ipc = 0, ic_code_size = of_nat (length content),
                   ic_arg_size = of_nat (4 * length ws), ic_out_size = 160\<rparr> content ws of
       None \<Rightarrow> Exit_Failure
     | Some (r, written, print_buf) \<Rightarrow> report r written print_buf)"
proof -
  obtain buf where "read_file junk content = Some (buf, length content)" "take (length content) buf = content"
    using read_file_whole by blast
  then show ?thesis
    using assms
    by (simp add: frontend_main_def parse_args_printed run_executable_def build_invoke_ctx_def initial_settings_def
        mult.commute)
qed

definition sample_backend :: "invoke_ctx \<Rightarrow> u8 list \<Rightarrow> u32 list \<Rightarrow> (int \<times> nat \<times> u32 list) option" where
  "sample_backend ctx code args = Some (0, 4 * length args, args)"

theorem frontend_request_witness:
  "frontend_main [] [''a.scle'', ''7''] (None, False)
     (run_executable (\<lambda>f. if f = ''a.scle'' then Some [1, 2] else None) (\<lambda>i. 0) sample_backend) =
   (None, Ret (''7'' @ newline))"
proof -
  have "printf_d (sint (7 :: u32)) = ''7''" by code_simp
  then show ?thesis
    using frontend_request [of "\<lambda>f. if f = ''a.scle'' then Some [1, 2] else None" "''a.scle''" "[1, 2]" "[7]"
        "(None, False)" "\<lambda>i. 0" sample_backend]
    by (simp add: sample_backend_def report_def)
qed




end
