(* ===== verification/Kernel.thy ===== *)
theory Kernel
  imports Runtime Vm_Cycles
begin

text \<open>
  backend/bispe_main.c: the sysfs entry points \<open>encrypt_code\<close> and \<open>invoke_interpreter\<close>, and the
  handshake between the invoking process and the interpreter thread. What user space and the
  kernel's services answer (copies, allocations, the thread's run) is an argument.
\<close>

section \<open>encrypt_code\<close>

text \<open>Memory of dwords as 16-byte blocks.\<close>

fun lines_of :: "u32 list \<Rightarrow> line list" where
  "lines_of (a # b # c # d # ws) = Line a b c d # lines_of ws"
| "lines_of _ = []"

definition words_of :: "line list \<Rightarrow> u32 list" where
  "words_of ls = concat (map (\<lambda>l. [dword0 l, dword1 l, dword2 l, dword3 l]) ls)"

definition bispe_encblk_mem_cbc :: "block_fun \<Rightarrow> line \<Rightarrow> line \<Rightarrow> line" where
  "bispe_encblk_mem_cbc enc block previous = enc (line_xor block previous)"

text \<open>The loop over the 16-byte blocks after the first.\<close>

definition encrypt_blocks :: "block_fun \<Rightarrow> line list \<Rightarrow> line list" where
  "encrypt_blocks enc buf =
     foldl (\<lambda>b i. b[i := bispe_encblk_mem_cbc enc (b ! i) (b ! (i - 1))]) buf [1..<length buf]"

definition sizeof_buf_info :: nat where "sizeof_buf_info = 16"

text \<open>
  The user's buffer of \<open>length user\<close> dwords; the result is the return value and the user's
  buffer afterwards.
\<close>

definition encrypt_code :: "block_fun \<Rightarrow> bool \<Rightarrow> bool \<Rightarrow> nat \<Rightarrow> u32 list \<Rightarrow> nat \<times> u32 list" where
  "encrypt_code enc allocated copied count user =
     (let n = 4 * length user
      in if count \<le> 0 then (0, user)
         else if count \<noteq> sizeof_buf_info then (0, user)
         else if n mod (4 * 4) \<noteq> 0 then (0, user)
         else if \<not> allocated then (0, user)
         else if \<not> copied then (0, user)
         else (n, words_of (encrypt_blocks enc (lines_of user))))"

lemma lines_of_facts:
  "length ws = 4 * m \<Longrightarrow> length (lines_of ws) = m \<and> words_of (lines_of ws) = ws"
proof (induction m arbitrary: ws)
  case (Suc m)
  then have "length ws = Suc (Suc (Suc (Suc (4 * m))))" by simp
  then obtain a b c d ws' where "ws = a # b # c # d # ws'" "length ws' = 4 * m"
    by (auto simp: length_Suc_conv)
  then show ?case using Suc.IH by (simp add: words_of_def)
qed (simp add: words_of_def)

lemma words_of_Cons: "words_of (l # ls) = [dword0 l, dword1 l, dword2 l, dword3 l] @ words_of ls"
  by (simp add: words_of_def)

lemma lines_of_words_of [simp]: "lines_of (words_of ls) = ls"
  by (induction ls) (auto simp: words_of_def)

lemma length_words_of [simp]: "length (words_of ls) = 4 * length ls"
  by (induction ls) (auto simp: words_of_def)

lemma line_words_nth: "i < 4 \<Longrightarrow> [dword0 l, dword1 l, dword2 l, dword3 l] ! i = extr_by_ofs l i"
  by (auto simp: extr_by_ofs_def nth_Cons split: nat.splits)

lemma words_of_nth: "i < 4 * length ls \<Longrightarrow> words_of ls ! i = extr_by_ofs (ls ! (i div 4)) (i mod 4)"
proof (induction ls arbitrary: i)
  case (Cons l ls)
  show ?case
  proof (cases "i < 4")
    case True
    then show ?thesis unfolding words_of_Cons by (simp only: nth_append line_words_nth) simp
  next
    case False
    then obtain j where j: "i = 4 + j" by (metis le_add_diff_inverse not_less)
    have "words_of (l # ls) ! i = words_of ls ! j"
      using nth_append_length_plus [of "[dword0 l, dword1 l, dword2 l, dword3 l]" "words_of ls" j]
      unfolding words_of_Cons j by simp
    moreover have "i div 4 = Suc (j div 4)" "i mod 4 = j mod 4" "j < 4 * length ls" using j Cons.prems by auto
    ultimately show ?thesis using Cons.IH by simp
  qed
qed simp

text \<open>The buffer when the blocks below \<open>n\<close> are done: they are the chain over the old ones.\<close>

definition encrypt_upto :: "block_fun \<Rightarrow> line list \<Rightarrow> nat \<Rightarrow> line list" where
  "encrypt_upto enc buf n = foldl (\<lambda>b i. b[i := bispe_encblk_mem_cbc enc (b ! i) (b ! (i - 1))]) buf [1..<n]"

lemma encrypt_upto_Suc:
  "1 \<le> n \<Longrightarrow> encrypt_upto enc buf (Suc n) =
     (encrypt_upto enc buf n)[n := bispe_encblk_mem_cbc enc (encrypt_upto enc buf n ! n) (encrypt_upto enc buf n ! (n - 1))]"
  by (simp add: encrypt_upto_def)

lemma encrypt_upto_chain:
  assumes "1 \<le> n" "n \<le> length buf"
  shows "length (encrypt_upto enc buf n) = length buf \<and>
    (\<forall>i. n \<le> i \<or> i = 0 \<longrightarrow> encrypt_upto enc buf n ! i = buf ! i) \<and>
    (\<forall>i. 0 < i \<and> i < n \<longrightarrow> encrypt_upto enc buf n ! i = enc (line_xor (buf ! i) (encrypt_upto enc buf n ! (i - 1))))"
  using assms
proof (induction n rule: dec_induct)
  case base
  show ?case by (simp add: encrypt_upto_def)
next
  case (step n)
  let ?E = "encrypt_upto enc buf n"
  have IH: "length ?E = length buf" "\<And>i. n \<le> i \<or> i = 0 \<Longrightarrow> ?E ! i = buf ! i"
    "\<And>i. 0 < i \<Longrightarrow> i < n \<Longrightarrow> ?E ! i = enc (line_xor (buf ! i) (?E ! (i - 1)))"
    using step.IH step.prems by (auto simp: Suc_le_eq)
  have Suc: "encrypt_upto enc buf (Suc n) = ?E[n := enc (line_xor (buf ! n) (?E ! (n - 1)))]"
    using step.hyps(1) IH(2) [of n] by (simp add: encrypt_upto_Suc bispe_encblk_mem_cbc_def)
  have "?E[n := enc (line_xor (buf ! n) (?E ! (n - 1)))] ! i =
      enc (line_xor (buf ! i) (?E[n := enc (line_xor (buf ! n) (?E ! (n - 1)))] ! (i - 1)))" if "0 < i" "i < Suc n" for i
    using that IH step.prems by (cases "i = n") (auto simp: less_Suc_eq)
  then show ?case
    using IH step.hyps(1) by (auto simp: Suc)
qed

lemma encrypt_blocks_facts:
  assumes "buf \<noteq> []"
  shows "length (encrypt_blocks enc buf) = length buf" "encrypt_blocks enc buf ! 0 = buf ! 0"
    and encrypt_blocks_nth: "i + 1 < length buf \<Longrightarrow>
      encrypt_blocks enc buf ! (i + 1) = enc (line_xor (buf ! (i + 1)) (encrypt_blocks enc buf ! i))"
  using encrypt_upto_chain [of "length buf" buf enc] assms
  by (auto simp: encrypt_blocks_def encrypt_upto_def Suc_le_eq dest: spec [of _ "i + 1"])

lemma encrypt_blocks_plain:
  assumes "\<And>b. dec (enc b) = b" "i + 1 < length buf"
  shows "decrypt_memory_cbc dec (encrypt_blocks enc buf) i = buf ! (i + 1)"
  using assms encrypt_blocks_nth [of buf i enc] by (cases buf) (auto simp: decrypt_memory_cbc_def)

lemma encrypt_code_plain_list:
  assumes "\<And>b. dec (enc b) = b" "encrypt_code enc True True sizeof_buf_info ws = (n, ws')" "0 < n"
  shows "n = 4 * length ws \<and> length ws' = length ws \<and> take 4 ws' = take 4 ws \<and>
    plain_list dec (lines_of ws') (length ws - 4) = drop 4 ws"
proof -
  let ?ls = "lines_of ws" and ?out = "encrypt_blocks enc (lines_of ws)"
  have "length ws mod 4 = 0" and ws': "ws' = words_of ?out" and n: "n = 4 * length ws"
    using assms(2,3) by (auto simp: encrypt_code_def sizeof_buf_info_def Let_def split: if_splits)
  then have "length ws = 4 * (length ws div 4)" by presburger
  from lines_of_facts [OF this] have ls: "4 * length ?ls = length ws" "words_of ?ls = ws" "0 < length ?ls"
    using n assms(3) \<open>length ws = 4 * (length ws div 4)\<close> by (auto intro!: Nat.gr0I)
  then have "?ls \<noteq> []" by auto
  note out = encrypt_blocks_facts(1,2) [OF \<open>?ls \<noteq> []\<close>, of enc]
  have "words_of ?out ! i = words_of ?ls ! i" if "i < 4" for i
  proof -
    have "i < 4 * length ?out" "i < 4 * length ?ls" using that out ls(3) by linarith+
    then show ?thesis using that out by (simp only: words_of_nth) simp
  qed
  moreover have "4 \<le> length ws" using ls by linarith
  ultimately have "take 4 ws' = take 4 ws"
    using ls out by (intro nth_equalityI) (auto simp: ws')
  moreover have "plain_list dec (lines_of ws') (length ws - 4) = drop 4 ws"
  proof (rule nth_equalityI)
    fix i
    assume "i < length (plain_list dec (lines_of ws') (length ws - 4))"
    then have i: "i + 4 < 4 * length ?ls" "i div 4 + 1 < length ?ls" using ls by auto
    have "plain_list dec (lines_of ws') (length ws - 4) ! i = extr_by_ofs (?ls ! (i div 4 + 1)) (i mod 4)"
      using i ls encrypt_blocks_plain [of dec enc, OF assms(1) i(2)] by (simp add: plain_list_def plain_word_def ws')
    also have "... = words_of ?ls ! (i + 4)" using i by (simp add: words_of_nth div_add_self2 [of 4 i])
    finally show "plain_list dec (lines_of ws') (length ws - 4) ! i = drop 4 ws ! i"
      using i ls by (simp add: add.commute)
  qed simp
  ultimately show ?thesis using n ws' out ls by simp
qed

text \<open>C26 The compiler's request and the interpreter agree on the code: when \<open>encrypt_code\<close> has
  encrypted a buffer of whole blocks, then decrypting the segment that starts with its first
  block as init vector, word by word as the interpreter fetches instructions, gives the words
  of the buffer behind the first block; the init vector and the length are unchanged.\<close>

theorem encrypt_code_plain:
  assumes "\<And>b. dec (enc b) = b" "encrypt_code enc True True sizeof_buf_info ws = (n, ws')" "0 < n"
  shows "n = 4 * length ws \<and> length ws' = length ws \<and> take 4 ws' = take 4 ws \<and>
    plain_list dec (lines_of ws') (length ws - 4) = drop 4 ws"
  using assms by (rule encrypt_code_plain_list)

definition sample_cipher :: "line \<Rightarrow> line" where
  "sample_cipher b = line_xor b (Line 1 2 3 4)"

theorem encrypt_code_plain_witness:
  "\<exists>ws'. encrypt_code sample_cipher True True 16 [9, 9, 9, 9, 5, 6, 7, 8] = (32, ws') \<and>
     plain_list sample_cipher (lines_of ws') 4 = [5, 6, 7, 8]"
proof -
  have inverse: "sample_cipher (sample_cipher b) = b" for b
    by (simp add: sample_cipher_def)
  obtain n ws' where run: "encrypt_code sample_cipher True True sizeof_buf_info [9, 9, 9, 9, 5, 6, 7, 8] = (n, ws')"
    by (cases "encrypt_code sample_cipher True True sizeof_buf_info [9, 9, 9, 9, 5, 6, 7, 8]")
  then have "0 < n" by (auto simp: encrypt_code_def sizeof_buf_info_def Let_def)
  from encrypt_code_plain [OF inverse run this] run show ?thesis
    by (auto simp: sizeof_buf_info_def numeral_eq_Suc)
qed

section \<open>invoke_interpreter\<close>

record kstate =
  ks_locked :: bool
  ks_heap :: heap
  ks_globals :: globals

text \<open>
  What the thread returns: the result of \<open>kthread_stop\<close>, the print count and the print
  segment. None is a thread that could not be created.
\<close>

type_synonym thread_run = "runtime_ctx \<Rightarrow> (int \<times> nat \<times> u32 list) option"

definition sizeof_invoke_ctx :: nat where "sizeof_invoke_ctx = 72"

definition start_interpreter_thread :: "thread_run \<Rightarrow> runtime_ctx \<Rightarrow> kstate \<Rightarrow> (int \<times> nat \<times> u32 list) \<times> kstate" where
  "start_interpreter_thread run rc s =
     (case run rc of
        None \<Rightarrow> ((- 2, 0, []), s)
      | Some r \<Rightarrow> (r, s\<lparr>ks_globals := install_ctx rc\<rparr>))"

text \<open>The result: the returned byte count, what \<open>put_user\<close> writes, what is copied to the user's buffer.\<close>

definition invoke_interpreter ::
  "bool \<Rightarrow> bool \<Rightarrow> thread_run \<Rightarrow> nat \<Rightarrow> invoke_ctx \<Rightarrow> kstate \<Rightarrow> (nat \<times> int option \<times> u32 list \<times> kstate) outcome" where
  "invoke_interpreter copied_code copied_args run count ic s =
     (if count \<le> 0 then Ret (0, None, [], s)
      else if count \<noteq> sizeof_invoke_ctx then Ret (0, None, [], s)
      else if ic_out_size ic mod 4 \<noteq> 0 then Ret (0, None, [], s)
      else if ic_code_size ic mod (4 * 4) \<noteq> 0 then Ret (0, None, [], s)
      else if ks_locked s then Ret (0, None, [], s)
      else obind (init_interpreter copied_code copied_args (ks_globals s) ic (ks_heap s)) (\<lambda>(rco, h).
        let s1 = s\<lparr>ks_locked := True, ks_heap := h\<rparr>
        in case rco of
             None \<Rightarrow> Ret (0, None, [], s1\<lparr>ks_locked := False\<rparr>)
           | Some rc \<Rightarrow>
               let ((result, print_count, print), s2) = start_interpreter_thread run rc s1;
                   written = (if result \<ge> 0 \<and> ic_out_size ic > 0 \<and> print_count > 0 then 4 * print_count else 0)
               in obind (cleanup_runtime_ctx rco (ks_heap s2)) (\<lambda>h2.
                    Ret (written, if result < 0 then None else Some result, take (written div 4) print,
                         s2\<lparr>ks_locked := False, ks_heap := h2\<rparr>))))"


definition sample_thread :: thread_run where
  "sample_thread rc = (if 4 \<le> unat (rc_print_seg_size rc) then Some (0, 1, [42, 0]) else None)"


section \<open>The handshake of creator and thread\<close>

text \<open>
  \<open>invoke_interpreter\<close> runs in the creator, \<open>thread_main\<close> in the interpreter thread; they share
  the semaphore \<open>interpreter_finish_lock\<close> and the thread's stop flag. A state names the next
  statement of each. \<open>up\<close> and \<open>down\<close> of one run at a time: the mutex keeps a second creator
  out until the first has returned.
\<close>

datatype creator_pc = Down_Killable | Kthread_Stop | Join | Returned int

text \<open>\<open>Not_Started\<close>: \<open>thread_main\<close> has not been scheduled yet.\<close>

datatype thread_pc = Not_Started | Interpreting | Up int | Wait_Stop int | Exited int

record handshake =
  hs_sem :: nat
  hs_stop :: bool
  hs_creator :: creator_pc
  hs_thread :: thread_pc

text \<open>\<open>res\<close> is the result of a run that is not stopped; \<open>killed\<close>: a fatal signal is pending.\<close>

inductive step :: "int \<Rightarrow> bool \<Rightarrow> handshake \<Rightarrow> handshake \<Rightarrow> bool" for res killed where
  start: "hs_thread s = Not_Started \<Longrightarrow> \<not> hs_stop s \<Longrightarrow> step res killed s (s\<lparr>hs_thread := Interpreting\<rparr>)"
| never: "hs_thread s = Not_Started \<Longrightarrow> hs_stop s \<Longrightarrow> step res killed s (s\<lparr>hs_thread := Exited (- 4)\<rparr>)"
| finish: "hs_thread s = Interpreting \<Longrightarrow> \<not> hs_stop s \<Longrightarrow> step res killed s (s\<lparr>hs_thread := Up res\<rparr>)"
| stopped: "hs_thread s = Interpreting \<Longrightarrow> hs_stop s \<Longrightarrow> step res killed s (s\<lparr>hs_thread := Wait_Stop (- 1)\<rparr>)"
| up: "hs_thread s = Up r \<Longrightarrow> step res killed s (s\<lparr>hs_thread := Wait_Stop r, hs_sem := hs_sem s + 1\<rparr>)"
| leave: "hs_thread s = Wait_Stop r \<Longrightarrow> hs_stop s \<Longrightarrow> step res killed s (s\<lparr>hs_thread := Exited r\<rparr>)"
| down: "hs_creator s = Down_Killable \<Longrightarrow> 0 < hs_sem s \<Longrightarrow>
    step res killed s (s\<lparr>hs_creator := Kthread_Stop, hs_sem := hs_sem s - 1\<rparr>)"
| interrupted: "hs_creator s = Down_Killable \<Longrightarrow> hs_sem s = 0 \<Longrightarrow> killed \<Longrightarrow> step res killed s (s\<lparr>hs_creator := Kthread_Stop\<rparr>)"
| stop: "hs_creator s = Kthread_Stop \<Longrightarrow> step res killed s (s\<lparr>hs_creator := Join, hs_stop := True\<rparr>)"
| join: "hs_creator s = Join \<Longrightarrow> hs_thread s = Exited r \<Longrightarrow> step res killed s (s\<lparr>hs_creator := Returned r\<rparr>)"

definition created :: "nat \<Rightarrow> handshake" where
  "created sem = \<lparr>hs_sem = sem, hs_stop = False, hs_creator = Down_Killable, hs_thread = Not_Started\<rparr>"

inductive reaches :: "int \<Rightarrow> bool \<Rightarrow> handshake \<Rightarrow> handshake \<Rightarrow> bool" for res killed s where
  here: "reaches res killed s s"
| more: "reaches res killed s t \<Longrightarrow> step res killed t u \<Longrightarrow> reaches res killed s u"

inductive_cases stepE: "step res killed s t"

text \<open>Without a signal and with the semaphore at 0, the creator waits for the thread's \<open>up\<close>.\<close>

definition handshake_inv :: "int \<Rightarrow> handshake \<Rightarrow> bool" where
  "handshake_inv res s \<longleftrightarrow>
     (case hs_thread s of
        Not_Started \<Rightarrow> hs_sem s = 0 \<and> \<not> hs_stop s \<and> hs_creator s = Down_Killable
      | Interpreting \<Rightarrow> hs_sem s = 0 \<and> \<not> hs_stop s \<and> hs_creator s = Down_Killable
      | Up r \<Rightarrow> r = res \<and> hs_sem s = 0 \<and> \<not> hs_stop s \<and> hs_creator s = Down_Killable
      | Wait_Stop r \<Rightarrow> r = res \<and>
          (case hs_creator s of
             Down_Killable \<Rightarrow> hs_sem s = 1 \<and> \<not> hs_stop s
           | Kthread_Stop \<Rightarrow> hs_sem s = 0 \<and> \<not> hs_stop s
           | Join \<Rightarrow> hs_sem s = 0 \<and> hs_stop s
           | Returned x \<Rightarrow> False)
      | Exited r \<Rightarrow> r = res \<and> hs_sem s = 0 \<and> hs_stop s \<and> (hs_creator s = Join \<or> hs_creator s = Returned res))"

lemma handshake_inv_step: "step res False s t \<Longrightarrow> handshake_inv res s \<Longrightarrow> handshake_inv res t"
  by (erule stepE) (auto simp: handshake_inv_def split: thread_pc.splits creator_pc.splits)

lemma handshake_inv_reaches: "reaches res False (created 0) s \<Longrightarrow> handshake_inv res s"
proof (induction rule: reaches.induct)
  case here
  show ?case by (simp add: handshake_inv_def created_def)
qed (rule handshake_inv_step)


text \<open>The regular course of a run.\<close>

lemma regular_run: "reaches res killed (created 0) \<lparr>hs_sem = 0, hs_stop = True, hs_creator = Returned res, hs_thread = Exited res\<rparr>"
proof -
  have "reaches res killed (created 0) \<lparr>hs_sem = 0, hs_stop = False, hs_creator = Down_Killable, hs_thread = Not_Started\<rparr>"
    using here [of res killed "created 0"] by (simp add: created_def)
  from more [OF this step.start] have "reaches res killed (created 0) \<lparr>hs_sem = 0, hs_stop = False, hs_creator = Down_Killable, hs_thread = Interpreting\<rparr>" by simp
  from more [OF this step.finish] have "reaches res killed (created 0) \<lparr>hs_sem = 0, hs_stop = False, hs_creator = Down_Killable, hs_thread = Up res\<rparr>" by simp
  from more [OF this step.up] have "reaches res killed (created 0) \<lparr>hs_sem = 1, hs_stop = False, hs_creator = Down_Killable, hs_thread = Wait_Stop res\<rparr>" by simp
  from more [OF this step.down] have "reaches res killed (created 0) \<lparr>hs_sem = 0, hs_stop = False, hs_creator = Kthread_Stop, hs_thread = Wait_Stop res\<rparr>" by simp
  from more [OF this step.stop] have "reaches res killed (created 0) \<lparr>hs_sem = 0, hs_stop = True, hs_creator = Join, hs_thread = Wait_Stop res\<rparr>" by simp
  from more [OF this step.leave] have "reaches res killed (created 0) \<lparr>hs_sem = 0, hs_stop = True, hs_creator = Join, hs_thread = Exited res\<rparr>" by simp
  from more [OF this step.join] have "reaches res killed (created 0) \<lparr>hs_sem = 0, hs_stop = True, hs_creator = Returned res, hs_thread = Exited res\<rparr>" by simp
  then show ?thesis .
qed


text \<open>The signalled creator stops the thread between the end of its run and \<open>up\<close>.\<close>

lemma signalled_run: "reaches res True (created 0) \<lparr>hs_sem = 1, hs_stop = True, hs_creator = Returned res, hs_thread = Exited res\<rparr>"
proof -
  have "reaches res True (created 0) \<lparr>hs_sem = 0, hs_stop = False, hs_creator = Down_Killable, hs_thread = Not_Started\<rparr>"
    using here [of res True "created 0"] by (simp add: created_def)
  from more [OF this step.start] have "reaches res True (created 0) \<lparr>hs_sem = 0, hs_stop = False, hs_creator = Down_Killable, hs_thread = Interpreting\<rparr>" by simp
  from more [OF this step.finish] have "reaches res True (created 0) \<lparr>hs_sem = 0, hs_stop = False, hs_creator = Down_Killable, hs_thread = Up res\<rparr>" by simp
  from more [OF this step.interrupted] have "reaches res True (created 0) \<lparr>hs_sem = 0, hs_stop = False, hs_creator = Kthread_Stop, hs_thread = Up res\<rparr>" by simp
  from more [OF this step.stop] have "reaches res True (created 0) \<lparr>hs_sem = 0, hs_stop = True, hs_creator = Join, hs_thread = Up res\<rparr>" by simp
  from more [OF this step.up] have "reaches res True (created 0) \<lparr>hs_sem = 1, hs_stop = True, hs_creator = Join, hs_thread = Wait_Stop res\<rparr>" by simp
  from more [OF this step.leave] have "reaches res True (created 0) \<lparr>hs_sem = 1, hs_stop = True, hs_creator = Join, hs_thread = Exited res\<rparr>" by simp
  from more [OF this step.join] have "reaches res True (created 0) \<lparr>hs_sem = 1, hs_stop = True, hs_creator = Returned res, hs_thread = Exited res\<rparr>" by simp
  then show ?thesis .
qed

text \<open>With the semaphore at 1 the creator does not wait.\<close>

lemma stale_run: "reaches res False (created 1) \<lparr>hs_sem = 0, hs_stop = True, hs_creator = Returned (- 1), hs_thread = Exited (- 1)\<rparr>"
proof -
  have "reaches res False (created 1) \<lparr>hs_sem = 1, hs_stop = False, hs_creator = Down_Killable, hs_thread = Not_Started\<rparr>"
    using here [of res False "created 1"] by (simp add: created_def)
  from more [OF this step.start] have "reaches res False (created 1) \<lparr>hs_sem = 1, hs_stop = False, hs_creator = Down_Killable, hs_thread = Interpreting\<rparr>" by simp
  from more [OF this step.down] have "reaches res False (created 1) \<lparr>hs_sem = 0, hs_stop = False, hs_creator = Kthread_Stop, hs_thread = Interpreting\<rparr>" by simp
  from more [OF this step.stop] have "reaches res False (created 1) \<lparr>hs_sem = 0, hs_stop = True, hs_creator = Join, hs_thread = Interpreting\<rparr>" by simp
  from more [OF this step.stopped] have "reaches res False (created 1) \<lparr>hs_sem = 0, hs_stop = True, hs_creator = Join, hs_thread = Wait_Stop (- 1)\<rparr>" by simp
  from more [OF this step.leave] have "reaches res False (created 1) \<lparr>hs_sem = 0, hs_stop = True, hs_creator = Join, hs_thread = Exited (- 1)\<rparr>" by simp
  from more [OF this step.join] have "reaches res False (created 1) \<lparr>hs_sem = 0, hs_stop = True, hs_creator = Returned (- 1), hs_thread = Exited (- 1)\<rparr>" by simp
  then show ?thesis .
qed

text \<open>C29 A fatal signal breaks the handshake for later invocations: the signalled creator can stop
  the thread between the end of its run and \<open>up\<close>, which leaves the semaphore at 1; the next
  invocation, without any signal, can then stop its own thread in the middle of the program and
  fail.\<close>

theorem stale_wakeup:
  "\<exists>s. reaches res True (created 0) s \<and> hs_creator s = Returned res \<and>
     (\<exists>t. reaches res' False (created (hs_sem s)) t \<and> hs_creator t = Returned (- 1))"
  using signalled_run [of res] stale_run [of res'] by fastforce

end
