(* ===== verification/Compiler_Driver.thy ===== *)
theory Compiler_Driver
  imports Frontend Kernel Codegen_Proofs Parser_Proofs
begin

text \<open>
  compiler/compiler.c, and \<open>print_code\<close> of compiler/generator.c: the command line of the
  compiler, reading the source, the order of the passes and their failures, the listing, and the
  encryption request. The device and the file system are arguments.
\<close>

section \<open>Names and files\<close>

text \<open>The loop over \<open>infile\<close>: \<open>pos\<close> and \<open>last_dot\<close> at the end.\<close>

fun name_scan :: "string \<Rightarrow> nat \<Rightarrow> int \<Rightarrow> nat \<times> int" where
  "name_scan [] pos last_dot = (pos, last_dot)"
| "name_scan (c # cs) pos last_dot = name_scan cs (pos + 1) (if c = CHR ''.'' then int pos else last_dot)"

definition build_outfile_name :: "string \<Rightarrow> string" where
  "build_outfile_name infile =
     (let (pos, last_dot) = name_scan infile 0 (- 1);
          n = (if last_dot = - 1 then pos else nat last_dot)
      in take n infile @ ''.scle'')"

text \<open>
  \<open>read_file\<close> of compiler.c is the loop of the frontend's, then a NUL is stored behind the text;
  None is a write outside the buffer.
\<close>

definition read_source :: "(nat \<Rightarrow> u8) \<Rightarrow> u8 list \<Rightarrow> u8 list option" where
  "read_source junk content =
     (case read_loop junk content (map junk [0..<FILE_BUFSIZE + 1]) 0 (FILE_BUFSIZE + 1) of
        None \<Rightarrow> None
      | Some (buf, pos) \<Rightarrow> if pos < length buf then Some (buf[pos := 0]) else None)"

definition chars_of :: "u8 list \<Rightarrow> string" where
  "chars_of bs = map (\<lambda>b. char_of (unat b)) bs"

section \<open>The listing\<close>

definition hex_word :: "u32 \<Rightarrow> string" where
  "hex_word w = map (\<lambda>i. char_of (let d = unat (drop_bit (28 - 4 * i) w) mod 16 in if d < 10 then 48 + d else 87 + d)) [0..<8]"

definition pad_left :: "nat \<Rightarrow> string \<Rightarrow> string" where
  "pad_left n s = replicate (n - length s) CHR '' '' @ s"

text \<open>One line of \<open>print_code\<close>; the mode is 1 for mnemonics and 2 for opcodes.\<close>

definition code_line :: "nat \<Rightarrow> u32 \<Rightarrow> code_elem \<Rightarrow> string" where
  "code_line mode addr e =
     pad_left 4 (printf_d (sint addr)) @ '': '' @
     (if mode = 1 then ii_name (info_of (ce_instr e))
      else if mode = 2 then hex_word (opcode (ce_instr e)) else []) @
     (if has_arg (ce_instr e) then CHR 0x09 # hex_word (ce_arg e) else []) @ newline"

fun print_code_loop :: "nat \<Rightarrow> u32 \<Rightarrow> code_elem list \<Rightarrow> string" where
  "print_code_loop mode addr [] = []"
| "print_code_loop mode addr (cur # rest) =
     code_line mode addr cur @
     print_code_loop mode (addr + (if has_arg (ce_instr cur) then 1 else 0) + 1) rest"

definition print_code :: "code_elem list \<Rightarrow> nat \<Rightarrow> string" where
  "print_code head mode = print_code_loop mode 0 head"

section \<open>The main program\<close>

datatype compiler_option = Out_File string | Show "string option" | Unencrypted | Bad_Option

record compiler_settings =
  co_outfile :: "string option"
  co_show_mnemonics :: bool
  co_show_opcodes :: bool
  co_unencrypted :: bool

definition initial_compiler_settings :: compiler_settings where
  "initial_compiler_settings =
     \<lparr>co_outfile = None, co_show_mnemonics = False, co_show_opcodes = False, co_unencrypted = False\<rparr>"

fun set_option :: "compiler_option \<Rightarrow> compiler_settings \<Rightarrow> compiler_settings option" where
  "set_option (Out_File f) s = Some (s\<lparr>co_outfile := Some f\<rparr>)"
| "set_option (Show None) s = Some (s\<lparr>co_show_mnemonics := True\<rparr>)"
| "set_option (Show (Some optarg)) s =
     (if optarg = ''op'' \<or> optarg = ''opcodes'' then Some (s\<lparr>co_show_opcodes := True\<rparr>)
      else Some (s\<lparr>co_show_mnemonics := True\<rparr>))"
| "set_option Unencrypted s = Some (s\<lparr>co_unencrypted := True\<rparr>)"
| "set_option Bad_Option s = None"

fun compiler_options :: "compiler_option list \<Rightarrow> compiler_settings \<Rightarrow> compiler_settings option" where
  "compiler_options [] s = Some s"
| "compiler_options (opt # opts) s =
     (case set_option opt s of None \<Rightarrow> None | Some s' \<Rightarrow> compiler_options opts s')"

text \<open>What a run leaves: an error status, a listing (with the error status too), or an output file.\<close>

datatype compiled = Failed | Listing string | Written string "u32 list"

text \<open>
  The passes on the source text. \<open>junk\<close> is what an unset function address reads as, \<open>rnd\<close> the
  random words of the output buffer; \<open>crypto\<close> is the write to the crypto device, which returns
  None when that fails, or the return value and the buffer afterwards. The exits inside the passes
  are the outcomes.
\<close>

definition compile_source ::
  "u32 \<Rightarrow> (nat \<Rightarrow> u32) \<Rightarrow> (u32 list \<Rightarrow> (nat \<times> u32 list) option) \<Rightarrow> compiler_settings \<Rightarrow> string \<Rightarrow> string \<Rightarrow>
   compiled outcome" where
  "compile_source junk rnd crypto s infile infile_str =
     (case tokenize_string infile_str of
        Inl e \<Rightarrow> Ret Failed
      | Inr token_head \<Rightarrow>
          obind (parse_tokenlist token_head) (\<lambda>(ast_head, ast).
          if ast_head = NULL_NODE then Ret Failed
          else obind (generate_code ast_head (as_symbols ast) junk) (\<lambda>code.
            case code of
              None \<Rightarrow> Ret Failed
            | Some code_head \<Rightarrow>
                if co_show_mnemonics s \<or> co_show_opcodes s then
                  Ret (Listing (print_code code_head (if co_show_mnemonics s then 1 else if co_show_opcodes s then 2 else 0)))
                else
                  (let output_buf = build_codebuf rnd code_head (co_unencrypted s);
                       outfile = (case co_outfile s of Some f \<Rightarrow> f | None \<Rightarrow> build_outfile_name infile)
                   in if co_unencrypted s then Ret (Written outfile output_buf)
                      else (case crypto output_buf of
                              None \<Rightarrow> Ret Failed
                            | Some (result, output_buf') \<Rightarrow>
                                if result = 0 then Ret Failed else Ret (Written outfile output_buf'))))))"

text \<open>\<open>args\<close> are the arguments from \<open>optind\<close> on.\<close>

definition compiler_main ::
  "u32 \<Rightarrow> (nat \<Rightarrow> u32) \<Rightarrow> (u32 list \<Rightarrow> (nat \<times> u32 list) option) \<Rightarrow> (string \<Rightarrow> u8 list option) \<Rightarrow> (nat \<Rightarrow> u8) \<Rightarrow>
   compiler_option list \<Rightarrow> string list \<Rightarrow> compiled outcome" where
  "compiler_main junk rnd crypto fopen heap_junk opts args =
     (case compiler_options opts initial_compiler_settings of
        None \<Rightarrow> Ret Failed
      | Some s \<Rightarrow>
          (case args of
             [] \<Rightarrow> Ret Failed
           | infile # _ \<Rightarrow>
               (case fopen infile of
                  None \<Rightarrow> Ret Failed
                | Some content \<Rightarrow>
                    (case read_source heap_junk content of
                       None \<Rightarrow> Segfault
                     | Some infile_str \<Rightarrow> compile_source junk rnd crypto s infile (chars_of infile_str)))))"

section \<open>The output name\<close>

lemma name_scan_no_dot: "CHR ''.'' \<notin> set s \<Longrightarrow> name_scan s pos d = (pos + length s, d)"
  by (induction s arbitrary: pos) auto

lemma name_scan_append:
  "name_scan (xs @ ys) pos d = (case name_scan xs pos d of (pos', d') \<Rightarrow> name_scan ys pos' d')"
  by (induction xs arbitrary: pos d) auto

lemma name_scan_pos: "fst (name_scan s pos d) = pos + length s"
  by (induction s arbitrary: pos d) auto

text \<open>The output file of \<open>base.ext\<close> is \<open>base.scle\<close>, whatever dots \<open>base\<close> has, and a name without
  a dot gets the extension; a dot in a directory name counts as well.\<close>

theorem outfile_name:
  assumes "CHR ''.'' \<notin> set ext"
  shows "build_outfile_name (base @ CHR ''.'' # ext) = base @ ''.scle'' \<and> build_outfile_name ext = ext @ ''.scle''"
proof -
  have "name_scan (base @ CHR ''.'' # ext) 0 (- 1) = (length base + 1 + length ext, int (length base))"
    using name_scan_pos [of base 0 "- 1"] assms
    by (cases "name_scan base 0 (- 1)") (simp add: name_scan_append name_scan_no_dot)
  moreover have "name_scan ext 0 (- 1) = (length ext, - 1)" using assms by (simp add: name_scan_no_dot)
  ultimately show ?thesis by (simp add: build_outfile_name_def)
qed

theorem outfile_name_witness:
  "build_outfile_name ''lib.d/main'' = ''lib.scle''"
  using outfile_name [of "''d/main''" "''lib''"] by simp

section \<open>Reading the source\<close>

text \<open>The lexer is given the source text up to its first NUL, and the store of the terminator is
  inside the buffer, whatever the length of the file.\<close>

theorem source_text:
  "\<exists>buf. read_source junk content = Some buf \<and> c_string (chars_of buf) = c_string (chars_of content)"
proof -
  obtain buf where read: "read_loop junk content (map junk [0..<FILE_BUFSIZE + 1]) 0 (FILE_BUFSIZE + 1) = Some (buf, length content)"
    and buf: "take (length content) buf = content" "length content < length buf"
    using read_file_whole [of junk content] by (auto simp: read_file_def)
  have "c_string (chars_of (buf[length content := 0])) = c_string (chars_of content)"
  proof -
    have "buf[length content := 0] = content @ 0 # drop (Suc (length content)) buf"
      using buf by (metis upd_conv_take_nth_drop)
    moreover have "char_of (unat (0 :: u8)) = CHR 0x00" by code_simp
    ultimately show ?thesis
      by (simp add: c_string_def chars_of_def takeWhile_tail del: unat_0 unsigned_0)
  qed
  with read buf show ?thesis by (simp add: read_source_def)
qed

section \<open>The listing shows the addresses of the code\<close>

lemma print_code_loop_lines:
  "print_code_loop mode (of_nat a) code =
     concat (map (\<lambda>i. code_line mode (of_nat (a + code_size (take i code))) (code ! i)) [0..<length code])"
proof (induction code arbitrary: a)
  case (Cons e code)
  have "print_code_loop mode (of_nat a) (e # code) =
      code_line mode (of_nat a) e @ print_code_loop mode (of_nat (a + elem_size e)) code"
    by (simp add: elem_size_def add.commute)
  then show ?case
    using Cons.IH [of "a + elem_size e"]
    by (simp add: map_upt_Suc add.assoc del: upt_Suc of_nat_add)
qed simp

text \<open>The address in front of each line of the listing is the instruction's word address in the
  output, the number that jumps and calls use.\<close>

theorem listing_addresses:
  "print_code code mode =
     concat (map (\<lambda>i. code_line mode (of_nat (code_size (take i code))) (code ! i)) [0..<length code])"
  using print_code_loop_lines [of mode 0 code] by (simp add: print_code_def)

section \<open>The output buffer\<close>

definition iv_words :: "bool \<Rightarrow> nat" where
  "iv_words unencrypted = (if unencrypted then 0 else 4)"

lemma build_codebuf_split:
  "\<exists>iv pad. build_codebuf rnd code u = iv @ code_words code @ opcode INSTR_FINISH # pad \<and>
     length iv = iv_words u \<and> length pad < 4 \<and> length (build_codebuf rnd code u) = codebuf_size code u \<and>
     4 dvd codebuf_size code u"
proof -
  define d where "d = 4 - code_size code mod 4"
  have "code_size code mod 4 < 4" by simp
  then have d: "0 < d" "d \<le> 4" "4 dvd code_size code + d"
    unfolding d_def by presburger+
  have size: "codebuf_size code u = iv_words u + code_size code + d"
    by (simp add: codebuf_size_def d_def iv_words_def Let_def)
  have "4 dvd codebuf_size code u"
    using d(3) unfolding size by (cases u; simp add: iv_words_def; presburger)
  then show ?thesis
    using d
    by (intro exI [of _ "if u then [] else map rnd [0..<4]"]
        exI [of _ "map rnd [iv_words u + code_size code + 1..<codebuf_size code u]"])
      (simp add: build_codebuf_def Let_def size, simp add: iv_words_def length_code_words)
qed

text \<open>The output buffer has the size that is allocated for it and consists of whole blocks: an
  init vector unless the output is unencrypted, the words of the code, a FINISH instruction behind
  them, and less than one block of padding.\<close>

theorem codebuf_layout:
  "\<exists>iv pad. build_codebuf rnd code u = iv @ code_words code @ opcode INSTR_FINISH # pad \<and>
     length iv = iv_words u \<and> length pad < 4 \<and> length (build_codebuf rnd code u) = codebuf_size code u \<and>
     4 dvd codebuf_size code u"
  by (rule build_codebuf_split)

section \<open>From source text to the code the interpreter sees\<close>

text \<open>The compiler's request to the crypto device when the kernel grants it.\<close>

definition crypto_device :: "block_fun \<Rightarrow> u32 list \<Rightarrow> (nat \<times> u32 list) option" where
  "crypto_device enc ws = Some (encrypt_code enc True True sizeof_buf_info ws)"

lemma crypto_written:
  assumes "(case crypto_device enc buf of
      None \<Rightarrow> Ret Failed
    | Some (result, buf') \<Rightarrow> if result = 0 then Ret Failed else Ret (Written name buf')) = Ret (Written out ws)"
  shows "\<exists>n. encrypt_code enc True True sizeof_buf_info buf = (n, ws) \<and> 0 < n"
  using assms by (cases "encrypt_code enc True True sizeof_buf_info buf") (auto simp: crypto_device_def split: if_splits)

lemma compile_source_written:
  assumes "\<not> co_unencrypted s" "compile_source junk rnd (crypto_device enc) s infile src = Ret (Written out ws)"
  shows "\<exists>ts ast st code n. tokenize_string src = Inr ts \<and> parse_tokenlist ts = Ret (ast, st) \<and> ast \<noteq> NULL_NODE \<and>
    generate_code ast (as_symbols st) junk = Ret (Some code) \<and>
    encrypt_code enc True True sizeof_buf_info (build_codebuf rnd code False) = (n, ws) \<and> 0 < n"
proof (cases "tokenize_string src")
  case (Inl e)
  then show ?thesis using assms by (simp add: compile_source_def)
next
  case (Inr ts)
  with assms(2) obtain ast st c where c: "parse_tokenlist ts = Ret (ast, st)" "ast \<noteq> NULL_NODE"
      "generate_code ast (as_symbols st) junk = Ret c"
    by (auto simp: compile_source_def outcome_simps split: if_splits)
  then obtain code where code: "c = Some code"
    using assms(2) Inr by (cases c) (auto simp: compile_source_def split: if_splits)
  show ?thesis
    using assms(2) Inr c code crypto_written [where enc = enc and out = out and ws = ws]
    by (simp add: compile_source_def Let_def assms(1) del: Product_Type.split_paired_Ex cong: option.case_cong split: if_splits)
qed

lemma written_code:
  assumes "\<And>b. dec (enc b) = b" "\<not> co_unencrypted s"
    and "compile_source junk rnd (crypto_device enc) s infile src = Ret (Written out ws)"
  shows "\<exists>ts ast st code pad. tokenize_string src = Inr ts \<and> parse_tokenlist ts = Ret (ast, st) \<and> ast \<noteq> NULL_NODE \<and>
    generate_code ast (as_symbols st) junk = Ret (Some code) \<and> length ws mod 4 = 0 \<and> length pad < 4 \<and>
    plain_list dec (lines_of ws) (length ws - 4) = code_words code @ opcode INSTR_FINISH # pad"
proof -
  obtain ts ast st code n where passes: "tokenize_string src = Inr ts" "parse_tokenlist ts = Ret (ast, st)" "ast \<noteq> NULL_NODE"
      "generate_code ast (as_symbols st) junk = Ret (Some code)"
    and enc: "encrypt_code enc True True sizeof_buf_info (build_codebuf rnd code False) = (n, ws)" "0 < n"
    using compile_source_written [OF assms(2,3)] by blast
  obtain iv pad where buf: "build_codebuf rnd code False = iv @ code_words code @ opcode INSTR_FINISH # pad"
    "length iv = 4" "length pad < 4" "4 dvd length (build_codebuf rnd code False)"
    using build_codebuf_split [of rnd code False] by (auto simp: iv_words_def)
  from encrypt_code_plain_list [OF assms(1) enc]
  have "length ws = length (build_codebuf rnd code False)"
    "plain_list dec (lines_of ws) (length ws - 4) = drop 4 (build_codebuf rnd code False)" by auto
  moreover have "drop 4 (build_codebuf rnd code False) = code_words code @ opcode INSTR_FINISH # pad"
    using buf by simp
  ultimately show ?thesis using passes buf(3,4) by (auto simp: mod_eq_0_iff_dvd)
qed

text \<open>C19 What the compiler writes: whenever a run without \<open>-u\<close> writes a file, the source was
  lexed, parsed and generated without an error, the file is a sequence of whole blocks, and
  decrypting it word by word the way the interpreter fetches instructions gives the generated code,
  a FINISH and padding.\<close>

theorem compiled_plain:
  assumes "\<And>b. dec (enc b) = b" "\<not> co_unencrypted s"
    and "compile_source junk rnd (crypto_device enc) s infile src = Ret (Written out ws)"
  shows "\<exists>ts ast st code pad. tokenize_string src = Inr ts \<and> parse_tokenlist ts = Ret (ast, st) \<and> ast \<noteq> NULL_NODE \<and>
    generate_code ast (as_symbols st) junk = Ret (Some code) \<and> length ws mod 4 = 0 \<and> length pad < 4 \<and>
    plain_list dec (lines_of ws) (length ws - 4) = code_words code @ opcode INSTR_FINISH # pad"
  using assms by (rule written_code)

text \<open>\<open>void main(void) { print(1); }\<close>, compiled and encrypted with the sample cipher.\<close>

definition sample_source :: string where
  "sample_source = ''void main(void) { print 1; }''"

definition sample_compiled :: "compiled outcome" where
  "sample_compiled =
     compile_source 0 (\<lambda>i. 7) (crypto_device sample_cipher) initial_compiler_settings ''a.sc'' sample_source"

theorem compiled_plain_witness:
  "\<exists>ws pad code. sample_compiled = Ret (Written ''a.scle'' ws) \<and>
     plain_list sample_cipher (lines_of ws) (length ws - 4) = code_words code @ opcode INSTR_FINISH # pad"
proof -
  have inverse: "sample_cipher (sample_cipher b) = b" for b
    by (simp add: sample_cipher_def)
  have "case sample_compiled of Ret (Written out ws) \<Rightarrow> out = ''a.scle'' | _ \<Rightarrow> False" by code_simp
  then obtain ws where ws: "sample_compiled = Ret (Written ''a.scle'' ws)"
    by (auto split: outcome.splits compiled.splits)
  have "\<not> co_unencrypted initial_compiler_settings" by (simp add: initial_compiler_settings_def)
  from compiled_plain [OF inverse this ws [unfolded sample_compiled_def]] ws show ?thesis by blast
qed

end
