(* ===== verification/Compiled_Run.thy ===== *)
theory Compiled_Run
  imports Sensible Unambiguous Compiler_Driver
begin

text \<open>
  From the text of a program to its run: what the compiler writes, in the code segment of the
  interpreter, does what the program means.
\<close>

section \<open>The tokens of a text\<close>

lemma lexed_named: "lexed ts \<Longrightarrow> all_named ts"
proof -
  have "named t" if "token_ok t" for t
    using that by (auto simp: token_ok_def named_def split: option.splits)
  moreover have "named eof_token" by (simp add: eof_token_def named_def)
  ultimately show "lexed ts \<Longrightarrow> all_named ts"
    by (auto simp: lexed_def all_named_def list_all_iff)
qed

lemma parse_named:
  assumes "tokenize_string src = Inr ts" "parse_tokenlist ts = Ret (n, a)" "n \<noteq> NULL_NODE"
  obtains ds where "program_text ds ts" "n = head_node ds" "decl_steps initial_symbols ds (as_symbols a)"
  using parse_shape_lemma [OF assms(2,3) lexed_named [OF tokenize_lexed_aux [OF assms(1)]]] .

section \<open>The meaning of a program\<close>

definition main_arity :: "decl list \<Rightarrow> nat" where
  "main_arity ds = (case program_of ds ''main'' of None \<Rightarrow> 0 | Some fd \<Rightarrow> length (fd_params fd))"

text \<open>The result of \<open>main\<close> and all that is printed; \<open>n\<close> bounds nested calls and the turns of loops.\<close>

definition run_source :: "decl list \<Rightarrow> nat \<Rightarrow> u32 list \<Rightarrow> (u32 option \<times> u32 list) sres" where
  "run_source ds n args = call_func (program_of ds) n ''main'' (take (main_arity ds) args) []"

text \<open>The interpreter with the file's blocks as its code, as \<open>init_interpreter\<close> leaves it.\<close>

definition holds_file :: "block_fun \<Rightarrow> u32 list \<Rightarrow> asm_env \<Rightarrow> machine \<Rightarrow> bool" where
  "holds_file dec ws e s \<longleftrightarrow> loaded e s \<and> decblk e = dec \<and> code_seg s = lines_of ws \<and> code_seg_size e = 4 * (length ws - 4)"

lemma decl_steps_ok: "symbols_ok s \<Longrightarrow> decl_steps s ds s' \<Longrightarrow> symbols_ok s'"
  by (induction ds arbitrary: s) (auto dest: decl_step_ok)

lemma table_of_initial: "table_of Map.empty Map.empty initial_symbols"
proof -
  have "\<not> func_table_init initial_symbols" by (simp add: initial_symbols_def)
  then show ?thesis using initial_symbols_ok by (simp add: table_of_def symbols_ok_def)
qed

lemma main_defined:
  assumes "decls_ok syms {} ds" "sensible_program ds"
  obtains m where "get_func ''main'' syms = Some m" "''main'' \<in> fst ` set (decl_funcs ds)" "fi_arg_count m = main_arity ds"
proof -
  have main: "''main'' \<in> fst ` set (decl_funcs ds)"
    using assms(2) by (force simp: sensible_program_def list_ex_iff)
  have "\<forall>(f, fd) \<in> set (decl_funcs ds). program_of ds f = Some fd"
    using decls_ok_names [OF assms(1)] by (auto simp: program_of_def)
  from decls_ok_defined [OF assms(1) this main] show thesis
    using main that by (auto simp: defined_as_def main_arity_def)
qed

text \<open>A sensible program is translated.\<close>

lemma sensible_generates:
  assumes "decl_steps initial_symbols ds syms" "sensible_program ds" "small_frames syms ds"
  shows "\<exists>code. generate_code (head_node ds) syms junk = Ret (Some code)"
proof -
  have "decls_ok syms {} ds"
    using sensible_decls_ok [OF assms(1) table_of_initial _ assms(3)] assms(2) by (simp add: sensible_program_def)
  then show ?thesis
    using linked_program [OF decl_steps_ok [OF initial_symbols_ok assms(1)], of _ ds junk] main_defined [OF _ assms(2)] by metis
qed

lemma compiled_program_runs:
  assumes cipher: "\<And>b. dec (enc b) = b" "\<not> co_unencrypted s"
    and written: "compile_source junk rnd (crypto_device enc) s infile src = Ret (Written out ws)"
    and program: "tokenize_string src = Inr ts" "program_text ds ts" "sensible_program ds"
    and sizes: "parse_tokenlist ts = Ret (ast, st)" "small_frames (as_symbols st) ds" "length ws < 2 ^ 32"
    and machine: "holds_file dec ws e m" "main_arity ds \<le> length (argv e)"
    and meaning: "defined_result (run_source ds n (argv e))"
  shows "\<exists>fuel0. \<forall>fuel > fuel0. machine_result (print_seg m, 0) (run_source ds n (argv e)) (start_interpreter e False stop fuel m)"
proof -
  obtain code pad where ast: "ast \<noteq> NULL_NODE" and code: "generate_code ast (as_symbols st) junk = Ret (Some code)"
    and ws: "plain_list dec (lines_of ws) (length ws - 4) = code_words code @ opcode INSTR_FINISH # pad"
    using written_code [OF cipher written] program(1) sizes(1) by auto
  obtain ds' where ds': "program_text ds' ts" "ast = head_node ds'" "decl_steps initial_symbols ds' (as_symbols st)"
    using parse_named [OF program(1) sizes(1) ast] .
  have [simp]: "ds' = ds" by (rule program_text_one [OF ds'(1) program(2)])
  have syms: "symbols_ok (as_symbols st)" by (rule decl_steps_ok [OF initial_symbols_ok ds'(3)])
  have ok: "decls_ok (as_symbols st) {} ds"
    using sensible_decls_ok [OF ds'(3) table_of_initial] program(3) sizes(2) by (simp add: sensible_program_def)
  obtain h where h: "get_func ''main'' (as_symbols st) = Some h" "''main'' \<in> fst ` set (decl_funcs ds)" "fi_arg_count h = main_arity ds"
    using main_defined [OF ok program(3)] .
  have "code_in (plain_list (decblk e) (code_seg m) (code_seg_size e div 4)) 0 code"
    using machine(1) ws by (simp add: holds_file_def code_in_def length_code_words)
  then show ?thesis
    using machine_runs_program [of e m "as_symbols st" ds h junk code n stop] syms ok h code ds'(2) machine meaning sizes(3)
    by (simp add: holds_file_def run_source_def)
qed

end
