(* ===== verification/Fact_Program.thy ===== *)
theory Fact_Program
  imports Compiled_Run
begin

text \<open>
  An example: a recursive function with its prototype, its text, its meaning and its tokens.
\<close>

section \<open>The program\<close>

definition fact_source :: string where
  "fact_source = ''int f(int a); int f(int a) { if (a < 2) { return 1; } return a * f(a - 1); } void main(int n) { print f(n); }''"

definition fact_decls :: "decl list" where
  "fact_decls =
     [Proto_Decl DTYPE_INT ''f'' [''a''],
      Func_Decl DTYPE_INT ''f'' [''a'']
        [If_Item (Cond (Single (Var_Fac ''a'')) TOK_LT (Single (Num_Fac 2))) [Stat_Item (Return_Stat (Some (Single (Num_Fac 1))))],
         Stat_Item (Return_Stat (Some (Binop (Var_Fac ''a'') TOK_STAR
           (Single (Call_Fac ''f'' (Last_Arg (Binop (Var_Fac ''a'') TOK_MINUS (Single (Num_Fac 1)))))))))],
      Func_Decl DTYPE_VOID ''main'' [''n'']
        [Stat_Item (Print_Stat (Single (Call_Fac ''f'' (Last_Arg (Single (Var_Fac ''n''))))))]]"

lemma fact_sensible: "sensible_program fact_decls"
  by code_simp

lemma fact_run: "run_source fact_decls 6 [5] = Ok (None, [120])"
  by code_simp

text \<open>The tokens of the source are the text of these declarations.\<close>

abbreviation tok_sym :: "token_type \<Rightarrow> token" where
  "tok_sym ty \<equiv> mk_token ty None"

abbreviation tok_id :: "string \<Rightarrow> token" where
  "tok_id x \<equiv> mk_token TOK_IDENTIFIER (Some x)"

abbreviation tok_lit :: "string \<Rightarrow> token" where
  "tok_lit x \<equiv> mk_token TOK_INTLITERAL (Some x)"

abbreviation tok_word :: "token_type \<Rightarrow> string \<Rightarrow> token" where
  "tok_word ty x \<equiv> mk_token ty (Some x)"

definition fact_proto_tokens :: "token list" where
  "fact_proto_tokens =
     [tok_word TOK_INT ''int'', tok_id ''f'', tok_sym TOK_OPENPA, tok_word TOK_INT ''int'', tok_id ''a'', tok_sym TOK_CLOSEPA,
      tok_sym TOK_SEMICL]"

definition fact_func_tokens :: "token list" where
  "fact_func_tokens =
     [tok_word TOK_INT ''int'', tok_id ''f'', tok_sym TOK_OPENPA, tok_word TOK_INT ''int'', tok_id ''a'', tok_sym TOK_CLOSEPA,
      tok_sym TOK_OPENBR, tok_word TOK_IF ''if'', tok_sym TOK_OPENPA, tok_id ''a'', tok_sym TOK_LT, tok_lit ''2'', tok_sym TOK_CLOSEPA,
      tok_sym TOK_OPENBR, tok_word TOK_RETURN ''return'', tok_lit ''1'', tok_sym TOK_SEMICL, tok_sym TOK_CLOSEBR,
      tok_word TOK_RETURN ''return'', tok_id ''a'', tok_sym TOK_STAR, tok_id ''f'', tok_sym TOK_OPENPA, tok_id ''a'', tok_sym TOK_MINUS,
      tok_lit ''1'', tok_sym TOK_CLOSEPA, tok_sym TOK_SEMICL, tok_sym TOK_CLOSEBR]"

definition fact_main_tokens :: "token list" where
  "fact_main_tokens =
     [tok_word TOK_VOID ''void'', tok_id ''main'', tok_sym TOK_OPENPA, tok_word TOK_INT ''int'', tok_id ''n'', tok_sym TOK_CLOSEPA,
      tok_sym TOK_OPENBR, tok_word TOK_PRINT ''print'', tok_id ''f'', tok_sym TOK_OPENPA, tok_id ''n'', tok_sym TOK_CLOSEPA,
      tok_sym TOK_SEMICL, tok_sym TOK_CLOSEBR]"

definition fact_tokens :: "token list" where
  "fact_tokens = fact_proto_tokens @ fact_func_tokens @ fact_main_tokens @ [eof_token]"

lemma fact_lexed: "tokenize_string fact_source = Inr fact_tokens"
  by code_simp

lemma text_intros:
  "expr_text (Single (Var_Fac x)) [tok_id x]"
  "expr_text e v \<Longrightarrow> arith_op op \<Longrightarrow> expr_text (Binop (Var_Fac x) op e) ([tok_id x] @ tok_sym op # v)"
  "expr_text e v \<Longrightarrow> expr_text (Single (Call_Fac g (Last_Arg e))) (tok_id g # tok_sym TOK_OPENPA # v @ [tok_sym TOK_CLOSEPA])"
  "expr_text e v \<Longrightarrow> item_text (Stat_Item (Return_Stat (Some e))) ((tok_word TOK_RETURN ''return'' # v) @ [tok_sym TOK_SEMICL])"
  "expr_text e v \<Longrightarrow> item_text (Stat_Item (Print_Stat e)) ((tok_word TOK_PRINT ''print'' # v) @ [tok_sym TOK_SEMICL])"
  "cond_text c u \<Longrightarrow> items_text is v \<Longrightarrow> item_text (If_Item c is) ([tok_word TOK_IF ''if'', tok_sym TOK_OPENPA] @ u @
     [tok_sym TOK_CLOSEPA, tok_sym TOK_OPENBR] @ v @ [tok_sym TOK_CLOSEBR])"
proof -
  show "expr_text (Single (Var_Fac x)) [tok_id x]" by (simp add: ident_token_def)
  show "expr_text e v \<Longrightarrow> arith_op op \<Longrightarrow> expr_text (Binop (Var_Fac x) op e) ([tok_id x] @ tok_sym op # v)"
    unfolding expr_text.simps by (intro exI conjI, rule refl) (simp_all add: ident_token_def)
  show "expr_text e v \<Longrightarrow> expr_text (Single (Call_Fac g (Last_Arg e))) (tok_id g # tok_sym TOK_OPENPA # v @ [tok_sym TOK_CLOSEPA])"
    unfolding expr_text.simps fac_text.simps args_text.simps by (intro exI conjI, rule refl) (simp_all add: ident_token_def)
  show "expr_text e v \<Longrightarrow> item_text (Stat_Item (Return_Stat (Some e))) ((tok_word TOK_RETURN ''return'' # v) @ [tok_sym TOK_SEMICL])"
    unfolding item_text.simps by (intro exI conjI, rule refl) simp_all
  show "expr_text e v \<Longrightarrow> item_text (Stat_Item (Print_Stat e)) ((tok_word TOK_PRINT ''print'' # v) @ [tok_sym TOK_SEMICL])"
    unfolding item_text.simps by (intro exI conjI, rule refl) simp_all
  show "cond_text c u \<Longrightarrow> items_text is v \<Longrightarrow> item_text (If_Item c is) ([tok_word TOK_IF ''if'', tok_sym TOK_OPENPA] @ u @
     [tok_sym TOK_CLOSEPA, tok_sym TOK_OPENBR] @ v @ [tok_sym TOK_CLOSEBR])"
    unfolding item_text.simps by (intro exI conjI, rule refl) simp_all
qed

lemma func_textI:
  assumes "is_type t" "ty = tok_type_to_dtype t" "items_text is x"
  shows "decl_text (Func_Decl ty f [p] is) (tok_word t s # tok_id f # tok_sym TOK_OPENPA # [tok_word TOK_INT ''int'', tok_id p] @
    [tok_sym TOK_CLOSEPA, tok_sym TOK_OPENBR] @ x @ [tok_sym TOK_CLOSEBR])"
  unfolding decl_text.simps by (intro exI conjI, rule refl) (use assms in \<open>simp_all add: ident_token_def is_type_def\<close>)

lemma fact_literals: "expr_text (Single (Num_Fac 1)) [tok_lit ''1'']" "expr_text (Single (Num_Fac 2)) [tok_lit ''2'']"
proof -
  have "create_intliteral (tok_lit ''1'') = Ret (leaf AST_INTLITERAL (Val_Number 1))"
    "create_intliteral (tok_lit ''2'') = Ret (leaf AST_INTLITERAL (Val_Number 2))" by code_simp+
  then show "expr_text (Single (Num_Fac 1)) [tok_lit ''1'']" "expr_text (Single (Num_Fac 2)) [tok_lit ''2'']"
    by (simp_all add: num_text_def)
qed

lemma fact_text: "program_text fact_decls fact_tokens"
proof -
  let ?a = "Single (Var_Fac ''a'')" and ?one = "Single (Num_Fac 1)" and ?two = "Single (Num_Fac 2)"
  let ?call = "\<lambda>x v. tok_id ''f'' # tok_sym TOK_OPENPA # v @ [tok_sym TOK_CLOSEPA]"
  let ?c = "[tok_id ''a''] @ tok_sym TOK_LT # [tok_lit ''2'']"
  let ?r1 = "(tok_word TOK_RETURN ''return'' # [tok_lit ''1'']) @ [tok_sym TOK_SEMICL]"
  let ?e2 = "[tok_id ''a''] @ tok_sym TOK_STAR # tok_id ''f'' # tok_sym TOK_OPENPA #
    ([tok_id ''a''] @ tok_sym TOK_MINUS # [tok_lit ''1'']) @ [tok_sym TOK_CLOSEPA]"
  let ?i1 = "[tok_word TOK_IF ''if'', tok_sym TOK_OPENPA] @ ?c @ [tok_sym TOK_CLOSEPA, tok_sym TOK_OPENBR] @ (?r1 @ []) @ [tok_sym TOK_CLOSEBR]"
  let ?i2 = "(tok_word TOK_RETURN ''return'' # ?e2) @ [tok_sym TOK_SEMICL]"
  let ?p = "(tok_word TOK_PRINT ''print'' # tok_id ''f'' # tok_sym TOK_OPENPA # [tok_id ''n''] @ [tok_sym TOK_CLOSEPA]) @ [tok_sym TOK_SEMICL]"
  have one: "items_text [i] (w @ [])" if "item_text i w" for i w using that by auto
  have two: "items_text [i, j] (w @ v @ [])" if "item_text i w" "item_text j v" for i j w v using that by auto
  have "cond_text (Cond ?a TOK_LT ?two) ?c"
    unfolding cond_text.simps
    by (intro exI conjI, rule refl) (simp_all add: text_intros(1) fact_literals compare_op_def del: expr_text.simps)
  then have "item_text (If_Item (Cond ?a TOK_LT ?two) [Stat_Item (Return_Stat (Some ?one))]) ?i1"
    by (intro text_intros(6) one text_intros(4) fact_literals)
  moreover have "item_text (Stat_Item (Return_Stat (Some (Binop (Var_Fac ''a'') TOK_STAR
      (Single (Call_Fac ''f'' (Last_Arg (Binop (Var_Fac ''a'') TOK_MINUS ?one)))))))) ?i2"
    by (intro text_intros(2-4) fact_literals) (simp_all add: arith_op_def)
  ultimately have "decl_text (fact_decls ! 1) (tok_word TOK_INT ''int'' # tok_id ''f'' # tok_sym TOK_OPENPA #
      [tok_word TOK_INT ''int'', tok_id ''a''] @ [tok_sym TOK_CLOSEPA, tok_sym TOK_OPENBR] @ (?i1 @ ?i2 @ []) @ [tok_sym TOK_CLOSEBR])"
    unfolding fact_decls_def nth_Cons_Suc nth_Cons_0 One_nat_def by (intro func_textI two) (simp_all add: is_type_def del: item_text.simps)
  then have 1: "decl_text (fact_decls ! 1) fact_func_tokens" by (simp add: fact_func_tokens_def)
  have "item_text (Stat_Item (Print_Stat (Single (Call_Fac ''f'' (Last_Arg (Single (Var_Fac ''n''))))))) ?p"
    by (intro text_intros)
  then have "decl_text (fact_decls ! 2) (tok_word TOK_VOID ''void'' # tok_id ''main'' # tok_sym TOK_OPENPA #
      [tok_word TOK_INT ''int'', tok_id ''n''] @ [tok_sym TOK_CLOSEPA, tok_sym TOK_OPENBR] @ (?p @ []) @ [tok_sym TOK_CLOSEBR])"
    unfolding fact_decls_def numeral_2_eq_2 nth_Cons_Suc nth_Cons_0 by (intro func_textI one) (simp_all add: is_type_def del: item_text.simps)
  then have 2: "decl_text (fact_decls ! 2) fact_main_tokens" by (simp add: fact_main_tokens_def)
  have "decl_text (fact_decls ! 0) (tok_word TOK_INT ''int'' # tok_id ''f'' # tok_sym TOK_OPENPA #
      [tok_word TOK_INT ''int'', tok_id ''a''] @ [tok_sym TOK_CLOSEPA, tok_sym TOK_SEMICL])"
    unfolding fact_decls_def nth_Cons_0 decl_text.simps
    by (intro exI conjI, rule refl) (simp_all add: is_type_def ident_token_def)
  then have 0: "decl_text (fact_decls ! 0) fact_proto_tokens" by (simp add: fact_proto_tokens_def)
  have "fact_decls = [fact_decls ! 0, fact_decls ! 1, fact_decls ! 2]" by (simp add: fact_decls_def)
  moreover have "decls_text [fact_decls ! 0, fact_decls ! 1, fact_decls ! 2] (fact_proto_tokens @ fact_func_tokens @ fact_main_tokens @ [])"
    unfolding decls_text.simps by (intro exI conjI, rule refl, rule 0, rule refl, rule 1, rule refl, rule 2) simp
  ultimately have "decls_text fact_decls (fact_proto_tokens @ fact_func_tokens @ fact_main_tokens)" by simp
  moreover have "fact_tokens = (fact_proto_tokens @ fact_func_tokens @ fact_main_tokens) @ eof_token # []"
    by (simp add: fact_tokens_def)
  ultimately show ?thesis
    unfolding program_text_def by (intro exI conjI) (assumption | simp add: eof_token_def)+
qed

lemma fact_small:
  "\<exists>ast st. parse_tokenlist fact_tokens = Ret (ast, st) \<and> small_frames (as_symbols st) fact_decls"
proof -
  have "(case parse_tokenlist fact_tokens of
      Ret (ast, st) \<Rightarrow> map (\<lambda>(f, fd). map_option (\<lambda>h. (frame_size h, fi_arg_count h)) (get_func f (as_symbols st))) (decl_funcs fact_decls)
    | _ \<Rightarrow> []) = [Some (1, 1), Some (1, 1)]"
    by code_simp
  then show ?thesis
    by (auto simp: small_frames_def fact_decls_def split: outcome.splits)
qed

end
