(* ===== verification/Aes.thy ===== *)
theory Aes
  imports Cbc
begin

unbundle bit_operations_syntax

text \<open>
  backend/bispe_crypto_asm.S: AES-256 in registers. The round keys are generated from the key in
  the debug registers and kept in halves of the ymm registers; a block is encrypted and decrypted
  in xmm registers. The AES instructions are those of the instruction set's manual; a 128-bit
  register is a \<open>line\<close>, and dword \<open>c\<close> of it is column \<open>c\<close> of the AES state, its lowest byte in
  row 0.
\<close>

section \<open>Bytes\<close>

definition byte :: "nat \<Rightarrow> u32 \<Rightarrow> u8" where
  "byte i w = ucast (drop_bit (8 * i) w)"

definition dword :: "u8 \<Rightarrow> u8 \<Rightarrow> u8 \<Rightarrow> u8 \<Rightarrow> u32" where
  "dword b0 b1 b2 b3 = ucast b0 OR push_bit 8 (ucast b1) OR push_bit 16 (ucast b2) OR push_bit 24 (ucast b3)"

lemma bit_dword:
  "bit (dword a b c d) n \<longleftrightarrow> (if n < 8 then bit a n else if n < 16 then bit b (n - 8) else if n < 24 then bit c (n - 16) else bit d (n - 24))"
  by (auto simp: dword_def bit_simps dest: bit_imp_le_length)

lemma byte_dword [simp]:
  "byte 0 (dword a b c d) = a" "byte (Suc 0) (dword a b c d) = b" "byte 2 (dword a b c d) = c" "byte 3 (dword a b c d) = d"
  by (rule bit_word_eqI, simp add: byte_def bit_dword bit_simps)+

lemma dword_byte [simp]: "dword (byte 0 w) (byte (Suc 0) w) (byte 2 w) (byte 3 w) = w"
proof (rule bit_word_eqI)
  fix n
  assume "n < LENGTH(32)"
  then show "bit (dword (byte 0 w) (byte (Suc 0) w) (byte 2 w) (byte 3 w)) n \<longleftrightarrow> bit w n"
    by (auto simp: bit_dword byte_def bit_simps)
qed

lemma byte_xor: "byte i (v XOR w) = byte i v XOR byte i w"
  by (rule bit_word_eqI) (auto simp: byte_def bit_simps)

lemma dword_xor: "dword a b c d XOR dword a' b' c' d' = dword (a XOR a') (b XOR b') (c XOR c') (d XOR d')"
  using dword_byte [of "dword a b c d XOR dword a' b' c' d'"] by (simp add: byte_xor)

section \<open>The S-box\<close>

definition sbox_rows :: "u8 list list" where
  "sbox_rows =
    [[0x63, 0x7c, 0x77, 0x7b, 0xf2, 0x6b, 0x6f, 0xc5, 0x30, 0x01, 0x67, 0x2b, 0xfe, 0xd7, 0xab, 0x76],
     [0xca, 0x82, 0xc9, 0x7d, 0xfa, 0x59, 0x47, 0xf0, 0xad, 0xd4, 0xa2, 0xaf, 0x9c, 0xa4, 0x72, 0xc0],
     [0xb7, 0xfd, 0x93, 0x26, 0x36, 0x3f, 0xf7, 0xcc, 0x34, 0xa5, 0xe5, 0xf1, 0x71, 0xd8, 0x31, 0x15],
     [0x04, 0xc7, 0x23, 0xc3, 0x18, 0x96, 0x05, 0x9a, 0x07, 0x12, 0x80, 0xe2, 0xeb, 0x27, 0xb2, 0x75],
     [0x09, 0x83, 0x2c, 0x1a, 0x1b, 0x6e, 0x5a, 0xa0, 0x52, 0x3b, 0xd6, 0xb3, 0x29, 0xe3, 0x2f, 0x84],
     [0x53, 0xd1, 0x00, 0xed, 0x20, 0xfc, 0xb1, 0x5b, 0x6a, 0xcb, 0xbe, 0x39, 0x4a, 0x4c, 0x58, 0xcf],
     [0xd0, 0xef, 0xaa, 0xfb, 0x43, 0x4d, 0x33, 0x85, 0x45, 0xf9, 0x02, 0x7f, 0x50, 0x3c, 0x9f, 0xa8],
     [0x51, 0xa3, 0x40, 0x8f, 0x92, 0x9d, 0x38, 0xf5, 0xbc, 0xb6, 0xda, 0x21, 0x10, 0xff, 0xf3, 0xd2],
     [0xcd, 0x0c, 0x13, 0xec, 0x5f, 0x97, 0x44, 0x17, 0xc4, 0xa7, 0x7e, 0x3d, 0x64, 0x5d, 0x19, 0x73],
     [0x60, 0x81, 0x4f, 0xdc, 0x22, 0x2a, 0x90, 0x88, 0x46, 0xee, 0xb8, 0x14, 0xde, 0x5e, 0x0b, 0xdb],
     [0xe0, 0x32, 0x3a, 0x0a, 0x49, 0x06, 0x24, 0x5c, 0xc2, 0xd3, 0xac, 0x62, 0x91, 0x95, 0xe4, 0x79],
     [0xe7, 0xc8, 0x37, 0x6d, 0x8d, 0xd5, 0x4e, 0xa9, 0x6c, 0x56, 0xf4, 0xea, 0x65, 0x7a, 0xae, 0x08],
     [0xba, 0x78, 0x25, 0x2e, 0x1c, 0xa6, 0xb4, 0xc6, 0xe8, 0xdd, 0x74, 0x1f, 0x4b, 0xbd, 0x8b, 0x8a],
     [0x70, 0x3e, 0xb5, 0x66, 0x48, 0x03, 0xf6, 0x0e, 0x61, 0x35, 0x57, 0xb9, 0x86, 0xc1, 0x1d, 0x9e],
     [0xe1, 0xf8, 0x98, 0x11, 0x69, 0xd9, 0x8e, 0x94, 0x9b, 0x1e, 0x87, 0xe9, 0xce, 0x55, 0x28, 0xdf],
     [0x8c, 0xa1, 0x89, 0x0d, 0xbf, 0xe6, 0x42, 0x68, 0x41, 0x99, 0x2d, 0x0f, 0xb0, 0x54, 0xbb, 0x16]]"

definition inv_sbox_rows :: "u8 list list" where
  "inv_sbox_rows =
    [[0x52, 0x09, 0x6a, 0xd5, 0x30, 0x36, 0xa5, 0x38, 0xbf, 0x40, 0xa3, 0x9e, 0x81, 0xf3, 0xd7, 0xfb],
     [0x7c, 0xe3, 0x39, 0x82, 0x9b, 0x2f, 0xff, 0x87, 0x34, 0x8e, 0x43, 0x44, 0xc4, 0xde, 0xe9, 0xcb],
     [0x54, 0x7b, 0x94, 0x32, 0xa6, 0xc2, 0x23, 0x3d, 0xee, 0x4c, 0x95, 0x0b, 0x42, 0xfa, 0xc3, 0x4e],
     [0x08, 0x2e, 0xa1, 0x66, 0x28, 0xd9, 0x24, 0xb2, 0x76, 0x5b, 0xa2, 0x49, 0x6d, 0x8b, 0xd1, 0x25],
     [0x72, 0xf8, 0xf6, 0x64, 0x86, 0x68, 0x98, 0x16, 0xd4, 0xa4, 0x5c, 0xcc, 0x5d, 0x65, 0xb6, 0x92],
     [0x6c, 0x70, 0x48, 0x50, 0xfd, 0xed, 0xb9, 0xda, 0x5e, 0x15, 0x46, 0x57, 0xa7, 0x8d, 0x9d, 0x84],
     [0x90, 0xd8, 0xab, 0x00, 0x8c, 0xbc, 0xd3, 0x0a, 0xf7, 0xe4, 0x58, 0x05, 0xb8, 0xb3, 0x45, 0x06],
     [0xd0, 0x2c, 0x1e, 0x8f, 0xca, 0x3f, 0x0f, 0x02, 0xc1, 0xaf, 0xbd, 0x03, 0x01, 0x13, 0x8a, 0x6b],
     [0x3a, 0x91, 0x11, 0x41, 0x4f, 0x67, 0xdc, 0xea, 0x97, 0xf2, 0xcf, 0xce, 0xf0, 0xb4, 0xe6, 0x73],
     [0x96, 0xac, 0x74, 0x22, 0xe7, 0xad, 0x35, 0x85, 0xe2, 0xf9, 0x37, 0xe8, 0x1c, 0x75, 0xdf, 0x6e],
     [0x47, 0xf1, 0x1a, 0x71, 0x1d, 0x29, 0xc5, 0x89, 0x6f, 0xb7, 0x62, 0x0e, 0xaa, 0x18, 0xbe, 0x1b],
     [0xfc, 0x56, 0x3e, 0x4b, 0xc6, 0xd2, 0x79, 0x20, 0x9a, 0xdb, 0xc0, 0xfe, 0x78, 0xcd, 0x5a, 0xf4],
     [0x1f, 0xdd, 0xa8, 0x33, 0x88, 0x07, 0xc7, 0x31, 0xb1, 0x12, 0x10, 0x59, 0x27, 0x80, 0xec, 0x5f],
     [0x60, 0x51, 0x7f, 0xa9, 0x19, 0xb5, 0x4a, 0x0d, 0x2d, 0xe5, 0x7a, 0x9f, 0x93, 0xc9, 0x9c, 0xef],
     [0xa0, 0xe0, 0x3b, 0x4d, 0xae, 0x2a, 0xf5, 0xb0, 0xc8, 0xeb, 0xbb, 0x3c, 0x83, 0x53, 0x99, 0x61],
     [0x17, 0x2b, 0x04, 0x7e, 0xba, 0x77, 0xd6, 0x26, 0xe1, 0x69, 0x14, 0x63, 0x55, 0x21, 0x0c, 0x7d]]"

definition table_lookup :: "u8 list list \<Rightarrow> u8 \<Rightarrow> u8" where
  "table_lookup t b = (let i = unat b in t ! (i div 16) ! (i mod 16))"

definition sbox :: "u8 \<Rightarrow> u8" where
  "sbox b = table_lookup sbox_rows b"

definition inv_sbox :: "u8 \<Rightarrow> u8" where
  "inv_sbox b = table_lookup inv_sbox_rows b"

lemma upt_16: "[0..<16] = [0, 1, 2, 3, 4, 5, 6, 7, 8, 9, 10, 11, 12, 13, 14, 15]"
  by code_simp

lemma inv_sbox_rows_all: "map (map inv_sbox) sbox_rows = map (\<lambda>h. map (\<lambda>l. of_nat (16 * h + l)) [0..<16]) [0..<16]"
  unfolding upt_16 by (simp add: sbox_rows_def inv_sbox_rows_def inv_sbox_def table_lookup_def Let_def)

lemma inv_sbox_rows_nth: "h < 16 \<Longrightarrow> l < 16 \<Longrightarrow> map (map inv_sbox) sbox_rows ! h ! l = of_nat (16 * h + l)"
  unfolding inv_sbox_rows_all by simp

lemma inv_sbox_sbox [simp]: "inv_sbox (sbox b) = b"
proof -
  let ?h = "unat b div 16" and ?l = "unat b mod 16"
  have "unat b < 256" using unsigned_less [of b] by simp
  then have h: "?h < 16" by simp
  have "length sbox_rows = 16" "list_all (\<lambda>r. length r = 16) sbox_rows" by code_simp+
  then have "inv_sbox (sbox b) = map (map inv_sbox) sbox_rows ! ?h ! ?l"
    using h by (simp add: sbox_def table_lookup_def list_all_iff Let_def)
  also have "\<dots> = of_nat (16 * ?h + ?l)" using h by (intro inv_sbox_rows_nth) simp_all
  also have "\<dots> = b" by (simp only: mult_div_mod_eq of_nat_unat ucast_id)
  finally show ?thesis .
qed


section \<open>Columns\<close>

text \<open>Multiplication in the field of AES, by the factors that the instructions need.\<close>

definition xtime :: "u8 \<Rightarrow> u8" where
  "xtime b = push_bit 1 b XOR (if bit b 7 then 0x1b else 0)"

definition mul2 :: "u8 \<Rightarrow> u8" where "mul2 b = xtime b"
definition mul3 :: "u8 \<Rightarrow> u8" where "mul3 b = xtime b XOR b"
definition mul9 :: "u8 \<Rightarrow> u8" where "mul9 b = xtime (xtime (xtime b)) XOR b"
definition mul11 :: "u8 \<Rightarrow> u8" where "mul11 b = xtime (xtime (xtime b)) XOR xtime b XOR b"
definition mul13 :: "u8 \<Rightarrow> u8" where "mul13 b = xtime (xtime (xtime b)) XOR xtime (xtime b) XOR b"
definition mul14 :: "u8 \<Rightarrow> u8" where "mul14 b = xtime (xtime (xtime b)) XOR xtime (xtime b) XOR xtime b"

definition mix_column :: "u32 \<Rightarrow> u32" where
  "mix_column w =
     (let a = byte 0 w; b = byte 1 w; c = byte 2 w; d = byte 3 w
      in dword (mul2 a XOR mul3 b XOR c XOR d) (a XOR mul2 b XOR mul3 c XOR d)
           (a XOR b XOR mul2 c XOR mul3 d) (mul3 a XOR b XOR c XOR mul2 d))"

definition inv_mix_column :: "u32 \<Rightarrow> u32" where
  "inv_mix_column w =
     (let a = byte 0 w; b = byte 1 w; c = byte 2 w; d = byte 3 w
      in dword (mul14 a XOR mul11 b XOR mul13 c XOR mul9 d) (mul9 a XOR mul14 b XOR mul11 c XOR mul13 d)
           (mul13 a XOR mul9 b XOR mul14 c XOR mul11 d) (mul11 a XOR mul13 b XOR mul9 c XOR mul14 d))"

definition sub_word :: "u32 \<Rightarrow> u32" where
  "sub_word w = dword (sbox (byte 0 w)) (sbox (byte 1 w)) (sbox (byte 2 w)) (sbox (byte 3 w))"

definition inv_sub_word :: "u32 \<Rightarrow> u32" where
  "inv_sub_word w = dword (inv_sbox (byte 0 w)) (inv_sbox (byte 1 w)) (inv_sbox (byte 2 w)) (inv_sbox (byte 3 w))"

definition rot_word :: "u32 \<Rightarrow> u32" where
  "rot_word w = dword (byte 1 w) (byte 2 w) (byte 3 w) (byte 0 w)"

lemma xtime_xor: "xtime (a XOR b) = xtime a XOR xtime b"
  unfolding xtime_def by (rule bit_word_eqI) (auto simp: bit_simps)

lemma xor_cancel_left: "(a :: u8) XOR (a XOR b) = b"
  by (simp flip: xor.assoc)

lemmas mul_defs = mul2_def mul3_def mul9_def mul11_def mul13_def mul14_def

lemma inv_mix_column_mix_column [simp]: "inv_mix_column (mix_column w) = w"
proof -
  have "inv_mix_column (mix_column (dword a b c d)) = dword a b c d" for a b c d
    unfolding inv_mix_column_def mix_column_def Let_def One_nat_def byte_dword mul_defs xtime_xor
    by (simp add: xor.assoc xor.left_commute xor.commute xor_cancel_left)
  from this [of "byte 0 w" "byte 1 w" "byte 2 w" "byte 3 w"] show ?thesis by simp
qed

lemma inv_mix_column_xor: "inv_mix_column (v XOR w) = inv_mix_column v XOR inv_mix_column w"
  unfolding inv_mix_column_def Let_def byte_xor mul_defs xtime_xor dword_xor
  by (simp add: xor.assoc xor.left_commute xor.commute)

lemma inv_sub_word_sub_word [simp]: "inv_sub_word (sub_word w) = w"
  by (simp add: sub_word_def inv_sub_word_def)

section \<open>The AES instructions\<close>

text \<open>Row \<open>r\<close> of the state moves \<open>r\<close> columns down.\<close>

definition shift_rows :: "line \<Rightarrow> line" where
  "shift_rows s = (case s of Line a b c d \<Rightarrow>
     Line (dword (byte 0 a) (byte 1 b) (byte 2 c) (byte 3 d)) (dword (byte 0 b) (byte 1 c) (byte 2 d) (byte 3 a))
       (dword (byte 0 c) (byte 1 d) (byte 2 a) (byte 3 b)) (dword (byte 0 d) (byte 1 a) (byte 2 b) (byte 3 c)))"

definition inv_shift_rows :: "line \<Rightarrow> line" where
  "inv_shift_rows s = (case s of Line a b c d \<Rightarrow>
     Line (dword (byte 0 a) (byte 1 d) (byte 2 c) (byte 3 b)) (dword (byte 0 b) (byte 1 a) (byte 2 d) (byte 3 c))
       (dword (byte 0 c) (byte 1 b) (byte 2 a) (byte 3 d)) (dword (byte 0 d) (byte 1 c) (byte 2 b) (byte 3 a)))"

definition map_line :: "(u32 \<Rightarrow> u32) \<Rightarrow> line \<Rightarrow> line" where
  "map_line f s = (case s of Line a b c d \<Rightarrow> Line (f a) (f b) (f c) (f d))"

text \<open>The last operand of the macros' AT\&T syntax is the result.\<close>

definition vaesenc :: "line \<Rightarrow> line \<Rightarrow> line" where
  "vaesenc key s = line_xor (map_line mix_column (map_line sub_word (shift_rows s))) key"

definition vaesenclast :: "line \<Rightarrow> line \<Rightarrow> line" where
  "vaesenclast key s = line_xor (map_line sub_word (shift_rows s)) key"

definition vaesdec :: "line \<Rightarrow> line \<Rightarrow> line" where
  "vaesdec key s = line_xor (map_line inv_mix_column (map_line inv_sub_word (inv_shift_rows s))) key"

definition vaesdeclast :: "line \<Rightarrow> line \<Rightarrow> line" where
  "vaesdeclast key s = line_xor (map_line inv_sub_word (inv_shift_rows s)) key"

definition vaesimc :: "line \<Rightarrow> line" where
  "vaesimc s = map_line inv_mix_column s"

definition vaeskeygenassist :: "u32 \<Rightarrow> line \<Rightarrow> line" where
  "vaeskeygenassist rcon s =
     Line (sub_word (dword1 s)) (rot_word (sub_word (dword1 s)) XOR rcon)
       (sub_word (dword3 s)) (rot_word (sub_word (dword3 s)) XOR rcon)"

lemma inv_shift_rows_shift_rows [simp]: "inv_shift_rows (shift_rows s) = s"
  by (cases s) (simp add: shift_rows_def inv_shift_rows_def)

lemma map_line_simps [simp]:
  "map_line f (Line a b c d) = Line (f a) (f b) (f c) (f d)" "(\<And>x. f (g x) = x) \<Longrightarrow> map_line f (map_line g s) = s"
  by (cases s; simp add: map_line_def)+

text \<open>A round of decryption undoes what a round of encryption does before its key.\<close>

definition enc_rows :: "line \<Rightarrow> line" where
  "enc_rows s = map_line sub_word (shift_rows s)"

lemma inv_sub_rows: "map_line inv_sub_word (inv_shift_rows (enc_rows s)) = s"
  by (cases s) (simp add: enc_rows_def shift_rows_def inv_shift_rows_def sub_word_def inv_sub_word_def)

lemma vaesdec_round: "vaesdec (vaesimc k) (enc_rows (vaesenc k s)) = enc_rows s"
proof -
  have "map_line inv_mix_column (line_xor a b) = line_xor (map_line inv_mix_column a) (map_line inv_mix_column b)" for a b
    by (cases a; cases b) (simp add: line_xor_def inv_mix_column_xor)
  then have "map_line inv_mix_column (vaesenc k s) = line_xor (enc_rows s) (vaesimc k)"
    by (simp add: vaesenc_def vaesimc_def enc_rows_def)
  then show ?thesis by (simp add: vaesdec_def inv_sub_rows)
qed

lemma vaesdeclast_round: "vaesdeclast k (enc_rows (line_xor k s)) = s"
  by (simp add: vaesdeclast_def inv_sub_rows line_xor_cancel_left)


section \<open>Registers\<close>

text \<open>
  The low and the high halves of the sixteen ymm registers, and the debug registers with the key.
  An instruction that writes a 128-bit register clears the other half.
\<close>

record cpu =
  xmm :: "nat \<Rightarrow> line"
  ymm_high :: "nat \<Rightarrow> line"
  debug_reg :: "nat \<Rightarrow> u64"

definition zero_line :: line where
  "zero_line = Line 0 0 0 0"

definition set_xmm :: "nat \<Rightarrow> line \<Rightarrow> cpu \<Rightarrow> cpu" where
  "set_xmm r v s = s\<lparr>xmm := (xmm s)(r := v), ymm_high := (ymm_high s)(r := zero_line)\<rparr>"

abbreviation (input) rstate :: nat where "rstate \<equiv> 0"
abbreviation (input) rhelp :: nat where "rhelp \<equiv> 1"
abbreviation (input) rsrc :: nat where "rsrc \<equiv> 2"
abbreviation (input) rdest :: nat where "rdest \<equiv> 3"

text \<open>Round keys 0 to 7 are the high halves of ymm8 to ymm15, the others the low halves of ymm8 on.\<close>

definition rkey :: "nat \<Rightarrow> cpu \<Rightarrow> line" where
  "rkey src s = (if src \<le> 7 then ymm_high s (8 + src) else xmm s src)"

definition load_rkey :: "nat \<Rightarrow> nat \<Rightarrow> cpu \<Rightarrow> cpu" where
  "load_rkey src dest s = set_xmm dest (rkey src s) s"

definition save_rkey :: "nat \<Rightarrow> nat \<Rightarrow> cpu \<Rightarrow> cpu" where
  "save_rkey src dest s =
     (if dest \<le> 7 then s\<lparr>ymm_high := (ymm_high s)(8 + dest := xmm s src)\<rparr>
      else s\<lparr>xmm := (xmm s)(dest := xmm s src)\<rparr>)"

text \<open>\<open>vshufps imm,b,a\<close>: two dwords of \<open>a\<close>, then two of \<open>b\<close>.\<close>

definition vshufps :: "nat \<Rightarrow> line \<Rightarrow> line \<Rightarrow> line" where
  "vshufps imm b a = Line (extr_by_ofs a (imm mod 4)) (extr_by_ofs a (imm div 4 mod 4))
     (extr_by_ofs b (imm div 16 mod 4)) (extr_by_ofs b (imm div 64 mod 4))"

definition vpxor :: "nat \<Rightarrow> nat \<Rightarrow> nat \<Rightarrow> cpu \<Rightarrow> cpu" where
  "vpxor b a dest s = set_xmm dest (line_xor (xmm s a) (xmm s b)) s"

definition shuf :: "nat \<Rightarrow> nat \<Rightarrow> nat \<Rightarrow> nat \<Rightarrow> cpu \<Rightarrow> cpu" where
  "shuf imm b a dest s = set_xmm dest (vshufps imm (xmm s b) (xmm s a)) s"

definition vmovq :: "nat \<Rightarrow> nat \<Rightarrow> cpu \<Rightarrow> cpu" where
  "vmovq db dest s = set_xmm dest (Line (ucast (debug_reg s db)) (ucast (drop_bit 32 (debug_reg s db))) 0 0) s"

section \<open>The key schedule\<close>

definition key_schedule :: "nat \<Rightarrow> nat \<Rightarrow> u32 \<Rightarrow> cpu \<Rightarrow> cpu" where
  "key_schedule r0 r2 rcon s =
     (let s = (if r0 > 0 then vpxor rsrc rdest rdest (vpxor rdest rsrc rsrc (vpxor rsrc rdest rdest s)) else s);
          s = vpxor rhelp rhelp rhelp s;
          s = shuf 0x1f rdest rhelp rhelp s;
          s = vpxor rhelp rdest rdest s;
          s = shuf 0x8c rdest rhelp rhelp s;
          s = vpxor rhelp rdest rdest s;
          s = set_xmm rhelp (vaeskeygenassist rcon (xmm s rsrc)) s;
          s = (if rcon = 0 then shuf 0xaa rhelp rhelp rhelp s else shuf 0xff rhelp rhelp rhelp s);
          s = vpxor rhelp rdest rdest s
      in save_rkey rdest r2 s)"

definition read_key :: "nat \<Rightarrow> nat \<Rightarrow> cpu \<Rightarrow> cpu" where
  "read_key r0 r1 s =
     shuf 0x44 rhelp r1 r1 (vmovq 3 rhelp (vmovq 2 r1
       (shuf 0x44 rhelp r0 r0 (vmovq 1 rhelp (vmovq 0 r0 s)))))"

definition generate_rks :: "cpu \<Rightarrow> cpu" where
  "generate_rks s =
     foldl (\<lambda>s (r0, r2, rcon). key_schedule r0 r2 rcon s)
       (save_rkey rsrc 1 (save_rkey rdest 0 (read_key rdest rsrc s)))
       [(0, 2, 0x1), (1, 3, 0x0), (2, 4, 0x2), (3, 5, 0x0), (4, 6, 0x4), (5, 7, 0x0), (6, 8, 0x8), (7, 9, 0x0),
        (8, 10, 0x10), (9, 11, 0x0), (10, 12, 0x20), (11, 13, 0x0), (12, 14, 0x40)]"

section \<open>Blocks\<close>

definition do_enc_round :: "nat \<Rightarrow> cpu \<Rightarrow> cpu" where
  "do_enc_round rk s = (let s = load_rkey rk rhelp s in set_xmm rstate (vaesenc (xmm s rhelp) (xmm s rstate)) s)"

definition encrypt_block :: "cpu \<Rightarrow> cpu" where
  "encrypt_block s =
     (let s = vpxor rhelp rstate rstate (load_rkey 0 rhelp s);
          s = foldl (\<lambda>s rk. do_enc_round rk s) s [1, 2, 3, 4, 5, 6, 7, 8, 9, 10, 11, 12, 13];
          s = load_rkey 14 rhelp s
      in set_xmm rstate (vaesenclast (xmm s rhelp) (xmm s rstate)) s)"

definition do_dec_round :: "nat \<Rightarrow> cpu \<Rightarrow> cpu" where
  "do_dec_round rk s =
     (let s = load_rkey rk rhelp s; s = set_xmm rhelp (vaesimc (xmm s rhelp)) s
      in set_xmm rstate (vaesdec (xmm s rhelp) (xmm s rstate)) s)"

definition decrypt_block :: "cpu \<Rightarrow> cpu" where
  "decrypt_block s =
     (let s = vpxor rhelp rstate rstate (load_rkey 14 rhelp s);
          s = foldl (\<lambda>s rk. do_dec_round rk s) s [13, 12, 11, 10, 9, 8, 7, 6, 5, 4, 3, 2, 1];
          s = load_rkey 0 rhelp s
      in set_xmm rstate (vaesdeclast (xmm s rhelp) (xmm s rstate)) s)"

text \<open>The functions of the module: a block at an address, and the key in the debug registers.\<close>

definition bispe_encblk_mem :: "cpu \<Rightarrow> line \<Rightarrow> line \<times> cpu" where
  "bispe_encblk_mem s b = (let s = encrypt_block (set_xmm rstate b s) in (xmm s rstate, s))"

definition bispe_decblk_mem :: "cpu \<Rightarrow> line \<Rightarrow> line \<times> cpu" where
  "bispe_decblk_mem s b = (let s = decrypt_block (set_xmm rstate b s) in (xmm s rstate, s))"

definition bispe_gen_rkeys :: "cpu \<Rightarrow> cpu" where
  "bispe_gen_rkeys s = generate_rks s"

definition bispe_clear_avx_regs :: "cpu \<Rightarrow> cpu" where
  "bispe_clear_avx_regs s = s\<lparr>xmm := (\<lambda>_. zero_line), ymm_high := (\<lambda>_. zero_line)\<rparr>"

definition bispe_set_key :: "u64 list \<Rightarrow> cpu \<Rightarrow> cpu" where
  "bispe_set_key k s = s\<lparr>debug_reg := (debug_reg s)(0 := k ! 0, 1 := k ! 1, 2 := k ! 2, 3 := k ! 3)\<rparr>"

section \<open>Registers after a block\<close>

lemma set_xmm_simps [simp]:
  "xmm (set_xmm r v s) i = (if i = r then v else xmm s i)"
  "ymm_high (set_xmm r v s) i = (if i = r then zero_line else ymm_high s i)"
  "debug_reg (set_xmm r v s) = debug_reg s"
  by (simp_all add: set_xmm_def)

lemma rkey_set_xmm [simp]: "r < 8 \<Longrightarrow> rkey n (set_xmm r v s) = rkey n s"
  by (simp add: rkey_def)

text \<open>What blocks use: the round keys, and the state register.\<close>

definition aes_states :: "(nat \<Rightarrow> line) \<Rightarrow> line \<Rightarrow> nat \<Rightarrow> line" where
  "aes_states k b n = foldl (\<lambda>x i. vaesenc (k i) x) (line_xor b (k 0)) [1..<Suc n]"

definition aes_enc :: "(nat \<Rightarrow> line) \<Rightarrow> line \<Rightarrow> line" where
  "aes_enc k b = line_xor (enc_rows (aes_states k b 13)) (k 14)"

definition aes_dec :: "(nat \<Rightarrow> line) \<Rightarrow> line \<Rightarrow> line" where
  "aes_dec k c = vaesdeclast (k 0) (foldl (\<lambda>x i. vaesdec (vaesimc (k i)) x) (line_xor c (k 14)) (rev [1..<14]))"

lemma do_enc_round_simps:
  "xmm (do_enc_round n s) rstate = vaesenc (rkey n s) (xmm s rstate)"
  "1 < i \<Longrightarrow> xmm (do_enc_round n s) i = xmm s i" "1 < i \<Longrightarrow> ymm_high (do_enc_round n s) i = ymm_high s i"
  "rkey m (do_enc_round n s) = rkey m s" "debug_reg (do_enc_round n s) = debug_reg s"
  by (simp_all add: do_enc_round_def load_rkey_def Let_def)

lemma do_dec_round_simps:
  "xmm (do_dec_round n s) rstate = vaesdec (vaesimc (rkey n s)) (xmm s rstate)"
  "1 < i \<Longrightarrow> xmm (do_dec_round n s) i = xmm s i" "1 < i \<Longrightarrow> ymm_high (do_dec_round n s) i = ymm_high s i"
  "rkey m (do_dec_round n s) = rkey m s" "debug_reg (do_dec_round n s) = debug_reg s"
  by (simp_all add: do_dec_round_def load_rkey_def Let_def)

lemma enc_rounds:
  "xmm (foldl (\<lambda>s rk. do_enc_round rk s) s ns) rstate = foldl (\<lambda>x i. vaesenc (rkey i s) x) (xmm s rstate) ns"
  "1 < i \<Longrightarrow> xmm (foldl (\<lambda>s rk. do_enc_round rk s) s ns) i = xmm s i"
  "1 < i \<Longrightarrow> ymm_high (foldl (\<lambda>s rk. do_enc_round rk s) s ns) i = ymm_high s i"
  "rkey m (foldl (\<lambda>s rk. do_enc_round rk s) s ns) = rkey m s"
  "debug_reg (foldl (\<lambda>s rk. do_enc_round rk s) s ns) = debug_reg s"
  by (induction ns arbitrary: s) (simp_all add: do_enc_round_simps)

lemma dec_rounds:
  "xmm (foldl (\<lambda>s rk. do_dec_round rk s) s ns) rstate = foldl (\<lambda>x i. vaesdec (vaesimc (rkey i s)) x) (xmm s rstate) ns"
  "1 < i \<Longrightarrow> xmm (foldl (\<lambda>s rk. do_dec_round rk s) s ns) i = xmm s i"
  "1 < i \<Longrightarrow> ymm_high (foldl (\<lambda>s rk. do_dec_round rk s) s ns) i = ymm_high s i"
  "rkey m (foldl (\<lambda>s rk. do_dec_round rk s) s ns) = rkey m s"
  "debug_reg (foldl (\<lambda>s rk. do_dec_round rk s) s ns) = debug_reg s"
  by (induction ns arbitrary: s) (simp_all add: do_dec_round_simps)

lemma rounds_13: "[Suc 0..<14] = [Suc 0, 2, 3, 4, 5, 6, 7, 8, 9, 10, 11, 12, 13]"
  by code_simp

lemma encrypt_block_simps:
  "xmm (encrypt_block s) rstate = aes_enc (\<lambda>n. rkey n s) (xmm s rstate)"
  "1 < i \<Longrightarrow> xmm (encrypt_block s) i = xmm s i" "1 < i \<Longrightarrow> ymm_high (encrypt_block s) i = ymm_high s i"
  "rkey m (encrypt_block s) = rkey m s" "debug_reg (encrypt_block s) = debug_reg s"
  unfolding encrypt_block_def Let_def load_rkey_def vpxor_def
  by (simp_all add: enc_rounds aes_enc_def aes_states_def vaesenclast_def enc_rows_def rounds_13 del: foldl_Cons)

lemma decrypt_block_simps:
  "xmm (decrypt_block s) rstate = aes_dec (\<lambda>n. rkey n s) (xmm s rstate)"
  "1 < i \<Longrightarrow> xmm (decrypt_block s) i = xmm s i" "1 < i \<Longrightarrow> ymm_high (decrypt_block s) i = ymm_high s i"
  "rkey m (decrypt_block s) = rkey m s" "debug_reg (decrypt_block s) = debug_reg s"
  unfolding decrypt_block_def Let_def load_rkey_def vpxor_def
  by (simp_all add: dec_rounds aes_dec_def rounds_13 del: foldl_Cons)

section \<open>Decryption inverts encryption\<close>

lemma dec_states:
  "foldl (\<lambda>x i. vaesdec (vaesimc (k i)) x) (enc_rows (aes_states k b n)) (rev [1..<Suc n]) = enc_rows (line_xor b (k 0))"
proof (induction n)
  case (Suc n)
  have "aes_states k b (Suc n) = vaesenc (k (Suc n)) (aes_states k b n)" by (simp add: aes_states_def)
  then show ?case using Suc.IH by (simp add: vaesdec_round)
qed (simp add: aes_states_def)

lemma aes_dec_enc: "aes_dec k (aes_enc k b) = b"
proof -
  have "aes_dec k (aes_enc k b) = vaesdeclast (k 0) (enc_rows (line_xor b (k 0)))"
    using dec_states [of k b 13] by (simp add: aes_dec_def aes_enc_def)
  also have "line_xor b (k 0) = line_xor (k 0) b" by (simp add: line_xor_def xor.commute)
  finally show ?thesis by (simp add: vaesdeclast_round)
qed

end
