(* ===== verification/Aes_Keys.thy ===== *)
theory Aes_Keys
  imports Aes
begin

unbundle bit_operations_syntax

text \<open>
  The key schedule of bispe_crypto_asm.S against the key expansion of the AES standard, and the
  cipher of the module on the keys it has generated.
\<close>

section \<open>The key expansion of the standard\<close>

text \<open>For a key of eight words; a word has its first byte lowest.\<close>

fun key_word :: "(nat \<Rightarrow> u32) \<Rightarrow> nat \<Rightarrow> u32" where
  "key_word k i =
     (if i < 8 then k i
      else key_word k (i - 8) XOR
        (if i mod 8 = 0 then sub_word (rot_word (key_word k (i - 1))) XOR push_bit (i div 8 - 1) 1
         else if i mod 8 = 4 then sub_word (key_word k (i - 1)) else key_word k (i - 1)))"

declare key_word.simps [simp del]

definition round_key :: "(nat \<Rightarrow> u32) \<Rightarrow> nat \<Rightarrow> line" where
  "round_key k n = Line (key_word k (4 * n)) (key_word k (4 * n + 1)) (key_word k (4 * n + 2)) (key_word k (4 * n + 3))"

text \<open>The key in the debug registers.\<close>

definition secret_key :: "cpu \<Rightarrow> nat \<Rightarrow> u32" where
  "secret_key s i = ucast (drop_bit (32 * (i mod 2)) (debug_reg s (i div 2)))"

lemma sub_rot_word: "sub_word (rot_word w) = rot_word (sub_word w)"
  by (simp add: sub_word_def rot_word_def)

section \<open>One run of the macro\<close>

definition next_key :: "u32 \<Rightarrow> line \<Rightarrow> line" where
  "next_key t d = (case d of Line a b c e \<Rightarrow>
     Line (a XOR t) (b XOR a XOR t) (c XOR b XOR a XOR t) (e XOR c XOR b XOR a XOR t))"

definition key_mask :: "u32 \<Rightarrow> line \<Rightarrow> u32" where
  "key_mask rcon c = (if rcon = 0 then sub_word (dword3 c) else rot_word (sub_word (dword3 c)) XOR rcon)"

lemma key_word_step:
  "key_word k (i + 8) = key_word k i XOR
     (if i mod 8 = 0 then sub_word (rot_word (key_word k (i + 7))) XOR push_bit (i div 8) 1
      else if i mod 8 = 4 then sub_word (key_word k (i + 7)) else key_word k (i + 7))"
proof -
  have "(i + 8) mod 8 = i mod 8" "(i + 8) div 8 - 1 = i div 8" "i + 8 - 8 = i" "i + 8 - 1 = i + 7" by simp_all
  then show ?thesis by (subst key_word.simps) (simp only: not_add_less2 if_False)
qed

lemma round_key_next:
  assumes n: "n < 64" and rcon: "rcon = (if even n then push_bit (n div 2) 1 else 0)"
  shows "round_key k (n + 2) = next_key (key_mask rcon (round_key k (n + 1))) (round_key k n)"
proof -
  let ?w = "key_word k"
  have m: "(4 * n) mod 8 = (if even n then 0 else 4)" "(4 * n) div 8 = n div 2"
    by (auto elim!: evenE oddE)
  have "n div 2 < 32" using n by simp
  then have nonzero: "push_bit (n div 2) (1 :: u32) \<noteq> 0" by simp
  have 0: "?w (4 * n + 8) = ?w (4 * n) XOR key_mask rcon (round_key k (n + 1))"
    unfolding key_word_step m rcon key_mask_def round_key_def using nonzero by (auto simp: sub_rot_word add.commute)
  have plain: "?w (4 * n + j + 8) = ?w (4 * n + j) XOR ?w (4 * n + j + 7)" if "j \<in> {1, 2, 3}" for j
  proof -
    have "(4 * n + j) mod 8 \<noteq> 0" "(4 * n + j) mod 8 \<noteq> 4" using that by (elim insertE emptyE; presburger)+
    then show ?thesis by (simp add: key_word_step)
  qed
  have rest: "?w (4 * n + 9) = ?w (4 * n + 1) XOR ?w (4 * n + 8)" "?w (4 * n + 10) = ?w (4 * n + 2) XOR ?w (4 * n + 9)"
      "?w (4 * n + 11) = ?w (4 * n + 3) XOR ?w (4 * n + 10)"
    using plain [of 1] plain [of 2] plain [of 3] by (simp_all add: add.commute add.left_commute)
  show ?thesis
    using 0 rest by (simp add: round_key_def next_key_def algebra_simps xor.assoc)
qed

lemma line_xor_swap: "line_xor a (line_xor b a) = b" "line_xor (line_xor a b) (line_xor b (line_xor a b)) = b"
  by (cases a; cases b; simp add: line_xor_def xor.left_commute xor.assoc xor.commute)+

lemma vpxor_simps [simp]:
  "xmm (vpxor b a d s) i = (if i = d then line_xor (xmm s a) (xmm s b) else xmm s i)"
  "d < 8 \<Longrightarrow> rkey n (vpxor b a d s) = rkey n s" "debug_reg (vpxor b a d s) = debug_reg s"
  by (simp_all add: vpxor_def)

lemma shuf_simps [simp]:
  "xmm (shuf imm b a d s) i = (if i = d then vshufps imm (xmm s b) (xmm s a) else xmm s i)"
  "d < 8 \<Longrightarrow> rkey n (shuf imm b a d s) = rkey n s" "debug_reg (shuf imm b a d s) = debug_reg s"
  by (simp_all add: shuf_def)

lemma save_rkey_simps:
  assumes "n \<le> 14"
  shows "rkey m (save_rkey src n s) = (if m = n then xmm s src else rkey m s)"
    "i < 8 \<Longrightarrow> xmm (save_rkey src n s) i = xmm s i" "debug_reg (save_rkey src n s) = debug_reg s"
  using assms by (auto simp: save_rkey_def rkey_def)

lemma key_schedule_simps:
  assumes "r2 \<le> 14"
  shows "xmm (key_schedule r0 r2 rcon s) rsrc = (if r0 > 0 then xmm s rdest else xmm s rsrc)"
    "xmm (key_schedule r0 r2 rcon s) rdest =
       next_key (key_mask rcon (if r0 > 0 then xmm s rdest else xmm s rsrc)) (if r0 > 0 then xmm s rsrc else xmm s rdest)"
    "rkey m (key_schedule r0 r2 rcon s) = (if m = r2 then xmm (key_schedule r0 r2 rcon s) rdest else rkey m s)"
    "debug_reg (key_schedule r0 r2 rcon s) = debug_reg s"
proof -
  obtain a b c e where d: "(if r0 > 0 then xmm s rsrc else xmm s rdest) = Line a b c e"
    by (cases "if r0 > 0 then xmm s rsrc else xmm s rdest")
  show "xmm (key_schedule r0 r2 rcon s) rsrc = (if r0 > 0 then xmm s rdest else xmm s rsrc)"
    using assms by (simp add: key_schedule_def Let_def save_rkey_simps line_xor_cancel_left line_xor_swap)
  show "xmm (key_schedule r0 r2 rcon s) rdest =
       next_key (key_mask rcon (if r0 > 0 then xmm s rdest else xmm s rsrc)) (if r0 > 0 then xmm s rsrc else xmm s rdest)"
    using assms d
    by (cases "r0 > 0"; cases "rcon = 0")
      (simp_all add: key_schedule_def Let_def save_rkey_simps line_xor_cancel_left line_xor_swap vshufps_def
         vaeskeygenassist_def next_key_def key_mask_def extr_by_ofs_def line_xor_def xor.assoc xor.left_commute xor.commute)
  show "rkey m (key_schedule r0 r2 rcon s) = (if m = r2 then xmm (key_schedule r0 r2 rcon s) rdest else rkey m s)"
    using assms by (simp add: key_schedule_def Let_def save_rkey_simps)
  show "debug_reg (key_schedule r0 r2 rcon s) = debug_reg s"
    using assms by (simp add: key_schedule_def Let_def save_rkey_simps)
qed


section \<open>The round keys\<close>

definition keys_ready :: "(nat \<Rightarrow> u32) \<Rightarrow> nat \<Rightarrow> cpu \<Rightarrow> bool" where
  "keys_ready k r s \<longleftrightarrow>
     (\<forall>m\<le>r. rkey m s = round_key k m) \<and> xmm s rdest = round_key k r \<and> xmm s rsrc = round_key k (r - 1)"

lemma key_schedule_round:
  assumes "keys_ready k (r2 - 1) s" "2 < r2" "r2 \<le> 14" "r0 = r2 - 2" "rcon = (if even r0 then push_bit (r0 div 2) 1 else 0)"
  shows "keys_ready k r2 (key_schedule r0 r2 rcon s)"
proof -
  obtain r where r: "r2 = r + 2" "r0 = r" "0 < r" using assms(2,4) that [of "r2 - 2"] by simp
  have next_key: "round_key k (r + 2) = next_key (key_mask rcon (round_key k (r + 1))) (round_key k r)"
    using assms r by (intro round_key_next) simp_all
  have "rkey m s = round_key k m" if "m \<le> r + 2" "m \<noteq> r + 2" for m
    using assms(1) r that by (simp add: keys_ready_def)
  then show ?thesis
    using assms(1,3) r next_key by (simp add: keys_ready_def key_schedule_simps)
qed

lemma secret_key_read:
  "xmm (read_key rdest rsrc s) rdest = round_key (secret_key s) 0" "xmm (read_key rdest rsrc s) rsrc = round_key (secret_key s) 1"
  "rkey m (read_key rdest rsrc s) = rkey m s" "debug_reg (read_key rdest rsrc s) = debug_reg s"
  by (simp_all add: read_key_def vmovq_def vshufps_def extr_by_ofs_def round_key_def secret_key_def key_word.simps)

lemma first_key_schedule:
  assumes "xmm s rdest = round_key k 0" "xmm s rsrc = round_key k 1" "rkey 0 s = round_key k 0" "rkey 1 s = round_key k 1"
  shows "keys_ready k 2 (key_schedule 0 2 1 s)"
proof -
  have "m = 0 \<or> m = 1" if "m \<le> 2" "m \<noteq> 2" for m :: nat using that by arith
  moreover have "round_key k 2 = next_key (key_mask 1 (round_key k 1)) (round_key k 0)"
    using round_key_next [of 0 1 k] by (simp add: numeral_2_eq_2)
  ultimately show ?thesis using assms by (auto simp: keys_ready_def key_schedule_simps)
qed

lemma generated_keys: "keys_ready (secret_key s) 14 (generate_rks s)" "debug_reg (generate_rks s) = debug_reg s"
proof -
  let ?s = "save_rkey rsrc 1 (save_rkey rdest 0 (read_key rdest rsrc s))"
  have "keys_ready (secret_key s) 2 (key_schedule 0 2 1 ?s)"
    by (rule first_key_schedule) (simp_all add: save_rkey_simps secret_key_read)
  then show "keys_ready (secret_key s) 14 (generate_rks s)" by (simp add: generate_rks_def key_schedule_round)
  have "debug_reg (foldl (\<lambda>s (r0, r2, rcon). key_schedule r0 r2 rcon s) s rs) = debug_reg s"
    if "\<forall>(r0, r2, rcon) \<in> set rs. r2 \<le> 14" for s rs
    using that by (induction rs arbitrary: s) (auto simp: key_schedule_simps(4))
  then show "debug_reg (generate_rks s) = debug_reg s"
    unfolding generate_rks_def by (simp add: save_rkey_simps secret_key_read del: foldl_Cons)
qed

end
