(* ===== verification/Aes_Module.thy ===== *)
theory Aes_Module
  imports Aes_Keys Kernel
begin

unbundle bit_operations_syntax

text \<open>
  The functions that backend/bispe_crypto_asm.S exports, on the registers that key generation has
  filled, and the two places of the module that run them: the atomic section of \<open>encrypt_code\<close>, and
  the cipher of the interpreter's cycles.
\<close>

section \<open>The other functions\<close>

definition bispe_encblk_mem_cbc_regs :: "cpu \<Rightarrow> line \<Rightarrow> line \<Rightarrow> line \<times> cpu" where
  "bispe_encblk_mem_cbc_regs s b iv =
     (let s = set_xmm rstate b s; s = set_xmm rstate (line_xor (xmm s rstate) iv) s; s = encrypt_block s
      in (xmm s rstate, s))"

definition bispe_decblk_mem_cbc_regs :: "cpu \<Rightarrow> line \<Rightarrow> line \<Rightarrow> line \<times> cpu" where
  "bispe_decblk_mem_cbc_regs s b iv =
     (let s = decrypt_block (set_xmm rstate b s); s = set_xmm rstate (line_xor (xmm s rstate) iv) s
      in (xmm s rstate, s))"

definition bispe_get_key :: "cpu \<Rightarrow> u64 list" where
  "bispe_get_key s = [debug_reg s 0, debug_reg s 1, debug_reg s 2, debug_reg s 3]"

text \<open>The argument is ecx after \<open>cpuid\<close>: bit 25 says AES, bit 28 AVX.\<close>

definition bispe_check_features :: "u32 \<Rightarrow> nat" where
  "bispe_check_features ecx = (if ecx AND 0x12000000 = 0 then 0 else 1)"

definition bispe_dump_regs :: "cpu \<Rightarrow> line list" where
  "bispe_dump_regs s = concat (map (\<lambda>i. [xmm s i, ymm_high s i]) [0..<16])"

text \<open>The key that is set is the key that is read, and it is all that the round keys depend on.\<close>

definition same_key :: "cpu \<Rightarrow> cpu \<Rightarrow> bool" where
  "same_key s t \<longleftrightarrow> bispe_get_key s = bispe_get_key t"

lemma get_set_key: "length k = 4 \<Longrightarrow> bispe_get_key (bispe_set_key k s) = k"
  by (auto simp: bispe_get_key_def bispe_set_key_def length_Suc_conv numeral_eq_Suc)

lemma cleared_registers: "bispe_dump_regs (bispe_clear_avx_regs s) = replicate 32 zero_line"
  by (simp add: bispe_dump_regs_def bispe_clear_avx_regs_def upt_16) (simp add: numeral_eq_Suc)

text \<open>A processor with AES and without AVX, or the other way round, passes the check.\<close>

lemma one_feature_passes: "bispe_check_features 0x02000000 = 1" "bispe_check_features 0x10000000 = 1"
  by code_simp+

section \<open>The cipher on generated keys\<close>

definition aes_cipher :: "cpu \<Rightarrow> line \<Rightarrow> line" where
  "aes_cipher s b = fst (bispe_encblk_mem (bispe_gen_rkeys s) b)"

definition aes_decipher :: "cpu \<Rightarrow> line \<Rightarrow> line" where
  "aes_decipher s b = fst (bispe_decblk_mem (bispe_gen_rkeys s) b)"

text \<open>Blocks use the first fifteen round keys.\<close>

definition keyed :: "(nat \<Rightarrow> u32) \<Rightarrow> cpu \<Rightarrow> bool" where
  "keyed k s \<longleftrightarrow> (\<forall>m\<le>14. rkey m s = round_key k m)"

lemma aes_states_cong: "\<forall>m\<le>n. k m = k' m \<Longrightarrow> aes_states k b n = aes_states k' b n"
proof (induction n)
  case (Suc n)
  then have "aes_states k b n = aes_states k' b n" by simp
  with Suc.prems show ?case by (simp add: aes_states_def)
qed (simp add: aes_states_def)

lemma keyed_aes:
  assumes "keyed k s"
  shows "aes_enc (\<lambda>n. rkey n s) b = aes_enc (round_key k) b" "aes_dec (\<lambda>n. rkey n s) b = aes_dec (round_key k) b"
proof -
  show "aes_enc (\<lambda>n. rkey n s) b = aes_enc (round_key k) b"
    using assms aes_states_cong [of 13 "\<lambda>n. rkey n s" "round_key k" b] by (simp add: aes_enc_def keyed_def)
  show "aes_dec (\<lambda>n. rkey n s) b = aes_dec (round_key k) b"
    using assms by (auto simp: aes_dec_def keyed_def intro!: foldl_cong arg_cong2 [where f = vaesdeclast])
qed

lemma keyed_generated: "keyed (secret_key s) (bispe_gen_rkeys s)"
  using generated_keys(1) [of s] by (simp add: keyed_def keys_ready_def bispe_gen_rkeys_def)

lemma encblk_mem_facts:
  "fst (bispe_encblk_mem s b) = aes_enc (\<lambda>n. rkey n s) b" "keyed k (snd (bispe_encblk_mem s b)) \<longleftrightarrow> keyed k s"
  by (simp_all add: bispe_encblk_mem_def Let_def encrypt_block_simps keyed_def)

lemma decblk_mem_facts:
  "fst (bispe_decblk_mem s b) = aes_dec (\<lambda>n. rkey n s) b" "keyed k (snd (bispe_decblk_mem s b)) \<longleftrightarrow> keyed k s"
  by (simp_all add: bispe_decblk_mem_def Let_def decrypt_block_simps keyed_def)

lemma encblk_cbc_facts:
  "fst (bispe_encblk_mem_cbc_regs s b iv) = aes_enc (\<lambda>n. rkey n s) (line_xor b iv)"
  "keyed k (snd (bispe_encblk_mem_cbc_regs s b iv)) \<longleftrightarrow> keyed k s"
  "debug_reg (snd (bispe_encblk_mem_cbc_regs s b iv)) = debug_reg s"
  by (simp_all add: bispe_encblk_mem_cbc_regs_def Let_def encrypt_block_simps keyed_def)

lemma aes_cipher_eq: "aes_cipher s b = aes_enc (round_key (secret_key s)) b" "aes_decipher s b = aes_dec (round_key (secret_key s)) b"
  by (simp_all add: aes_cipher_def aes_decipher_def encblk_mem_facts decblk_mem_facts keyed_aes [OF keyed_generated])

lemma key_word_cong: "\<forall>i<8. k i = k' i \<Longrightarrow> key_word k i = key_word k' i"
proof (induction i rule: less_induct)
  case (less i)
  then show ?case by (cases "i < 8") (simp_all add: key_word.simps [of _ i])
qed

lemma same_key_rounds:
  assumes "same_key s t"
  shows "round_key (secret_key s) = round_key (secret_key t)"
proof -
  have "debug_reg s i = debug_reg t i" if "i < 4" for i
    using assms that by (auto simp: same_key_def bispe_get_key_def numeral_eq_Suc less_Suc_eq)
  then have "\<forall>i<8. secret_key s i = secret_key t i" by (simp add: secret_key_def)
  from key_word_cong [OF this] show ?thesis by (simp add: round_key_def fun_eq_iff)
qed

lemma aes_decipher_cipher: "same_key s t \<Longrightarrow> aes_decipher t (aes_cipher s b) = b"
  by (simp add: aes_cipher_eq same_key_rounds aes_dec_enc)

section \<open>The atomic section of encrypt_code\<close>

text \<open>The registers go from block to block; the round keys are generated once and cleared at the end.\<close>

definition encrypt_one :: "line list \<times> cpu \<Rightarrow> nat \<Rightarrow> line list \<times> cpu" where
  "encrypt_one bs i =
     (let (code_buf, s) = bs; (tmp, s) = bispe_encblk_mem_cbc_regs s (code_buf ! i) (code_buf ! (i - 1))
      in (code_buf[i := tmp], s))"

definition encrypt_section :: "cpu \<Rightarrow> line list \<Rightarrow> line list \<times> cpu" where
  "encrypt_section s code_buf =
     (let (code_buf, s) = foldl encrypt_one (code_buf, bispe_gen_rkeys s) [1..<length code_buf]
      in (code_buf, bispe_clear_avx_regs s))"

lemma encrypt_one_keyed:
  assumes "keyed k s"
  shows "\<exists>s'. encrypt_one (buf, s) i = (buf[i := bispe_encblk_mem_cbc (aes_enc (round_key k)) (buf ! i) (buf ! (i - 1))], s') \<and>
    keyed k s' \<and> debug_reg s' = debug_reg s"
  using assms
  by (simp add: encrypt_one_def split_beta encblk_cbc_facts keyed_aes [OF assms] bispe_encblk_mem_cbc_def)

lemma cbc_blocks:
  assumes "keyed k s"
  shows "\<exists>s'. foldl encrypt_one (buf, s) is =
      (foldl (\<lambda>b i. b[i := bispe_encblk_mem_cbc (aes_enc (round_key k)) (b ! i) (b ! (i - 1))]) buf is, s') \<and>
    keyed k s' \<and> debug_reg s' = debug_reg s"
  using assms
proof (induction "is" arbitrary: buf s)
  case (Cons i "is")
  obtain s' where "encrypt_one (buf, s) i = (buf[i := bispe_encblk_mem_cbc (aes_enc (round_key k)) (buf ! i) (buf ! (i - 1))], s')"
      "keyed k s'" "debug_reg s' = debug_reg s"
    using encrypt_one_keyed [OF Cons.prems] by blast
  then show ?case using Cons.IH [of s'] by simp
qed simp

lemma generated_debug_reg: "debug_reg (bispe_gen_rkeys s) = debug_reg s"
  using generated_keys(2) by (simp add: bispe_gen_rkeys_def)

lemma encrypt_section_blocks: "encrypt_section s buf = (encrypt_blocks (aes_cipher s) buf, bispe_clear_avx_regs s)"
proof -
  have cipher: "aes_cipher s = aes_enc (round_key (secret_key s))" by (simp add: fun_eq_iff aes_cipher_eq)
  obtain s' where s': "foldl encrypt_one (buf, bispe_gen_rkeys s) [1..<length buf] = (encrypt_blocks (aes_cipher s) buf, s')"
      "debug_reg s' = debug_reg s"
    using cbc_blocks [OF keyed_generated, of buf s "[1..<length buf]"]
    unfolding generated_debug_reg encrypt_blocks_def cipher by blast
  have "bispe_clear_avx_regs s' = bispe_clear_avx_regs s"
    using s'(2) by (cases s; cases s') (simp add: bispe_clear_avx_regs_def)
  then show ?thesis using s'(1) by (simp only: encrypt_section_def Let_def prod.case)
qed

section \<open>The properties\<close>

lemma decblk_cbc_facts:
  "fst (bispe_decblk_mem_cbc_regs s c iv) = line_xor (aes_dec (\<lambda>n. rkey n s) c) iv"
  by (simp add: bispe_decblk_mem_cbc_regs_def Let_def decrypt_block_simps)

text \<open>C22 Key generation and blocks are AES-256: after it has run, the fifteen round keys in the
  registers are those of the standard's key expansion of the key in the debug registers, and a block
  goes through the rounds of the standard with them, there and back; the key stays where it is.\<close>

theorem aes_registers:
  "map (\<lambda>n. rkey n (bispe_gen_rkeys s)) [0..<15] = map (round_key (secret_key s)) [0..<15] \<and>
   fst (bispe_encblk_mem (bispe_gen_rkeys s) b) = aes_enc (round_key (secret_key s)) b \<and>
   fst (bispe_decblk_mem (bispe_gen_rkeys s) b) = aes_dec (round_key (secret_key s)) b \<and>
   bispe_get_key (bispe_gen_rkeys s) = bispe_get_key s"
proof -
  have "map (\<lambda>n. rkey n (bispe_gen_rkeys s)) [0..<15] = map (round_key (secret_key s)) [0..<15]"
    using keyed_generated [of s] by (simp add: keyed_def del: upt_Suc)
  then show ?thesis
    by (simp add: encblk_mem_facts decblk_mem_facts keyed_aes [OF keyed_generated] bispe_get_key_def generated_debug_reg
      del: upt_Suc)
qed

text \<open>C23 What one processor has encrypted, any processor with the same key decrypts, whatever its other
  registers hold: single blocks, and blocks chained to the one before.\<close>

theorem aes_roundtrip:
  assumes "same_key s t"
  shows "fst (bispe_decblk_mem (bispe_gen_rkeys t) (fst (bispe_encblk_mem (bispe_gen_rkeys s) b))) = b \<and>
    fst (bispe_decblk_mem_cbc_regs (bispe_gen_rkeys t) (fst (bispe_encblk_mem_cbc_regs (bispe_gen_rkeys s) b iv)) iv) = b"
  using aes_decipher_cipher [OF assms]
  by (simp add: aes_cipher_def aes_decipher_def encblk_mem_facts decblk_mem_facts encblk_cbc_facts decblk_cbc_facts)

theorem aes_roundtrip_witness:
  "\<exists>s t. s \<noteq> t \<and> bispe_get_key t = [1, 2, 3, 4] \<and> aes_decipher t (aes_cipher s (Line 5 6 7 8)) = Line 5 6 7 8"
proof -
  define s where "s = bispe_set_key [1, 2, 3, 4] \<lparr>xmm = (\<lambda>_. Line 1 2 3 4), ymm_high = (\<lambda>_. zero_line), debug_reg = (\<lambda>_. 0)\<rparr>"
  define t where "t = bispe_clear_avx_regs s"
  have key: "bispe_get_key s = [1, 2, 3, 4]" "bispe_get_key t = bispe_get_key s"
    by (simp_all add: s_def t_def get_set_key) (simp add: bispe_get_key_def bispe_set_key_def bispe_clear_avx_regs_def)
  have "xmm s 0 \<noteq> xmm t 0" by (simp add: s_def t_def bispe_set_key_def bispe_clear_avx_regs_def zero_line_def)
  then have "s \<noteq> t" by auto
  moreover have "same_key s t" by (simp add: same_key_def key)
  from aes_roundtrip [OF this, of "Line 5 6 7 8"] have "aes_decipher t (aes_cipher s (Line 5 6 7 8)) = Line 5 6 7 8"
    by (simp add: aes_cipher_def aes_decipher_def)
  ultimately show ?thesis using key by auto
qed

text \<open>C25 The atomic section of \<open>encrypt_code\<close> does what the model of \<open>encrypt_code\<close> says, with the
  cipher of the key in the debug registers, though the registers of one block are what the next block
  starts from; and it leaves nothing in the registers: all of them are zero, and the key is still set.\<close>

theorem encrypt_section_clean:
  "fst (encrypt_section s buf) = encrypt_blocks (aes_cipher s) buf \<and>
   bispe_dump_regs (snd (encrypt_section s buf)) = replicate 32 zero_line \<and>
   bispe_get_key (snd (encrypt_section s buf)) = bispe_get_key s"
  by (simp add: encrypt_section_blocks cleared_registers) (simp add: bispe_get_key_def bispe_clear_avx_regs_def)

end
