(* ===== verification/Aes_Example.thy ===== *)
theory Aes_Example
  imports Aes_Module
begin

text \<open>
  Appendix C.3 of FIPS 197 on the model of bispe_crypto_asm.S: the round keys and the states of the
  standard's example, one after the other.
\<close>

section \<open>The round keys as a list\<close>

text \<open>A step takes the round constant and the last two keys.\<close>

primrec expand :: "u32 list \<Rightarrow> line \<Rightarrow> line \<Rightarrow> line list" where
  "expand [] a b = [a, b]"
| "expand (r # rs) a b = a # expand rs b (next_key (key_mask r b) a)"

definition key_schedule_rcons :: "u32 list" where
  "key_schedule_rcons = [1, 0, 2, 0, 4, 0, 8, 0, 0x10, 0, 0x20, 0, 0x40]"

lemma expand_round_keys:
  "expand rs (round_key k n) (round_key k (n + 1)) = map (round_key k) [n..<n + length rs + 2]"
  if "n + length rs \<le> 64" "\<forall>i<length rs. rs ! i = (if even (n + i) then push_bit ((n + i) div 2) 1 else 0)"
  using that
proof (induction rs arbitrary: n)
  case (Cons r rs)
  from Cons.prems(2) have r: "r = (if even n then push_bit (n div 2) 1 else 0)" by (force dest: spec [of _ 0])
  have "\<forall>i<length rs. rs ! i = (if even (Suc n + i) then push_bit ((Suc n + i) div 2) 1 else 0)"
    using Cons.prems(2) by (metis add_Suc_shift length_Cons Suc_less_eq nth_Cons_Suc)
  moreover have "[n..<n + length (r # rs) + 2] = n # [Suc n..<Suc n + length rs + 2]" by (subst upt_conv_Cons) simp_all
  ultimately show ?case
    using Cons.IH [of "Suc n"] Cons.prems(1) round_key_next [OF _ r, of k] by (simp del: upt_Suc)
qed (simp add: upt_conv_Cons)

definition example_keys :: "line list" where
  "example_keys =
    [Line 0x03020100 0x07060504 0x0b0a0908 0x0f0e0d0c,
     Line 0x13121110 0x17161514 0x1b1a1918 0x1f1e1d1c,
     Line 0x9fc273a5 0x98c476a1 0x93ce7fa9 0x9cc072a5,
     Line 0xcda85116 0xdabe4402 0xc1a45d1a 0xdeba4006,
     Line 0xf0df87ae 0x681bf10f 0xfbd58ea6 0x6715fc03,
     Line 0x48f1e16d 0x924fa56f 0x53ebf875 0x8d51b873,
     Line 0x7f8256c6 0x1799a7c9 0xec4c296f 0x8b59d56c,
     Line 0x753ae23d 0xe7754752 0xb49ebf27 0x39cf0754,
     Line 0x5f90dc0b 0x48097bc2 0xa44552ad 0x2f1c87c1,
     Line 0x60a6f545 0x87d3b217 0x334d0d30 0x0a820a64,
     Line 0x1cf7cf7c 0x54feb4be 0xf0bbe613 0xdfa761d2,
     Line 0xfefa1af0 0x7929a8e7 0x4a64a5d7 0x40e6afb3,
     Line 0x71fe4125 0x2500f59b 0xd5bb1388 0x0a1c725a,
     Line 0x99665a4e 0xe04ff2a9 0xaa2b577e 0xeacdf8cd,
     Line 0xcc79fc24 0xe97909bf 0x3cc21a37 0x36de686d]"

section \<open>The example\<close>

lemma example_key_steps:
  "next_key (key_mask 0x1 (Line 0x13121110 0x17161514 0x1b1a1918 0x1f1e1d1c))
     (Line 0x03020100 0x07060504 0x0b0a0908 0x0f0e0d0c) = Line 0x9fc273a5 0x98c476a1 0x93ce7fa9 0x9cc072a5"
  "next_key (key_mask 0 (Line 0x9fc273a5 0x98c476a1 0x93ce7fa9 0x9cc072a5))
     (Line 0x13121110 0x17161514 0x1b1a1918 0x1f1e1d1c) = Line 0xcda85116 0xdabe4402 0xc1a45d1a 0xdeba4006"
  "next_key (key_mask 0x2 (Line 0xcda85116 0xdabe4402 0xc1a45d1a 0xdeba4006))
     (Line 0x9fc273a5 0x98c476a1 0x93ce7fa9 0x9cc072a5) = Line 0xf0df87ae 0x681bf10f 0xfbd58ea6 0x6715fc03"
  "next_key (key_mask 0 (Line 0xf0df87ae 0x681bf10f 0xfbd58ea6 0x6715fc03))
     (Line 0xcda85116 0xdabe4402 0xc1a45d1a 0xdeba4006) = Line 0x48f1e16d 0x924fa56f 0x53ebf875 0x8d51b873"
  "next_key (key_mask 0x4 (Line 0x48f1e16d 0x924fa56f 0x53ebf875 0x8d51b873))
     (Line 0xf0df87ae 0x681bf10f 0xfbd58ea6 0x6715fc03) = Line 0x7f8256c6 0x1799a7c9 0xec4c296f 0x8b59d56c"
  "next_key (key_mask 0 (Line 0x7f8256c6 0x1799a7c9 0xec4c296f 0x8b59d56c))
     (Line 0x48f1e16d 0x924fa56f 0x53ebf875 0x8d51b873) = Line 0x753ae23d 0xe7754752 0xb49ebf27 0x39cf0754"
  "next_key (key_mask 0x8 (Line 0x753ae23d 0xe7754752 0xb49ebf27 0x39cf0754))
     (Line 0x7f8256c6 0x1799a7c9 0xec4c296f 0x8b59d56c) = Line 0x5f90dc0b 0x48097bc2 0xa44552ad 0x2f1c87c1"
  "next_key (key_mask 0 (Line 0x5f90dc0b 0x48097bc2 0xa44552ad 0x2f1c87c1))
     (Line 0x753ae23d 0xe7754752 0xb49ebf27 0x39cf0754) = Line 0x60a6f545 0x87d3b217 0x334d0d30 0x0a820a64"
  "next_key (key_mask 0x10 (Line 0x60a6f545 0x87d3b217 0x334d0d30 0x0a820a64))
     (Line 0x5f90dc0b 0x48097bc2 0xa44552ad 0x2f1c87c1) = Line 0x1cf7cf7c 0x54feb4be 0xf0bbe613 0xdfa761d2"
  "next_key (key_mask 0 (Line 0x1cf7cf7c 0x54feb4be 0xf0bbe613 0xdfa761d2))
     (Line 0x60a6f545 0x87d3b217 0x334d0d30 0x0a820a64) = Line 0xfefa1af0 0x7929a8e7 0x4a64a5d7 0x40e6afb3"
  "next_key (key_mask 0x20 (Line 0xfefa1af0 0x7929a8e7 0x4a64a5d7 0x40e6afb3))
     (Line 0x1cf7cf7c 0x54feb4be 0xf0bbe613 0xdfa761d2) = Line 0x71fe4125 0x2500f59b 0xd5bb1388 0x0a1c725a"
  "next_key (key_mask 0 (Line 0x71fe4125 0x2500f59b 0xd5bb1388 0x0a1c725a))
     (Line 0xfefa1af0 0x7929a8e7 0x4a64a5d7 0x40e6afb3) = Line 0x99665a4e 0xe04ff2a9 0xaa2b577e 0xeacdf8cd"
  "next_key (key_mask 0x40 (Line 0x99665a4e 0xe04ff2a9 0xaa2b577e 0xeacdf8cd))
     (Line 0x71fe4125 0x2500f59b 0xd5bb1388 0x0a1c725a) = Line 0xcc79fc24 0xe97909bf 0x3cc21a37 0x36de686d"
  by code_simp+

text \<open>Tables and column mixing on numerals.\<close>

lemmas numeral_rounds =
  map_line_simps(1) line_xor_def byte_def dword_def table_lookup_def sbox_rows_def
  mix_column_def [of "numeral w" for w] sub_word_def [of "numeral w" for w]
  sbox_def [of "numeral w" for w] sbox_def [of 0] sbox_def [of 1]
  mul_defs [of "numeral w" for w] mul_defs [of 0] mul_defs [of 1]
  xtime_def [of "numeral w" for w] xtime_def [of 0] xtime_def [of 1]

lemma example_rounds_1:
  "vaesenc (Line 0x13121110 0x17161514 0x1b1a1918 0x1f1e1d1c)
     (Line 0x30201000 0x70605040 0xb0a09080 0xf0e0d0c0) = Line 0x0676634f 0x85aae043 0x3221a7ef 0x05e7a401"
  "vaesenc (Line 0x9fc273a5 0x98c476a1 0x93ce7fa9 0x9cc072a5)
     (Line 0x0676634f 0x85aae043 0x3221a7ef 0x05e7a401) = Line 0xc2fb5918 0xa0001c8a 0xad8aed78 0x09612fc4"
  "vaesenc (Line 0xcda85116 0xdabe4402 0xc1a45d1a 0xdeba4006)
     (Line 0xc2fb5918 0xa0001c8a 0xad8aed78 0x09612fc4) = Line 0xc1665c97 0xa83f9fcb 0xdf283aa9 0x630fe18e"
  "vaesenc (Line 0xf0df87ae 0x681bf10f 0xfbd58ea6 0x6715fc03)
     (Line 0xc1665c97 0xa83f9fcb 0xdf283aa9 0x630fe18e) = Line 0x71f2051c 0x4fe017a4 0xc1c521f9 0x54157004"
  unfolding vaesenc_def shift_rows_def line.case by (simp_all add: numeral_rounds)

lemma example_rounds_2:
  "vaesenc (Line 0x48f1e16d 0x924fa56f 0x53ebf875 0x8d51b873)
     (Line 0x71f2051c 0x4fe017a4 0xc1c521f9 0x54157004) = Line 0xe1aa57c3 0xb0b7451b 0x28bdc7a2 0xfa99dca8"
  "vaesenc (Line 0x7f8256c6 0x1799a7c9 0xec4c296f 0x8b59d56c)
     (Line 0xe1aa57c3 0xb0b7451b 0x28bdc7a2 0xfa99dca8) = Line 0x4341077f 0x3e244ecb 0x5d810cc1 0x4cd57583"
  "vaesenc (Line 0x753ae23d 0xe7754752 0xb49ebf27 0x39cf0754)
     (Line 0x4341077f 0x3e244ecb 0x5d810cc1 0x4cd57583) = Line 0x69a453d6 0x0fbca06c 0x5dabca5a 0x7d5e6cb9"
  unfolding vaesenc_def shift_rows_def line.case by (simp_all add: numeral_rounds)

lemma example_rounds_3:
  "vaesenc (Line 0x5f90dc0b 0x48097bc2 0xa44552ad 0x2f1c87c1)
     (Line 0x69a453d6 0x0fbca06c 0x5dabca5a 0x7d5e6cb9) = Line 0x3958a85a 0x7d8dd25f 0x88a3e105 0xc5b9f368"
  "vaesenc (Line 0x60a6f545 0x87d3b217 0x334d0d30 0x0a820a64)
     (Line 0x3958a85a 0x7d8dd25f 0x88a3e105 0xc5b9f368) = Line 0x5148824a 0x477e7ec5 0x0ce53d64 0xc9e8f32a"
  "vaesenc (Line 0x1cf7cf7c 0x54feb4be 0xf0bbe613 0xdfa761d2)
     (Line 0x5148824a 0x477e7ec5 0x0ce53d64 0xc9e8f32a) = Line 0xf60749c1 0xa03a3bca 0x31aae970 0xecb5523b"
  unfolding vaesenc_def shift_rows_def line.case by (simp_all add: numeral_rounds)

lemma example_rounds_4:
  "vaesenc (Line 0xfefa1af0 0x7929a8e7 0x4a64a5d7 0x40e6afb3)
     (Line 0xf60749c1 0xa03a3bca 0x31aae970 0xecb5523b) = Line 0xbf6a9c5f 0xaa34c6ba 0xa79f4050 0x53766766"
  "vaesenc (Line 0x71fe4125 0x2500f59b 0xd5bb1388 0x0a1c725a)
     (Line 0xbf6a9c5f 0xaa34c6ba 0xa79f4050 0x53766766) = Line 0x95046651 0x03955343 0xe486fb14 0x21259201"
  "vaesenc (Line 0x99665a4e 0xe04ff2a9 0xaa2b577e 0xeacdf8cd)
     (Line 0x95046651 0x03955343 0xe486fb14 0x21259201) = Line 0xb9ce7b62 0xaa5a9d99 0xf4ec45c9 0xa56df523"
  unfolding vaesenc_def shift_rows_def line.case by (simp_all add: numeral_rounds)

definition example_key :: "u64 list" where
  "example_key = [0x0706050403020100, 0x0f0e0d0c0b0a0908, 0x1716151413121110, 0x1f1e1d1c1b1a1918]"

lemma example_schedule:
  assumes "k = secret_key (bispe_set_key example_key s)"
  shows "map (round_key k) [0..<15] = example_keys"
proof -
  have first: "round_key k 0 = example_keys ! 0" "round_key k (0 + 1) = example_keys ! 1"
    by (simp_all add: assms round_key_def key_word.simps secret_key_def bispe_set_key_def example_key_def example_keys_def)
  have rcons: "\<forall>i<length key_schedule_rcons. key_schedule_rcons ! i = (if even (0 + i) then push_bit ((0 + i) div 2) 1 else 0)"
  proof -
    have "list_all (\<lambda>i. key_schedule_rcons ! i = (if even i then push_bit (i div 2) 1 else 0)) [0..<length key_schedule_rcons]"
      by code_simp
    then show ?thesis by (simp add: list_all_iff)
  qed
  have "length key_schedule_rcons = 13" by (simp add: key_schedule_rcons_def)
  then have "map (round_key k) [0..<15] = expand key_schedule_rcons (example_keys ! 0) (example_keys ! 1)"
    using expand_round_keys [OF _ rcons, of k] unfolding first by simp
  also have "\<dots> = example_keys"
    by (simp add: key_schedule_rcons_def example_keys_def example_key_steps)
  finally show ?thesis .
qed

lemma fips_197_example:
  "aes_cipher (bispe_set_key example_key s) (Line 0x33221100 0x77665544 0xbbaa9988 0xffeeddcc) =
     Line 0xcab7a28e 0xbf456751 0x9049fcea 0x8960494b"
proof -
  define k where "k = secret_key (bispe_set_key example_key s)"
  have keys: "round_key k n = example_keys ! n" if "n < 15" for n
    using that example_schedule [OF k_def] by (metis add.left_neutral diff_zero length_map length_upt nth_map nth_upt)
  have "aes_states (round_key k) (Line 0x33221100 0x77665544 0xbbaa9988 0xffeeddcc) 13 =
      aes_states (\<lambda>n. example_keys ! n) (Line 0x33221100 0x77665544 0xbbaa9988 0xffeeddcc) 13"
    by (rule aes_states_cong) (simp add: keys)
  also have "\<dots> = Line 0xb9ce7b62 0xaa5a9d99 0xf4ec45c9 0xa56df523"
    by (simp add: aes_states_def rounds_13 example_keys_def line_xor_def
      example_rounds_1 example_rounds_2 example_rounds_3 example_rounds_4)
  finally have "aes_enc (round_key k) (Line 0x33221100 0x77665544 0xbbaa9988 0xffeeddcc) =
      line_xor (enc_rows (Line 0xb9ce7b62 0xaa5a9d99 0xf4ec45c9 0xa56df523)) (example_keys ! 14)"
    by (simp add: aes_enc_def keys)
  also have "\<dots> = Line 0xcab7a28e 0xbf456751 0x9049fcea 0x8960494b" by code_simp
  finally show ?thesis by (simp add: aes_cipher_eq k_def)
qed

end
