(* ===== verification/Fact_Run.thy ===== *)
theory Fact_Run
  imports Fact_Program Aes_Example
begin

text \<open>
  The factorial program compiled with the cipher of the module, and the machine that holds the file.
\<close>

section \<open>The file\<close>

text \<open>What the compiler writes depends on the crypto device only in its answer.\<close>

lemma compiled_with_device:
  assumes "compile_source junk rnd (\<lambda>ws. Some (1, ws)) s infile src = Ret (Written out buf)" "\<not> co_unencrypted s"
    and "buf \<noteq> []" "4 dvd length buf"
  shows "compile_source junk rnd (crypto_device enc) s infile src = Ret (Written out (words_of (encrypt_blocks enc (lines_of buf))))"
proof -
  have device: "crypto_device enc buf = Some (4 * length buf, words_of (encrypt_blocks enc (lines_of buf)))"
    using assms(3,4) by (auto simp: crypto_device_def encrypt_code_def sizeof_buf_info_def Let_def dvd_eq_mod_eq_0)
  show ?thesis
  proof (cases "tokenize_string src")
    case (Inl e)
    then show ?thesis using assms(1) by (simp add: compile_source_def)
  next
    case (Inr ts)
    with assms(1) obtain ast st c where c: "parse_tokenlist ts = Ret (ast, st)" "ast \<noteq> NULL_NODE"
        "generate_code ast (as_symbols st) junk = Ret c"
      by (auto simp: compile_source_def outcome_simps split: if_splits)
    then obtain code where code: "c = Some code"
      using assms(1) Inr by (cases c) (auto simp: compile_source_def)
    show ?thesis
      using assms(1,2) device Inr c code by (auto simp: compile_source_def Let_def assms(3) split: if_splits option.splits)
  qed
qed

definition fact_buf :: "u32 list" where
  "fact_buf =
     [7, 7, 7, 7, 20, 1, 22, 0, 18, 35, 1, 20, 1, 4, 2, 2, 2, 17, 20, 2, 1, 21, 1, 19, 4, 2, 4, 2, 2, 1, 7, 5, 0, 18, 7, 8, 21, 1,
      19, 20, 1, 4, 2, 5, 0, 18, 7, 3, 21, 1, 19, 1]"

lemma fact_buf_written:
  "compile_source 0 (\<lambda>i. 7) (\<lambda>ws. Some (1, ws)) initial_compiler_settings ''fact.sc'' fact_source =
     Ret (Written ''fact.scle'' fact_buf)"
  by code_simp

definition fact_words :: "block_fun \<Rightarrow> u32 list" where
  "fact_words enc = words_of (encrypt_blocks enc (lines_of fact_buf))"

lemma fact_compiled:
  "compile_source 0 (\<lambda>i. 7) (crypto_device enc) initial_compiler_settings ''fact.sc'' fact_source =
     Ret (Written ''fact.scle'' (fact_words enc))"
proof -
  have "length fact_buf = 52" "fact_buf \<noteq> []" by code_simp+
  then show ?thesis
    unfolding fact_words_def
    by (intro compiled_with_device [OF fact_buf_written]) (simp_all add: initial_compiler_settings_def)
qed

lemma length_fact_words: "length (fact_words enc) = 52" "length (lines_of (fact_words enc)) = 13"
proof -
  have buf: "lines_of fact_buf \<noteq> []" "length (lines_of fact_buf) = 13" by code_simp+
  show "length (fact_words enc) = 52" "length (lines_of (fact_words enc)) = 13"
    by (simp_all add: fact_words_def encrypt_blocks_facts(1) [OF buf(1)] buf(2))
qed

section \<open>The machine\<close>

text \<open>A processor with the key of the standard's example, and the same processor with cleared registers.\<close>

definition fact_cpu :: cpu where
  "fact_cpu = bispe_set_key example_key \<lparr>xmm = (\<lambda>_. Line 1 2 3 4), ymm_high = (\<lambda>_. Line 5 6 7 8), debug_reg = (\<lambda>_. 0)\<rparr>"

definition fact_cpu_later :: cpu where
  "fact_cpu_later = bispe_clear_avx_regs fact_cpu"

lemma fact_cpu_key: "same_key fact_cpu fact_cpu_later"
  by (simp add: same_key_def fact_cpu_later_def bispe_clear_avx_regs_def bispe_get_key_def)

definition fact_env :: asm_env where
  "fact_env =
     \<lparr>encblk = aes_cipher fact_cpu_later, decblk = aes_decipher fact_cpu_later, code_seg_size = 192, stack_seg_size = 256,
      call_seg_size = 64, print_seg_size = 8, argv = [5], instr_per_cycle = 10\<rparr>"

definition fact_machine :: machine where
  "fact_machine = sample_machine\<lparr>code_seg := lines_of (fact_words (aes_cipher fact_cpu)),
     stack_seg := replicate 17 (Line 0 0 0 0), call_seg := replicate 5 (Line 0 0 0 0)\<rparr>"

lemma fact_holds: "holds_file (aes_decipher fact_cpu_later) (fact_words (aes_cipher fact_cpu)) fact_env fact_machine"
proof -
  have "same_key fact_cpu_later fact_cpu_later" by (simp add: same_key_def)
  then show ?thesis
    by (simp add: holds_file_def loaded_def fact_env_def fact_machine_def sample_machine_def length_fact_words aes_decipher_cipher)
qed

end
