(* ===== verification/Whole_Program.thy ===== *)
theory Whole_Program
  imports Fact_Run
begin

text \<open>
  The properties of the whole path: what the parser accepts, that it can be translated, and that
  what the compiler writes does on the interpreter what the program means.
\<close>

section \<open>Sensible programs\<close>

text \<open>C1 The program that is run is the program that was written: the source text is lexed, parsed,
  translated, encrypted by the module with the AES key in the debug registers, and written by the
  compiler; when the interpreter is started on that file, on a processor with the same key, every cycle
  of it decrypts, executes and encrypts again, and after enough of them it returns 0 with exactly the
  output that the program of the source text has, or the code of a division by zero with the output
  before it, as the source program does, or it reports that a stack was too small.\<close>

theorem compiled_program:
  assumes "same_key c c'" "\<not> co_unencrypted s"
    and "compile_source junk rnd (crypto_device (aes_cipher c)) s infile src = Ret (Written out ws)"
    and "tokenize_string src = Inr ts" "program_text ds ts" "sensible_program ds"
    and "parse_tokenlist ts = Ret (ast, st)" "small_frames (as_symbols st) ds" "length ws < 2 ^ 32"
    and "holds_file (aes_decipher c') ws e m" "main_arity ds \<le> length (argv e)"
    and "defined_result (run_source ds n (argv e))"
  shows "\<exists>fuel0. \<forall>fuel > fuel0. machine_result (print_seg m, 0) (run_source ds n (argv e)) (start_interpreter e False stop fuel m)"
  using compiled_program_runs [OF aes_decipher_cipher [OF assms(1)] assms(2-12)] .

text \<open>The factorial of 5, on a machine whose stacks are as small as a few blocks.\<close>

theorem compiled_program_witness:
  "\<exists>fuel0. \<forall>fuel > fuel0. machine_result ([0, 0], 0) (Ok (None, [120])) (start_interpreter fact_env False (\<lambda>_. False) fuel fact_machine)"
proof -
  obtain ast st where parse: "parse_tokenlist fact_tokens = Ret (ast, st)" "small_frames (as_symbols st) fact_decls"
    using fact_small by blast
  have "\<not> co_unencrypted initial_compiler_settings" by (simp add: initial_compiler_settings_def)
  moreover have "length (fact_words (aes_cipher fact_cpu)) < 2 ^ 32" by (simp add: length_fact_words)
  moreover have "main_arity fact_decls \<le> length (argv fact_env)"
  proof -
    have "main_arity fact_decls = 1" by code_simp
    then show ?thesis by (simp add: fact_env_def)
  qed
  moreover have run: "run_source fact_decls 6 (argv fact_env) = Ok (None, [120])" using fact_run by (simp add: fact_env_def)
  moreover have "print_seg fact_machine = [0, 0]" by (simp add: fact_machine_def sample_machine_def)
  ultimately show ?thesis
    using compiled_program [OF fact_cpu_key _ fact_compiled fact_lexed fact_text fact_sensible parse _ fact_holds, of 6 "\<lambda>_. False"]
    by (simp add: defined_result_def)
qed

text \<open>C6 What the parser accepts: there is exactly one program whose text the tokens are; the tree is
  the tree of that program, with every name resolved to a variable of its function; and each
  declaration in turn has left its entry in the table: a prototype or a definition of a name without a
  definition, whose body uses only its own variables and calls only functions of the table that have
  as many arguments, and, inside expressions, a value.\<close>

theorem parse_shape:
  assumes "tokenize_string src = Inr ts" "parse_tokenlist ts = Ret (n, a)" "n \<noteq> NULL_NODE"
  shows "\<exists>!ds. program_text ds ts \<and> n = head_node ds \<and> decl_steps initial_symbols ds (as_symbols a)"
  using parse_named [OF assms] program_text_one by metis

theorem parse_shape_witness:
  "\<exists>a ds. parse_tokenlist fact_tokens = Ret (head_node ds, a) \<and> decl_steps initial_symbols ds (as_symbols a)"
proof -
  have "case parse_tokenlist fact_tokens of Ret (n, a) \<Rightarrow> n \<noteq> NULL_NODE | _ \<Rightarrow> False" by code_simp
  then obtain n a where "parse_tokenlist fact_tokens = Ret (n, a)" "n \<noteq> NULL_NODE"
    by (auto split: outcome.splits)
  with parse_shape [OF fact_lexed this] show ?thesis by blast
qed

text \<open>C7 The generator does not fail on a sensible program: it follows no null pointer, finds \<open>main\<close>,
  and returns code, whatever it reads from addresses that are not set yet.\<close>

theorem generator_accepts:
  assumes "tokenize_string src = Inr ts" "program_text ds ts" "sensible_program ds"
    and "parse_tokenlist ts = Ret (n, a)" "n \<noteq> NULL_NODE" "small_frames (as_symbols a) ds"
  shows "\<exists>code. generate_code n (as_symbols a) junk = Ret (Some code)"
proof -
  obtain ds' where ds': "program_text ds' ts" "n = head_node ds'" "decl_steps initial_symbols ds' (as_symbols a)"
    using parse_named [OF assms(1,4,5)] .
  have "ds' = ds" by (rule program_text_one [OF ds'(1) assms(2)])
  then show ?thesis using sensible_generates [of ds "as_symbols a" junk] ds' assms(3,6) by simp
qed

theorem generator_accepts_witness:
  "\<exists>n a code. parse_tokenlist fact_tokens = Ret (n, a) \<and> generate_code n (as_symbols a) 0 = Ret (Some code)"
proof -
  obtain ast st where parse: "parse_tokenlist fact_tokens = Ret (ast, st)" "small_frames (as_symbols st) fact_decls"
    using fact_small by blast
  moreover have "case parse_tokenlist fact_tokens of Ret (n, a) \<Rightarrow> n \<noteq> NULL_NODE | _ \<Rightarrow> False" by code_simp
  ultimately have "ast \<noteq> NULL_NODE" by simp
  with generator_accepts [OF fact_lexed fact_text fact_sensible parse(1) this parse(2)] parse(1) show ?thesis by blast
qed

section \<open>A program that is not sensible\<close>

text \<open>The last statement of \<open>f\<close> is a branch that ends in a return.\<close>

definition gap_source :: string where
  "gap_source = ''void f(int a) { if (a == 1) { return; } } void main(void) { f(2); print 7; }''"

definition gap_decls :: "decl list" where
  "gap_decls =
     [Func_Decl DTYPE_VOID ''f'' [''a''] [If_Item (Cond (Single (Var_Fac ''a'')) TOK_EQEQ (Single (Num_Fac 1))) [Stat_Item (Return_Stat None)]],
      Func_Decl DTYPE_VOID ''main'' []
        [Stat_Item (Call_Stat ''f'' (Last_Arg (Single (Num_Fac 2)))), Stat_Item (Print_Stat (Single (Num_Fac 7)))]]"

definition gap_code :: "code_elem list" where
  "gap_code =
     [elem INSTR_CALL 10, elem INSTR_FINISH 0, elem INSTR_LOAD 1, elem INSTR_PUSH 1, elem INSTR_JNE 10, elem INSTR_RET 0,
      elem INSTR_PROLOG 1, elem INSTR_PUSH 2, elem INSTR_STORE 0, elem INSTR_CALL 3, elem INSTR_PUSH 7, elem INSTR_PRINT 0,
      elem INSTR_EPILOG 1, elem INSTR_RET 0]"

definition gap_env :: vm_env where
  "gap_env = \<lparr>ve_code = code_words gap_code @ [opcode INSTR_FINISH], ve_stack_cap = 8, ve_call_cap = 12, ve_args = []\<rparr>"

definition gap_vm :: vm where
  "gap_vm = \<lparr>vm_pc = 0, vm_stack = [0], vm_call = [0], vm_print = [0, 0], vm_print_pos = 0\<rparr>"


end
