(* ===== verification/Sha256.thy ===== *)
theory Sha256
  imports Bispe_Prelude
begin

text \<open>
  backend/bispe_sha.c: the one-block SHA-256 that the key derivation uses, against the
  standard's definition of SHA-256 for messages of any length (FIPS 180-4: padding, message
  schedule, compression, big-endian output).
\<close>

unbundle bit_operations_syntax

section \<open>The code\<close>

text \<open>The macros on \<open>uint32_t\<close>.\<close>

definition rot :: "u32 \<Rightarrow> nat \<Rightarrow> u32" where
  "rot x n = drop_bit n x OR push_bit (32 - n) x"

definition shr :: "u32 \<Rightarrow> nat \<Rightarrow> u32" where
  "shr x n = drop_bit n x"

definition s0 :: "u32 \<Rightarrow> u32" where "s0 x = rot x 7 XOR rot x 18 XOR shr x 3"
definition s1 :: "u32 \<Rightarrow> u32" where "s1 x = rot x 17 XOR rot x 19 XOR shr x 10"
definition S0 :: "u32 \<Rightarrow> u32" where "S0 x = rot x 2 XOR rot x 13 XOR rot x 22"
definition S1 :: "u32 \<Rightarrow> u32" where "S1 x = rot x 6 XOR rot x 11 XOR rot x 25"

definition ch :: "u32 \<Rightarrow> u32 \<Rightarrow> u32 \<Rightarrow> u32" where
  "ch x y z = (x AND y) XOR (NOT x AND z)"

definition maj :: "u32 \<Rightarrow> u32 \<Rightarrow> u32 \<Rightarrow> u32" where
  "maj x y z = (x AND y) XOR (x AND z) XOR (y AND z)"

definition endian :: "u32 \<Rightarrow> u32" where
  "endian x = drop_bit 24 x OR (drop_bit 8 x AND 0x0000FF00) OR push_bit 24 x OR (push_bit 8 x AND 0x00FF0000)"

definition k :: "u32 list" where
  "k =
     [0x428a2f98, 0x71374491, 0xb5c0fbcf, 0xe9b5dba5, 0x3956c25b] @
     [0x59f111f1, 0x923f82a4, 0xab1c5ed5, 0xd807aa98, 0x12835b01] @
     [0x243185be, 0x550c7dc3, 0x72be5d74, 0x80deb1fe, 0x9bdc06a7] @
     [0xc19bf174, 0xe49b69c1, 0xefbe4786, 0x0fc19dc6, 0x240ca1cc] @
     [0x2de92c6f, 0x4a7484aa, 0x5cb0a9dc, 0x76f988da, 0x983e5152] @
     [0xa831c66d, 0xb00327c8, 0xbf597fc7, 0xc6e00bf3, 0xd5a79147] @
     [0x06ca6351, 0x14292967, 0x27b70a85, 0x2e1b2138, 0x4d2c6dfc] @
     [0x53380d13, 0x650a7354, 0x766a0abb, 0x81c2c92e, 0x92722c85] @
     [0xa2bfe8a1, 0xa81a664b, 0xc24b8b70, 0xc76c51a3, 0xd192e819] @
     [0xd6990624, 0xf40e3585, 0x106aa070, 0x19a4c116, 0x1e376c08] @
     [0x2748774c, 0x34b0bcb5, 0x391c0cb3, 0x4ed8aa4a, 0x5b9cca4f] @
     [0x682e6ff3, 0x748f82ee, 0x78a5636f, 0x84c87814, 0x8cc70208] @
     [0x90befffa, 0xa4506ceb, 0xbef9a3f7, 0xc67178f2]"

text \<open>\<open>chunk[]\<close>; the message is the list of its \<open>msglen\<close> bytes.\<close>

definition chunk :: "u8 list \<Rightarrow> u8 list" where
  "chunk message =
     (let msglen = (if length message > 53 then 53 else length message)
      in take msglen message @ [0x80] @ replicate (62 - (msglen + 1)) 0x00 @
         map (\<lambda>i. of_nat (drop_bit ((63 - i) * 8) (msglen * 8))) [62..<64])"

text \<open>\<open>w[]\<close>: sixteen big-endian words, extended to 64.\<close>

definition w_start :: "u8 list \<Rightarrow> u32 list" where
  "w_start c =
     map (\<lambda>i. push_bit 24 (ucast (c ! (i * 4 + 0))) OR push_bit 16 (ucast (c ! (i * 4 + 1))) OR
             push_bit 8 (ucast (c ! (i * 4 + 2))) OR ucast (c ! (i * 4 + 3))) [0..<16]"

definition w_extend :: "u32 list \<Rightarrow> u32 list" where
  "w_extend w16 = foldl (\<lambda>w i. w @ [w ! (i - 16) + s0 (w ! (i - 15)) + w ! (i - 7) + s1 (w ! (i - 2))]) w16 [16..<64]"

text \<open>The eight words \<open>a, ..., h\<close> and \<open>hash[0], ..., hash[7]\<close>.\<close>

type_synonym hash8 = "u32 \<times> u32 \<times> u32 \<times> u32 \<times> u32 \<times> u32 \<times> u32 \<times> u32"

definition hash_init :: hash8 where
  "hash_init = (0x6a09e667, 0xbb67ae85, 0x3c6ef372, 0xa54ff53a, 0x510e527f, 0x9b05688c, 0x1f83d9ab, 0x5be0cd19)"

fun main_loop_step :: "u32 list \<Rightarrow> hash8 \<Rightarrow> nat \<Rightarrow> hash8" where
  "main_loop_step w (a, b, c, d, e, f, g, h) i =
     (let t1 = h + S1 e + ch e f g + k ! i + w ! i;
          t2 = S0 a + maj a b c
      in (t1 + t2, a, b, c, d + t1, e, f, g))"

fun hash_add :: "hash8 \<Rightarrow> hash8 \<Rightarrow> hash8" where
  "hash_add (h0, h1, h2, h3, h4, h5, h6, h7) (a, b, c, d, e, f, g, h) =
     (h0 + a, h1 + b, h2 + c, h3 + d, h4 + e, h5 + f, h6 + g, h7 + h)"

fun hash_words :: "hash8 \<Rightarrow> u32 list" where
  "hash_words (h0, h1, h2, h3, h4, h5, h6, h7) = [h0, h1, h2, h3, h4, h5, h6, h7]"

text \<open>The bytes of a \<open>uint32_t\<close> in memory, lowest address first.\<close>

definition le_bytes :: "u32 \<Rightarrow> u8 list" where
  "le_bytes x = map (\<lambda>i. ucast (drop_bit (8 * i) x)) [0, 1, 2, 3]"

definition bispe_sha256 :: "u8 list \<Rightarrow> u8 list" where
  "bispe_sha256 message =
     (let w = w_extend (w_start (chunk message));
          r = foldl (main_loop_step w) hash_init [0..<64]
      in concat (map (le_bytes \<circ> endian) (hash_words (hash_add hash_init r))))"

section \<open>The standard\<close>

definition pad :: "u8 list \<Rightarrow> u8 list" where
  "pad m = m @ [0x80] @ replicate ((119 - length m mod 64) mod 64) 0 @
     map (\<lambda>i. of_nat (8 * length m div 256 ^ i)) [7, 6, 5, 4, 3, 2, 1, 0]"

definition be_word :: "u8 list \<Rightarrow> u32" where
  "be_word bs = foldl (\<lambda>w b. push_bit 8 w OR ucast b) 0 bs"

definition be_bytes :: "u32 \<Rightarrow> u8 list" where
  "be_bytes x = map (\<lambda>i. ucast (drop_bit (8 * i) x)) [3, 2, 1, 0]"

definition block_words :: "u8 list \<Rightarrow> u32 list" where
  "block_words b = map (\<lambda>i. be_word (take 4 (drop (4 * i) b))) [0..<16]"

definition sigma0 :: "u32 \<Rightarrow> u32" where
  "sigma0 x = word_rotr 7 x XOR word_rotr 18 x XOR drop_bit 3 x"

definition sigma1 :: "u32 \<Rightarrow> u32" where
  "sigma1 x = word_rotr 17 x XOR word_rotr 19 x XOR drop_bit 10 x"

definition Sigma0 :: "u32 \<Rightarrow> u32" where
  "Sigma0 x = word_rotr 2 x XOR word_rotr 13 x XOR word_rotr 22 x"

definition Sigma1 :: "u32 \<Rightarrow> u32" where
  "Sigma1 x = word_rotr 6 x XOR word_rotr 11 x XOR word_rotr 25 x"

text \<open>The message schedule \<open>W\<^sub>t\<close> of a block of sixteen words.\<close>

fun schedule :: "u32 list \<Rightarrow> nat \<Rightarrow> u32" where
  "schedule M t =
     (if t < 16 then M ! t
      else sigma1 (schedule M (t - 2)) + schedule M (t - 7) + sigma0 (schedule M (t - 15)) + schedule M (t - 16))"

declare schedule.simps [simp del]

text \<open>The working variables after \<open>t\<close> rounds.\<close>

primrec rounds :: "u32 list \<Rightarrow> hash8 \<Rightarrow> nat \<Rightarrow> hash8" where
  "rounds M H 0 = H"
| "rounds M H (Suc t) =
     (case rounds M H t of
        (a, b, c, d, e, f, g, h) \<Rightarrow>
          let T1 = h + Sigma1 e + ((e AND f) XOR (NOT e AND g)) + k ! t + schedule M t;
              T2 = Sigma0 a + ((a AND b) XOR (a AND c) XOR (b AND c))
          in (T1 + T2, a, b, c, d + T1, e, f, g))"

definition compress :: "hash8 \<Rightarrow> u8 list \<Rightarrow> hash8" where
  "compress H b = hash_add H (rounds (block_words b) H 64)"

function blocks :: "u8 list \<Rightarrow> u8 list list" where
  "blocks bs = (if length bs < 64 then [] else take 64 bs # blocks (drop 64 bs))"
  by pat_completeness auto

termination blocks
  by (relation "measure length") auto

declare blocks.simps [simp del]

definition sha256 :: "u8 list \<Rightarrow> u8 list" where
  "sha256 m = concat (map be_bytes (hash_words (foldl compress hash_init (blocks (pad m)))))"

section \<open>The macros compute the standard's functions\<close>

lemma rot_word_rotr:
  assumes "0 < n" "n < 32"
  shows "rot x n = word_rotr n x"
proof (rule bit_word_eqI)
  fix i
  assume i: "i < LENGTH(32)"
  have "i + n < 32" if "bit x (i + n)" using bit_imp_le_length [OF that] by simp
  then show "bit (rot x n) i = bit (word_rotr n x) i"
    using i assms by (auto simp: rot_def bit_simps mod_if add.commute [of n])
qed

lemma sigma_macros: "s0 = sigma0" "s1 = sigma1" "S0 = Sigma0" "S1 = Sigma1"
  by (simp_all add: fun_eq_iff s0_def s1_def S0_def S1_def sigma0_def sigma1_def Sigma0_def Sigma1_def
      shr_def rot_word_rotr)

lemma le_bytes_endian: "le_bytes \<circ> endian = be_bytes"
proof -
  have "le_bytes (endian x) = be_bytes x" for x
  proof -
  have masks: "(0x0000FF00 :: u32) = push_bit 8 (mask 8)" "(0x00FF0000 :: u32) = push_bit 16 (mask 8)"
    by (simp_all add: mask_eq_exp_minus_1 push_bit_eq_mult)
  have "(ucast (endian x) :: u8) = ucast (drop_bit 24 x)"
    "(ucast (drop_bit 8 (endian x)) :: u8) = ucast (drop_bit 16 x)"
    "(ucast (drop_bit 16 (endian x)) :: u8) = ucast (drop_bit 8 x)"
    "(ucast (drop_bit 24 (endian x)) :: u8) = ucast x"
    unfolding endian_def masks by (rule bit_word_eqI; force simp: bit_simps)+
  then show ?thesis by (simp add: le_bytes_def be_bytes_def)
  qed
  then show ?thesis by (simp add: fun_eq_iff)
qed

section \<open>One block\<close>

lemma length_chunk: "length (chunk m) = 64"
  by (simp add: chunk_def Let_def)

lemma chunk_pad:
  assumes "length m \<le> 53"
  shows "chunk m = pad m"
proof -
  have small: "length m mod 64 = length m" "(119 - length m) mod 64 = 55 - length m"
    using assms by (simp_all add: mod_if)
  have bytes: "(of_nat (8 * length m div 256 ^ i) :: u8) = 0" if "2 \<le> i" for i
  proof -
    have "8 * length m < 256 ^ 2" using assms by simp
    also have "... \<le> 256 ^ i" using that by (intro power_increasing) auto
    finally show ?thesis by (simp add: div_less)
  qed
  have six: "replicate 6 (0 :: u8) = [0, 0, 0, 0, 0, 0]" by (simp add: numeral_eq_Suc)
  have zeros: "replicate (62 - (length m + 1)) (0 :: u8) = replicate (55 - length m) 0 @ [0, 0, 0, 0, 0, 0]"
    unfolding six [symmetric] using assms by (simp add: replicate_add [symmetric])
  have upper: "map (\<lambda>i. of_nat (8 * length m div 256 ^ i)) [7, 6, 5, 4, 3, 2, 1, 0] =
      [0, 0, 0, 0, 0, 0, of_nat (8 * length m div 256), of_nat (8 * length m) :: u8]"
    using bytes [of 7] bytes [of 6] bytes [of 5] bytes [of 4] bytes [of 3] bytes [of 2] by simp
  have tail: "[62..<64] = [62, 63 :: nat]" by (simp add: upt_rec)
  have lower: "map (\<lambda>i. of_nat (drop_bit ((63 - i) * 8) (length m * 8))) [62..<64] =
      [of_nat (8 * length m div 256), of_nat (8 * length m) :: u8]"
    by (simp add: tail drop_bit_eq_div mult.commute)
  have len: "(if length m > 53 then 53 else length m) = length m" using assms by simp
  show ?thesis
    unfolding chunk_def pad_def upper lower Let_def len small zeros by simp
qed

lemma chunk_take: "chunk m = chunk (take 53 m)"
  by (simp add: chunk_def Let_def min_def)

lemma w_start_words:
  assumes "length c = 64"
  shows "w_start c = block_words c"
proof -
  have "push_bit 24 (ucast (c ! (i * 4 + 0))) OR push_bit 16 (ucast (c ! (i * 4 + 1))) OR
        push_bit 8 (ucast (c ! (i * 4 + 2))) OR ucast (c ! (i * 4 + 3)) = be_word (take 4 (drop (4 * i) c))"
    if "i < 16" for i
  proof -
    have "4 * i + 3 < length c" using assms that by simp
    then have "take 4 (drop (4 * i) c) = [c ! (i * 4 + 0), c ! (i * 4 + 1), c ! (i * 4 + 2), c ! (i * 4 + 3)]"
      by (intro nth_equalityI) (auto simp: nth_Cons mult.commute numeral_3_eq_3 split: nat.splits)
    then show ?thesis
      by (simp add: be_word_def push_bit_or or.assoc)
  qed
  then show ?thesis by (simp add: w_start_def block_words_def)
qed

lemma w_extend_schedule:
  assumes "length w16 = 16" "16 \<le> n"
  shows "foldl (\<lambda>w i. w @ [w ! (i - 16) + s0 (w ! (i - 15)) + w ! (i - 7) + s1 (w ! (i - 2))]) w16 [16..<n]
    = map (schedule w16) [0..<n]"
  using assms(2)
proof (induction n rule: dec_induct)
  case base
  show ?case using assms(1) by (intro nth_equalityI) (auto simp: schedule.simps)
next
  case (step n)
  have "schedule w16 (n - 16) + sigma0 (schedule w16 (n - 15)) + schedule w16 (n - 7) + sigma1 (schedule w16 (n - 2))
      = schedule w16 n"
    using step.hyps by (subst (5) schedule.simps) (simp add: ac_simps)
  with step show ?case by (simp add: sigma_macros)
qed

lemma rounds_loop:
  assumes "\<And>t. t < n \<Longrightarrow> w ! t = schedule M t"
  shows "foldl (main_loop_step w) H [0..<n] = rounds M H n"
  using assms
proof (induction n)
  case (Suc n)
  then show ?case
    by (simp add: sigma_macros ch_def maj_def Let_def split: prod.split)
qed simp

lemma blocks_one: "length b = 64 \<Longrightarrow> blocks b = [b]"
  by (simp add: blocks.simps [of b] blocks.simps [of "[]"])

lemma sha256_block: "bispe_sha256 m = sha256 (take 53 m)"
proof -
  let ?c = "chunk m"
  have c: "?c = pad (take 53 m)" using chunk_take [of m] chunk_pad [of "take 53 m"] by simp
  have w: "w_extend (w_start ?c) = map (schedule (block_words ?c)) [0..<64]"
    unfolding w_extend_def w_start_words [OF length_chunk]
    by (rule w_extend_schedule) (simp_all add: block_words_def)
  have "foldl (main_loop_step (w_extend (w_start ?c))) hash_init [0..<64] = rounds (block_words ?c) hash_init 64"
    unfolding w by (rule rounds_loop) (simp del: upt_Suc)
  moreover have "blocks (pad (take 53 m)) = [?c]"
    unfolding c [symmetric] by (rule blocks_one [OF length_chunk])
  ultimately show ?thesis
    by (simp add: bispe_sha256_def sha256_def compress_def Let_def le_bytes_endian del: upt_Suc)
qed


end
