(* ===== verification/Key.thy ===== *)
theory Key
  imports Sha256
begin

text \<open>
  backend/bispe_key.c: the key derivation behind /sys/kernel/bispe/password and the display of
  the key's hash. The state is the static \<open>key_hash\<close> and the key that \<open>bispe_set_key\<close> has put
  into the debug registers of each CPU. A byte string of C ends before its first zero.
\<close>

section \<open>State\<close>

record key_state =
  key_hash :: "u8 list"
  cpu_keys :: "u8 list list"

definition BISPE_KDF_ITER :: nat where
  "BISPE_KDF_ITER = 2000"

definition initial_key_state :: "nat \<Rightarrow> key_state" where
  "initial_key_state cpus = \<lparr>key_hash = replicate 32 0, cpu_keys = replicate cpus (replicate 32 0)\<rparr>"

section \<open>Setting the key\<close>

definition strlen :: "u8 list \<Rightarrow> nat" where
  "strlen s = length (takeWhile (\<lambda>b. b \<noteq> 0) s)"

text \<open>One turn of the loop on \<open>key\<close> and \<open>key_hash\<close>.\<close>

definition kdf_step :: "u8 list \<times> u8 list \<Rightarrow> u8 list \<times> u8 list" where
  "kdf_step = (\<lambda>(key, hash). let hash1 = bispe_sha256 key in (bispe_sha256 hash1, hash1))"

definition setkey_each_cpu :: "u8 list \<Rightarrow> key_state \<Rightarrow> key_state" where
  "setkey_each_cpu key s = s\<lparr>cpu_keys := map (\<lambda>_. key) (cpu_keys s)\<rparr>"

text \<open>
  \<open>buf\<close> is the page of the sysfs write, of which \<open>count\<close> bytes were written. The result is the
  returned count, the page after the call and the new state.
\<close>

definition password_store :: "u8 list \<Rightarrow> nat \<Rightarrow> key_state \<Rightarrow> nat \<times> u8 list \<times> key_state" where
  "password_store buf count s =
     (let password = (take 54 buf)[53 := 0];
          key0 = bispe_sha256 (take (strlen password) password);
          (key, hash) = foldl (\<lambda>kh i. kdf_step kh) (key0, key_hash s) [0..<BISPE_KDF_ITER];
          s1 = setkey_each_cpu key (s\<lparr>key_hash := hash\<rparr>);
          s2 = s1\<lparr>key_hash := bispe_sha256 key\<rparr>
      in (count, replicate count 0 @ drop count buf, s2))"

section \<open>Showing the hash\<close>

definition hex_digit :: "nat \<Rightarrow> char" where
  "hex_digit n = ''0123456789abcdef'' ! n"

text \<open>\<open>sprintf(..., "%02x ", b)\<close>.\<close>

definition sprintf_02x :: "u8 \<Rightarrow> string" where
  "sprintf_02x b = [hex_digit (unat b div 16), hex_digit (unat b mod 16), CHR '' '']"

definition hash_show :: "key_state \<Rightarrow> string" where
  "hash_show s =
     ''Key hash:'' @ [CHR 0x0A] @
     concat (map (\<lambda>i. sprintf_02x (key_hash s ! i)) [0..<16]) @ [CHR 0x0A] @
     concat (map (\<lambda>i. sprintf_02x (key_hash s ! i)) [16..<32]) @ [CHR 0x0A]"

section \<open>The derived key\<close>

lemma length_hash_words [simp]: "length (hash_words H) = 8"
  by (cases H rule: hash_words.cases) simp

lemma length_concat_const: "(\<And>x. x \<in> set xs \<Longrightarrow> length (f x) = n) \<Longrightarrow> length (concat (map f xs)) = n * length xs"
  by (induction xs) auto

lemma length_sha256 [simp]: "length (sha256 m) = 32"
  by (simp add: sha256_def length_concat_const [where n = 4] be_bytes_def)

lemma bispe_sha256_short: "length m \<le> 53 \<Longrightarrow> bispe_sha256 m = sha256 m"
  by (simp add: sha256_block)

lemma kdf_loop:
  assumes "length key = 32"
  shows "\<exists>hash'. foldl (\<lambda>kh i. kdf_step kh) (key, hash) [0..<n] = ((sha256 ^^ (2 * n)) key, hash') \<and>
    length ((sha256 ^^ (2 * n)) key) = 32"
proof (induction n)
  case (Suc n)
  then show ?case by (auto simp: kdf_step_def Let_def bispe_sha256_short)
qed (simp add: assms)

lemma takeWhile_zero: "takeWhile (\<lambda>b. b \<noteq> 0) (ys @ [0]) = takeWhile (\<lambda>b. b \<noteq> 0) ys" for ys :: "u8 list"
  by (induction ys) auto

lemma strlen_password: "take (strlen (xs[53 := 0])) (xs[53 := 0]) = takeWhile (\<lambda>b. b \<noteq> 0) (take 53 xs)"
  if "length xs = 54" for xs :: "u8 list"
proof -
  have "xs[53 := 0] = take 53 xs @ [0]"
    using that by (simp add: upd_conv_take_nth_drop)
  then show ?thesis
    using takeWhile_eq_take [of "\<lambda>b. b \<noteq> 0" "take 53 xs @ [0]"] by (simp add: strlen_def takeWhile_zero)
qed

lemma password_store_derived:
  assumes "54 \<le> length buf" "count \<le> length buf"
  defines "key \<equiv> (sha256 ^^ (2 * BISPE_KDF_ITER + 1)) (takeWhile (\<lambda>b. b \<noteq> 0) (take 53 buf))"
  shows "password_store buf count s =
    (count, replicate count 0 @ drop count buf,
     s\<lparr>key_hash := sha256 key, cpu_keys := map (\<lambda>_. key) (cpu_keys s)\<rparr>)"
proof -
  let ?pw = "takeWhile (\<lambda>b. b \<noteq> 0) (take 53 buf)"
  have pw: "take (strlen ((take 54 buf)[53 := 0])) ((take 54 buf)[53 := 0]) = ?pw"
    using strlen_password [of "take 54 buf"] assms(1) by simp
  have short: "length ?pw \<le> 53"
    using length_takeWhile_le [of "\<lambda>b. b \<noteq> 0" "take 53 buf"] by simp
  obtain hash where loop: "foldl (\<lambda>kh i. kdf_step kh) (sha256 ?pw, key_hash s) [0..<BISPE_KDF_ITER] = (key, hash)"
    and len: "length key = 32"
    using kdf_loop [of "sha256 ?pw" "key_hash s" BISPE_KDF_ITER]
    by (auto simp: key_def funpow_swap1)
  show ?thesis
    using loop len by (simp add: password_store_def pw bispe_sha256_short short setkey_each_cpu_def Let_def)
qed

text \<open>C20 Setting a password gives every CPU the key that is the password, up to its first zero
  byte and at most 53 bytes of it, hashed \<open>2 * BISPE_KDF_ITER + 1\<close> times with SHA-256; the
  displayed hash is the hash of that key, the written bytes of the input page are cleared, and
  the old state leaves no trace in the new one.\<close>

theorem password_store_key:
  assumes "54 \<le> length buf" "count \<le> length buf"
  defines "key \<equiv> (sha256 ^^ (2 * BISPE_KDF_ITER + 1)) (takeWhile (\<lambda>b. b \<noteq> 0) (take 53 buf))"
  shows "password_store buf count s =
    (count, replicate count 0 @ drop count buf,
     s\<lparr>key_hash := sha256 key, cpu_keys := map (\<lambda>_. key) (cpu_keys s)\<rparr>)"
  using password_store_derived [OF assms(1,2)] by (simp add: key_def)

theorem password_store_key_witness:
  "password_store (replicate 4096 0x61) 5 (initial_key_state 2) =
    (5, replicate 5 0 @ replicate 4091 0x61,
     \<lparr>key_hash = sha256 ((sha256 ^^ (2 * BISPE_KDF_ITER + 1)) (replicate 53 0x61)),
      cpu_keys = replicate 2 ((sha256 ^^ (2 * BISPE_KDF_ITER + 1)) (replicate 53 0x61))\<rparr>)"
  by (subst password_store_key) (simp_all add: initial_key_state_def)

lemma concat_const_inject:
  assumes "\<And>x. length (f x) = n" "0 < n" "concat (map f xs) = concat (map f ys)"
  shows "map f xs = map f ys"
  using assms(3)
proof (induction xs arbitrary: ys)
  case Nil
  then show ?case using assms(1) [of "hd ys"] assms(2) by (cases ys) auto
next
  case (Cons x xs)
  then show ?case using assms(1) [of x] assms(1,2) by (cases ys) (auto simp: append_eq_append_conv)
qed

lemma hex_digit_inject: "m < 16 \<Longrightarrow> n < 16 \<Longrightarrow> hex_digit m = hex_digit n \<longleftrightarrow> m = n"
  unfolding hex_digit_def by (rule nth_eq_iff_index_eq) simp_all

lemma sprintf_02x_inject: "sprintf_02x a = sprintf_02x b \<longleftrightarrow> a = b"
proof
  assume eq: "sprintf_02x a = sprintf_02x b"
  have "unat a < 256" "unat b < 256" using unsigned_less [of a] unsigned_less [of b] by simp_all
  then have "unat a div 16 = unat b div 16" "unat a mod 16 = unat b mod 16"
    using eq by (simp_all add: sprintf_02x_def hex_digit_inject)
  then have "unat a = unat b" by (metis div_mult_mod_eq)
  then show "a = b" by (rule unsigned_word_eqI)
qed simp

lemma length_sprintf_02x [simp]: "length (sprintf_02x b) = 3"
  by (simp add: sprintf_02x_def)

lemma length_lines: "length (concat (map (\<lambda>i. sprintf_02x (f i)) is)) = 3 * length is"
  by (induction "is") auto

lemma lines_inject:
  "concat (map (\<lambda>i. sprintf_02x (f i)) is) = concat (map (\<lambda>i. sprintf_02x (g i)) is) \<longleftrightarrow> map f is = map g is"
proof
  assume "concat (map (\<lambda>i. sprintf_02x (f i)) is) = concat (map (\<lambda>i. sprintf_02x (g i)) is)"
  then have "concat (map sprintf_02x (map f is)) = concat (map sprintf_02x (map g is))" by (simp add: comp_def)
  then have "map sprintf_02x (map f is) = map sprintf_02x (map g is)"
    by (rule concat_const_inject [where n = 3, rotated 2]) simp_all
  then show "map f is = map g is" by (simp add: sprintf_02x_inject)
next
  assume "map f is = map g is"
  then show "concat (map (\<lambda>i. sprintf_02x (f i)) is) = concat (map (\<lambda>i. sprintf_02x (g i)) is)"
    by (intro arg_cong [where f = concat]) simp
qed

text \<open>The display of a 32-byte hash is 108 characters, which fits the page that sysfs passes,
  and two states show the same text only when their hashes are equal.\<close>

theorem hash_show_text:
  assumes "length (key_hash s) = 32" "length (key_hash s') = 32"
  shows "length (hash_show s) = 108 \<and> (hash_show s = hash_show s' \<longleftrightarrow> key_hash s = key_hash s')"
proof (intro conjI iffI)
  show "length (hash_show s) = 108" by (simp add: hash_show_def length_lines)
next
  assume "hash_show s = hash_show s'"
  then have "map ((!) (key_hash s)) [0..<16] = map ((!) (key_hash s')) [0..<16]"
    "map ((!) (key_hash s)) [16..<32] = map ((!) (key_hash s')) [16..<32]"
    unfolding hash_show_def by (simp_all only: append_eq_append_conv length_lines lines_inject append.assoc same_append_eq length_upt
        simp_thms append_Cons list.inject)
  then have "key_hash s ! i = key_hash s' ! i" if "i < 32" for i
    using that by (cases "i < 16") (simp_all only: map_eq_conv set_upt atLeastLessThan_iff not_less Ball_def zero_le)
  then show "key_hash s = key_hash s'" using assms by (intro nth_equalityI) auto
qed (simp only: hash_show_def)

theorem hash_show_text_witness:
  "length (hash_show (initial_key_state 1)) = 108 \<and>
   hash_show (initial_key_state 1) \<noteq> hash_show ((initial_key_state 1)\<lparr>key_hash := replicate 31 0 @ [1]\<rparr>)"
  using hash_show_text [of "initial_key_state 1" "(initial_key_state 1)\<lparr>key_hash := replicate 31 0 @ [1]\<rparr>"]
  by (simp add: initial_key_state_def numeral_eq_Suc)

end
