(* ===== verification/Key_Cipher.thy ===== *)
theory Key_Cipher
  imports Key Aes_Module
begin

unbundle bit_operations_syntax

text \<open>
  The key derivation of bispe_key.c and the cipher of bispe_crypto_asm.S together:
  \<open>setkey_current_cpu\<close> puts the derived bytes into the debug registers of every processor.
\<close>

section \<open>Bytes in registers\<close>

text \<open>\<open>movq 8*i(%rdi)\<close>: eight bytes, the lowest first.\<close>

definition quad_at :: "u8 list \<Rightarrow> nat \<Rightarrow> u64" where
  "quad_at bs i = foldr (\<lambda>b w. ucast b OR push_bit 8 w) (take 8 (drop (8 * i) bs)) 0"

definition key_quads :: "u8 list \<Rightarrow> u64 list" where
  "key_quads key = [quad_at key 0, quad_at key 1, quad_at key 2, quad_at key 3]"

text \<open>The processors after \<open>on_each_cpu(setkey_current_cpu, ...)\<close>; each has its key in the state of Key.\<close>

definition setkey_current_cpu :: "u8 list \<Rightarrow> cpu \<Rightarrow> cpu" where
  "setkey_current_cpu key c = bispe_set_key (key_quads key) c"

definition keyed_cpus :: "key_state \<Rightarrow> cpu list \<Rightarrow> cpu list" where
  "keyed_cpus s cs = map2 setkey_current_cpu (cpu_keys s) cs"

lemma get_setkey: "bispe_get_key (setkey_current_cpu key c) = key_quads key"
  by (simp add: setkey_current_cpu_def get_set_key key_quads_def)

section \<open>All processors share the cipher\<close>

text \<open>C24 Once a password is set, every processor has the same key in its debug registers, the derived
  one, and so each decrypts what any other has encrypted.\<close>

theorem password_cipher:
  assumes "password_store buf count s = (n, page, s')" "54 \<le> length buf" "count \<le> length buf"
    and "length cs = length (cpu_keys s)" "i < length cs" "j < length cs"
  defines "key \<equiv> (sha256 ^^ (2 * BISPE_KDF_ITER + 1)) (takeWhile (\<lambda>b. b \<noteq> 0) (take 53 buf))"
  shows "bispe_get_key (keyed_cpus s' cs ! i) = key_quads key \<and>
    aes_decipher (keyed_cpus s' cs ! j) (aes_cipher (keyed_cpus s' cs ! i) b) = b"
proof -
  have "s' = s\<lparr>key_hash := sha256 key, cpu_keys := map (\<lambda>_. key) (cpu_keys s)\<rparr>"
    using assms(1) password_store_derived [OF assms(2,3), of s] by (simp add: key_def)
  then have key: "bispe_get_key (keyed_cpus s' cs ! k) = key_quads key" if "k < length cs" for k
    using assms(4) that by (simp add: keyed_cpus_def get_setkey)
  then have "same_key (keyed_cpus s' cs ! i) (keyed_cpus s' cs ! j)"
    using assms(5,6) by (simp add: same_key_def)
  then show ?thesis using key assms(5) by (simp add: aes_decipher_cipher)
qed

theorem password_cipher_witness:
  "\<exists>s' cs. password_store (replicate 4096 0x61) 5 (initial_key_state 2) = (5, replicate 5 0 @ replicate 4091 0x61, s') \<and>
     bispe_get_key (keyed_cpus s' cs ! 0) = key_quads ((sha256 ^^ (2 * BISPE_KDF_ITER + 1)) (replicate 53 0x61)) \<and>
     aes_decipher (keyed_cpus s' cs ! 1) (aes_cipher (keyed_cpus s' cs ! 0) (Line 1 2 3 4)) = Line 1 2 3 4"
proof -
  let ?buf = "replicate 4096 0x61 :: u8 list"
  define cs where "cs = replicate 2 \<lparr>xmm = (\<lambda>_. zero_line), ymm_high = (\<lambda>_. zero_line), debug_reg = (\<lambda>_. 0)\<rparr>"
  obtain s' where run: "password_store ?buf 5 (initial_key_state 2) = (5, replicate 5 0 @ replicate 4091 0x61, s')"
    using password_store_derived [of ?buf 5 "initial_key_state 2"] by simp
  have "length cs = length (cpu_keys (initial_key_state 2))" "0 < length cs" "1 < length cs"
    by (simp_all add: cs_def initial_key_state_def)
  from password_cipher [OF run _ _ this, of "Line 1 2 3 4"] run show ?thesis by auto
qed

end
