(* ===== verification/Kernel_Tests.thy ===== *)
theory Kernel_Tests
  imports Aes_Module
begin

text \<open>
  backend/bispe_tests.c: the programs that the module can run when it is loaded, and what they find.
  The interpreter that runs a test is an argument; it gets the code and the context, and returns the
  error code. The section after it runs the tests on the stack machine of the theory Vm, which is the
  interpreter without encryption. The last section is \<open>bispe_init\<close> of backend/bispe_main.c, which
  runs the tests when the module is built with them.
\<close>

section \<open>Contexts for code in the kernel\<close>

text \<open>
  The check after the second \<open>amalloc\<close> looks at the first buffer again: \<open>memcpy\<close> writes to the null
  pointer when there was no memory for the arguments.
\<close>

definition init_interpreter_intern :: "globals \<Rightarrow> invoke_ctx \<Rightarrow> heap \<Rightarrow> (runtime_ctx option \<times> heap) outcome" where
  "init_interpreter_intern g ic h =
     (case amalloc (ic_code_size ic) h of
        (None, h1) \<Rightarrow> obind (afree None h1) (\<lambda>h2. obind (afree None h2) (\<lambda>h3. Ret (None, h3)))
      | (Some p, h1) \<Rightarrow>
          let code_buf = \<lparr>bi_ptr = Some p, bi_size = ic_code_size ic\<rparr>
          in if ic_arg_size ic > 0 then
               (case amalloc (ic_arg_size ic) h1 of
                  (None, h2) \<Rightarrow> Segfault
                | (Some q, h2) \<Rightarrow> create_runtime_ctx g ic code_buf \<lparr>bi_ptr = Some q, bi_size = ic_arg_size ic\<rparr> h2)
             else create_runtime_ctx g ic code_buf \<lparr>bi_ptr = None, bi_size = ic_arg_size ic\<rparr> h1)"

lemma intern_no_memory_for_args:
  assumes "ic_arg_size ic > 0" "\<not> hp_fail h (hp_next h)" "hp_fail h (hp_next h + 1)"
  shows "init_interpreter_intern g ic h = Segfault"
  using assms by (simp add: init_interpreter_intern_def amalloc_def vmalloc_def Let_def)

text \<open>Otherwise it is \<open>init_interpreter\<close> with copies that succeed.\<close>

lemma intern_init:
  assumes "ic_arg_size ic = 0 \<or> \<not> hp_fail h (hp_next h + 1)"
  shows "init_interpreter_intern g ic h = init_interpreter True True g ic h"
  using assms
  by (auto simp: init_interpreter_intern_def init_interpreter_def get_buf_from_user_def amalloc_def vmalloc_def Let_def
      word_gt_0)

section \<open>The tests\<close>

record test =
  te_name :: string
  te_expect_error :: bool
  te_result :: u32
  te_stack_size :: u32
  te_call_size :: u32
  te_code :: "u32 list"

definition tests :: "test list" where
  "tests =
    [\<lparr>te_name = ''check stack overflow'', te_expect_error = True, te_result = ucast ERR_STACK_OVERFLOW,
      te_stack_size = 1, te_call_size = 1,
      te_code = [opcode INSTR_PUSH, 1, opcode INSTR_PUSH, 1, opcode INSTR_PUSH, 1, opcode INSTR_PUSH, 1, opcode INSTR_PUSH, 1, 1]\<rparr>,
     \<lparr>te_name = ''check stack underflow'', te_expect_error = True, te_result = ucast ERR_STACK_UNDERFLOW,
      te_stack_size = 1, te_call_size = 1, te_code = [opcode INSTR_PRINT, 1]\<rparr>,
     \<lparr>te_name = ''check stack underflow 2'', te_expect_error = True, te_result = ucast ERR_STACK_UNDERFLOW,
      te_stack_size = 1, te_call_size = 1, te_code = [opcode INSTR_STORE, 0, 1]\<rparr>,
     \<lparr>te_name = ''check call overflow'', te_expect_error = True, te_result = ucast ERR_CALL_OVERFLOW,
      te_stack_size = 1, te_call_size = 1, te_code = [opcode INSTR_PROLOG, 4, 1]\<rparr>,
     \<lparr>te_name = ''check call underflow'', te_expect_error = True, te_result = ucast ERR_CALL_UNDERFLOW,
      te_stack_size = 1, te_call_size = 1, te_code = [opcode INSTR_EPILOG, 1, 1]\<rparr>,
     \<lparr>te_name = ''check call underflow 2'', te_expect_error = True, te_result = ucast ERR_CALL_UNDERFLOW,
      te_stack_size = 1, te_call_size = 1, te_code = [opcode INSTR_LOAD, 1, 1]\<rparr>,
     \<lparr>te_name = ''check call underflow 3'', te_expect_error = True, te_result = ucast ERR_CALL_UNDERFLOW,
      te_stack_size = 1, te_call_size = 1, te_code = [opcode INSTR_PUSH, 1, opcode INSTR_STORE, 1, 1]\<rparr>,
     \<lparr>te_name = ''check division by zero'', te_expect_error = True, te_result = ucast ERR_DIV_ZERO,
      te_stack_size = 4, te_call_size = 4,
      te_code = [opcode INSTR_PUSH, 5, opcode INSTR_PUSH, 0, opcode INSTR_DIV, 1]\<rparr>]"

definition test_ctx :: "test \<Rightarrow> invoke_ctx" where
  "test_ctx t =
     \<lparr>ic_stack_size = 4 * 4 * te_stack_size t, ic_call_size = 4 * 4 * te_call_size t, ic_ipc = 0,
      ic_code_size = 4 * of_nat (length (te_code t)), ic_arg_size = 0, ic_out_size = 0\<rparr>"

text \<open>
  \<open>start\<close> runs the code in a context. A test that expects no error ends at \<open>out\<close> with the result 0
  whatever has been printed.
\<close>

definition run_test ::
  "(u32 list \<Rightarrow> runtime_ctx \<Rightarrow> int) \<Rightarrow> test \<Rightarrow> globals \<times> heap \<Rightarrow> (bool \<times> globals \<times> heap) outcome" where
  "run_test start t gh =
     obind (init_interpreter_intern (fst gh) (test_ctx t) (snd gh)) (\<lambda>(rco, h1).
       case rco of
         None \<Rightarrow> obind (cleanup_runtime_ctx None h1) (\<lambda>h2. Ret (False, fst gh, h2))
       | Some rc \<Rightarrow>
           let interpreter_result = start (te_code t) rc;
               res = te_expect_error t \<and> word_of_int interpreter_result = te_result t
           in obind (cleanup_runtime_ctx (Some rc) h1) (\<lambda>h2. Ret (res, install_ctx rc, h2)))"

text \<open>The names with the verdicts that are printed.\<close>

fun run_interpreter_tests ::
  "(u32 list \<Rightarrow> runtime_ctx \<Rightarrow> int) \<Rightarrow> test list \<Rightarrow> globals \<times> heap \<Rightarrow> ((string \<times> bool) list \<times> globals \<times> heap) outcome" where
  "run_interpreter_tests start [] gh = Ret ([], gh)"
| "run_interpreter_tests start (t # ts) gh =
     obind (run_test start t gh) (\<lambda>(r, gh1).
     obind (run_interpreter_tests start ts gh1) (\<lambda>(rs, gh2). Ret ((te_name t, r) # rs, gh2)))"

section \<open>The tests on the stack machine\<close>

definition test_run :: "nat \<Rightarrow> nat \<Rightarrow> u32 list \<Rightarrow> int" where
  "test_run stack_cap call_cap code =
     (case vm_run (\<lambda>_ _. 0) \<lparr>ve_code = code, ve_stack_cap = stack_cap, ve_call_cap = call_cap, ve_args = []\<rparr> 20
        \<lparr>vm_pc = 0, vm_stack = [0], vm_call = [0], vm_print = replicate 5 0, vm_print_pos = 0\<rparr> of
        Halted a \<Rightarrow> 0
      | Trap c a \<Rightarrow> uint c
      | _ \<Rightarrow> - 1)"

definition start_plain :: "u32 list \<Rightarrow> runtime_ctx \<Rightarrow> int" where
  "start_plain code rc = test_run (unat (rc_stack_seg_size rc) div 4) (unat (rc_call_seg_size rc) div 4) code"


text \<open>A test that expects no error is reported as failed, whatever it prints.\<close>

lemma no_test_without_error:
  "\<not> te_expect_error t \<Longrightarrow> run_test start t gh = Ret (r, gh') \<Longrightarrow> \<not> r"
  by (auto simp: run_test_def outcome_simps Let_def split: option.splits)

section \<open>Loading the module\<close>

definition ENOMEM :: int where "ENOMEM = 12"

text \<open>Whether there is memory for the kobject, and the answer of \<open>sysfs_create_group\<close>; the entry is
  there afterwards or not.\<close>

definition init_sysfs :: "bool \<Rightarrow> int \<Rightarrow> int \<times> bool" where
  "init_sysfs kobject group_ret = (if \<not> kobject then (- ENOMEM, False) else (group_ret, group_ret = 0))"

definition bispe_init :: "u32 \<Rightarrow> bool \<Rightarrow> int \<Rightarrow> bool \<Rightarrow>
    (u32 list \<Rightarrow> runtime_ctx \<Rightarrow> int) \<Rightarrow> globals \<times> heap \<Rightarrow> (int \<times> (string \<times> bool) list \<times> globals \<times> heap) outcome" where
  "bispe_init ecx kobject group_ret with_tests start gh =
     (if bispe_check_features ecx = 0 then Ret (1, [], gh)
      else let ret = fst (init_sysfs kobject group_ret)
           in if ret \<noteq> 0 then Ret (ret, [], gh)
              else if with_tests then obind (run_interpreter_tests start tests gh) (\<lambda>(rs, gh1). Ret (0, rs, gh1))
              else Ret (0, [], gh))"

text \<open>One of the two features is enough to load the module.\<close>

lemma loads_without_avx: "bispe_init 0x02000000 True 0 False start gh = Ret (0, [], gh)"
  by (simp add: bispe_init_def one_feature_passes init_sysfs_def)

end
